(* ===== verification/Pqfs_Prelude.thy ===== *)
theory Pqfs_Prelude
  imports Main "HOL-Library.Word"
begin

text \<open>
  Prelude of the pqfs development: machine integers, byte strings, the result type of
  fallible code and the list operations that the file and vector code of pqfs is made of
  (\<open>Vec::resize\<close>, \<open>File::set_len\<close>, a write at an offset, a segment), each with its
  length and element-wise characterisation.  The collections \<open>byte_list\<close> (byte-string
  lemmas) and \<open>u64_nat\<close> (reading 64-bit words as naturals) carry the proofs of the
  component theories.
\<close>

section \<open>Machine integers and byte strings\<close>

type_synonym byte = "8 word"
type_synonym bytes = "byte list"
type_synonym u16 = "16 word"
type_synonym u32 = "32 word"
type_synonym u64 = "64 word"
type_synonym i64 = "64 word"

named_theorems byte_list
named_theorems u64_nat

text \<open>The length of a vector is a 64-bit number.\<close>

definition vec_ok :: "'a list \<Rightarrow> bool" where
  "vec_ok xs \<longleftrightarrow> length xs < 2 ^ 64"

lemma vec_ok_Nil [simp]: "vec_ok []"
  by (simp add: vec_ok_def)

section \<open>Slices, resizing and writes at an offset\<close>

definition segment :: "'a list \<Rightarrow> nat \<Rightarrow> nat \<Rightarrow> 'a list" where
  "segment xs a n = take n (drop a xs)"

definition resize :: "nat \<Rightarrow> bytes \<Rightarrow> bytes" where
  "resize n xs = take n xs @ replicate (n - length xs) 0"

definition overwrite :: "nat \<Rightarrow> bytes \<Rightarrow> bytes \<Rightarrow> bytes" where
  "overwrite off ys xs = resize off xs @ ys @ drop (off + length ys) xs"

lemma length_segment [simp]: "length (segment xs a n) = min n (length xs - a)"
  by (simp add: segment_def min.commute)

lemma nth_segment: "i < n \<Longrightarrow> a + i < length xs \<Longrightarrow> segment xs a n ! i = xs ! (a + i)"
  by (simp add: segment_def)

lemma segment_zero [simp]: "segment xs a 0 = []"
  by (simp add: segment_def)

lemma segment_all: "length xs \<le> n \<Longrightarrow> segment xs 0 n = xs"
  by (simp add: segment_def)

lemma length_resize [simp]: "length (resize n xs) = n"
  by (simp add: resize_def)

lemma nth_resize: "i < n \<Longrightarrow> resize n xs ! i = (if i < length xs then xs ! i else 0)"
  by (simp add: resize_def nth_append)

lemma length_overwrite [simp]: "length (overwrite off ys xs) = max (length xs) (off + length ys)"
  by (simp add: overwrite_def)

lemma nth_overwrite:
  assumes "i < length (overwrite off ys xs)"
  shows "overwrite off ys xs ! i =
    (if i < off then (if i < length xs then xs ! i else 0)
     else if i < off + length ys then ys ! (i - off) else xs ! i)"
proof -
  consider "i < off" | "off \<le> i" "i < off + length ys" | "off + length ys \<le> i" by linarith
  then show ?thesis
  proof cases
    case 1
    then show ?thesis by (simp add: overwrite_def nth_append nth_resize)
  next
    case 2
    then have "i - off < length ys" by linarith
    with 2 show ?thesis by (simp add: overwrite_def nth_append)
  next
    case 3
    then have "i < length xs" and "\<not> i - off < length ys" using assms by simp_all
    with 3 show ?thesis by (simp add: overwrite_def nth_append)
  qed
qed

lemma segment_segment: "segment (segment xs a n) b m = segment xs (a + b) (min m (n - b))"
  by (simp add: segment_def drop_take take_take add.commute min.commute)

lemma segment_join: "a \<le> b \<Longrightarrow> b \<le> c \<Longrightarrow> segment xs a (b - a) @ segment xs b (c - b) = segment xs a (c - a)"
  unfolding segment_def using take_add [of "b - a" "c - b" "drop a xs"] by (simp add: add.commute)

lemma segment_beyond [simp]: "length xs \<le> a \<Longrightarrow> segment xs a n = []"
  by (simp add: segment_def)

lemma segment_overwrite_before:
  assumes "a + n \<le> off" and "a + n \<le> length xs"
  shows "segment (overwrite off ys xs) a n = segment xs a n"
proof (rule nth_equalityI)
  show len: "length (segment (overwrite off ys xs) a n) = length (segment xs a n)"
    using assms by simp
  fix i assume "i < length (segment (overwrite off ys xs) a n)"
  with assms show "segment (overwrite off ys xs) a n ! i = segment xs a n ! i"
    by (simp add: nth_segment nth_overwrite)
qed

lemma segment_overwrite_after:
  assumes "off + length ys \<le> a" and "a + n \<le> length xs"
  shows "segment (overwrite off ys xs) a n = segment xs a n"
proof (rule nth_equalityI)
  show len: "length (segment (overwrite off ys xs) a n) = length (segment xs a n)"
    using assms by simp
  fix i assume "i < length (segment (overwrite off ys xs) a n)"
  with assms show "segment (overwrite off ys xs) a n ! i = segment xs a n ! i"
    by (simp add: nth_segment nth_overwrite)
qed

lemma segment_overwrite_same: "segment (overwrite off ys xs) off (length ys) = ys"
  by (simp add: segment_def overwrite_def)

lemma segment_resize:
  assumes "a + m \<le> n" and "a + m \<le> length xs"
  shows "segment (resize n xs) a m = segment xs a m"
  using assms by (auto simp: segment_def resize_def drop_take)

lemma nth_replace:
  assumes "d1 \<le> d2" and "d2 \<le> length xs" and "length ys = d2 - d1" and "i < length xs"
  shows "(take d1 xs @ ys @ drop d2 xs) ! i = (if d1 \<le> i \<and> i < d2 then ys ! (i - d1) else xs ! i)"
proof -
  consider "i < d1" | "d1 \<le> i" "i < d2" "i - d1 < d2 - d1" | "d2 \<le> i" "\<not> i - d1 < d2 - d1" "d2 + (i - d1 - (d2 - d1)) = i"
    using assms by linarith
  then show ?thesis
    using assms by cases (simp_all add: nth_append)
qed

section \<open>Reading 64-bit words as naturals\<close>

lemma u64_bound: "unat (x :: u64) < 2 ^ 64"
  using unsigned_less [of x, where ?'a = nat] by simp

lemma unat_eqD: "unat (x :: u64) = n \<Longrightarrow> x = of_nat n"
  by auto

lemma unat_plus:
  assumes "unat a + unat b < 2 ^ 64"
  shows "unat (a + b :: u64) = unat a + unat b"
  using assms by (simp add: unat_word_ariths)

lemma unat_max_min [u64_nat]:
  "unat (max a b) = max (unat a) (unat (b :: u64))"
  "unat (min a b) = min (unat a) (unat (b :: u64))"
  by (simp_all add: max_def min_def word_le_nat_alt)

lemma unat_of_nat_u64 [u64_nat]: "i < 2 ^ 64 \<Longrightarrow> unat (of_nat i :: u64) = i"
  by (simp add: unat_of_nat)

lemma of_nat_u64_eq: "i < 2 ^ 64 \<Longrightarrow> j < 2 ^ 64 \<Longrightarrow> (of_nat i :: u64) = of_nat j \<longleftrightarrow> i = j"
  by (metis unat_of_nat_u64)

end
