(* ===== verification/World.thy ===== *)
theory World
  imports Pqfs_Prelude
begin

text \<open>
  The outside world of pqfs as explicit state: the files below the backend directory, the
  operating system's randomness, the clock, and the I/O errors it may report.  Fallible code
  is a function from a world to an error or a value together with the new world, so that the
  effects made before an error stay made, as they do in the Rust code.
  The file operations are those the sources use of \<open>std::fs\<close> and \<open>std::io\<close>.
\<close>

section \<open>State\<close>

type_synonym path = "string list"

text \<open>
  \<open>tape\<close> holds the bytes the random number generator will return, \<open>clock\<close> the coming
  readings of the system clock in nanoseconds since the epoch (negative before it), \<open>ids\<close>
  the user and group id of the process, and \<open>faults\<close> the outcome of each coming file operation:
  \<open>None\<close> for success and \<open>Some k\<close> for an I/O error (after \<open>k\<close> bytes, for a write).
  An exhausted list stands for zero bytes, a zero reading and success.
\<close>

record world =
  disk :: "path \<rightharpoonup> bytes"
  tape :: bytes
  clock :: "int list"
  faults :: "nat option list"
  typed :: "bytes list"
  terminal :: bool
  stdout :: "string list"
  ids :: "u32 \<times> u32"

datatype error =
    IoError
  | Panic
  | InvalidKeyLength
  | InvalidSaltLength
  | InvalidArgon2Params
  | Argon2Failed
  | HkdfFailed
  | EncryptFailed
  | DecryptFailed
  | TooShort
  | InvalidUtf8
  | WrongKeyLength
  | BadHeaderMac
  | SerializeFailed
  | DeserializeFailed
  | VolumeExists
  | NoVolume
  | HeaderTooLarge
  | HeaderVersion u32
  | NoSlotAccepted
  | IncompleteRekey
  | SeedExtraction
  | InvalidSeed
  | InvalidKemCiphertext
  | InvalidKemPublicKeyLength
  | InvalidKemPublicKey
  | WrongKemParam u16
  | NotAnIdentity
  | AlreadyExists
  | PasswordRequired
  | PasswordMismatch
  | EmptyPassword
  | NoSuchSlot nat
  | RewrapNeedsPassword nat
  | LastSlot

type_synonym 'a result = "error + 'a"
type_synonym 'a io = "world \<Rightarrow> 'a result \<times> world"

section \<open>Sequencing\<close>

definition ret :: "'a \<Rightarrow> 'a io" where
  "ret x w = (Inr x, w)"

definition throw :: "error \<Rightarrow> 'a io" where
  "throw e w = (Inl e, w)"

definition lift :: "'a result \<Rightarrow> 'a io" where
  "lift r w = (r, w)"

definition bindE :: "'a io \<Rightarrow> ('a \<Rightarrow> 'b io) \<Rightarrow> 'b io" where
  "bindE m f w = (case m w of (Inl e, w') \<Rightarrow> (Inl e, w') | (Inr x, w') \<Rightarrow> f x w')"

definition get_world :: "world io" where
  "get_world w = (Inr w, w)"

definition rbind :: "'a result \<Rightarrow> ('a \<Rightarrow> 'b result) \<Rightarrow> 'b result" where
  "rbind r f = (case r of Inl e \<Rightarrow> Inl e | Inr x \<Rightarrow> f x)"

definition of_option :: "error \<Rightarrow> 'a option \<Rightarrow> 'a result" where
  "of_option e m = (case m of None \<Rightarrow> Inl e | Some x \<Rightarrow> Inr x)"

section \<open>Randomness and the clock\<close>

definition fill_bytes :: "nat \<Rightarrow> bytes io" where
  "fill_bytes n w = (Inr (take n (tape w @ replicate n 0)), w\<lparr>tape := drop n (tape w)\<rparr>)"

definition read_clock :: "world \<Rightarrow> int \<times> world" where
  "read_clock w = (case clock w of [] \<Rightarrow> (0, w) | t # ts \<Rightarrow> (t, w\<lparr>clock := ts\<rparr>))"

section \<open>Files\<close>

definition tick :: "world \<Rightarrow> world" where
  "tick w = w\<lparr>faults := tl (faults w)\<rparr>"

definition fs_op :: "(nat option \<Rightarrow> 'a io) \<Rightarrow> 'a io" where
  "fs_op f w = f (case faults w of [] \<Rightarrow> None | x # _ \<Rightarrow> x) (tick w)"

definition fs_exists :: "path \<Rightarrow> world \<Rightarrow> bool" where
  "fs_exists p w = (disk w p \<noteq> None)"

definition fs_create_dir_all :: "path \<Rightarrow> unit io" where
  "fs_create_dir_all p = fs_op (\<lambda>flt. if flt = None then ret () else throw IoError)"

definition fs_read :: "path \<Rightarrow> bytes io" where
  "fs_read p = fs_op (\<lambda>flt w. case (flt, disk w p) of
      (None, Some b) \<Rightarrow> (Inr b, w)
    | _ \<Rightarrow> (Inl IoError, w))"

definition fs_open :: "path \<Rightarrow> unit io" where
  "fs_open p = fs_op (\<lambda>flt w. if flt = None \<and> disk w p \<noteq> None then (Inr (), w) else (Inl IoError, w))"

text \<open>\<open>File::create\<close>: an empty file, replacing what was there.\<close>

definition fs_create :: "path \<Rightarrow> unit io" where
  "fs_create p = fs_op (\<lambda>flt w. case flt of
      None \<Rightarrow> (Inr (), w\<lparr>disk := (disk w)(p \<mapsto> [])\<rparr>)
    | Some _ \<Rightarrow> (Inl IoError, w))"

text \<open>\<open>OpenOptions::new().read(true).write(true).create(true).truncate(false)\<close>.\<close>

definition fs_open_rw :: "path \<Rightarrow> unit io" where
  "fs_open_rw p = fs_op (\<lambda>flt w. case flt of
      None \<Rightarrow> (Inr (), if disk w p = None then w\<lparr>disk := (disk w)(p \<mapsto> [])\<rparr> else w)
    | Some _ \<Rightarrow> (Inl IoError, w))"

text \<open>\<open>seek\<close> to an offset and \<open>read_exact\<close>: an error unless the bytes are all there.\<close>

definition fs_read_exact_at :: "path \<Rightarrow> u64 \<Rightarrow> nat \<Rightarrow> bytes io" where
  "fs_read_exact_at p off n = fs_op (\<lambda>flt w. case (flt, disk w p) of
      (None, Some b) \<Rightarrow>
        if unat off + n \<le> length b \<or> n = 0 then (Inr (segment b (unat off) n), w)
        else (Inl IoError, w)
    | _ \<Rightarrow> (Inl IoError, w))"

definition put_at :: "nat \<Rightarrow> bytes \<Rightarrow> bytes \<Rightarrow> bytes" where
  "put_at off ys xs = (if ys = [] then xs else overwrite off ys xs)"

text \<open>\<open>seek\<close> to an offset and \<open>write_all\<close>: an error may leave a part of the data written.\<close>

definition fs_write_all_at :: "path \<Rightarrow> u64 \<Rightarrow> bytes \<Rightarrow> unit io" where
  "fs_write_all_at p off ys = fs_op (\<lambda>flt w. case disk w p of
      None \<Rightarrow> (Inl IoError, w)
    | Some b \<Rightarrow> (case flt of
        None \<Rightarrow> (Inr (), w\<lparr>disk := (disk w)(p \<mapsto> put_at (unat off) ys b)\<rparr>)
      | Some k \<Rightarrow> (Inl IoError, w\<lparr>disk := (disk w)(p \<mapsto> put_at (unat off) (take k ys) b)\<rparr>)))"

definition fs_set_len :: "path \<Rightarrow> u64 \<Rightarrow> unit io" where
  "fs_set_len p n = fs_op (\<lambda>flt w. case (flt, disk w p) of
      (None, Some b) \<Rightarrow> (Inr (), w\<lparr>disk := (disk w)(p \<mapsto> resize (unat n) b)\<rparr>)
    | _ \<Rightarrow> (Inl IoError, w))"

definition fs_sync_all :: "path \<Rightarrow> unit io" where
  "fs_sync_all p = fs_op (\<lambda>flt. if flt = None then ret () else throw IoError)"

definition fs_rename :: "path \<Rightarrow> path \<Rightarrow> unit io" where
  "fs_rename a b = fs_op (\<lambda>flt w. case (flt, disk w a) of
      (None, Some x) \<Rightarrow> (Inr (), w\<lparr>disk := ((disk w)(a := None))(b \<mapsto> x)\<rparr>)
    | _ \<Rightarrow> (Inl IoError, w))"

definition fs_remove_file :: "path \<Rightarrow> unit io" where
  "fs_remove_file p = fs_op (\<lambda>flt w. case (flt, disk w p) of
      (None, Some _) \<Rightarrow> (Inr (), w\<lparr>disk := (disk w)(p := None)\<rparr>)
    | _ \<Rightarrow> (Inl IoError, w))"

text \<open>\<open>fs::write\<close>: create the file, then write the whole buffer.\<close>

definition fs_write :: "path \<Rightarrow> bytes \<Rightarrow> unit io" where
  "fs_write p ys = bindE (fs_create p) (\<lambda>_. fs_write_all_at p 0 ys)"

text \<open>\<open>File::open(dir)?.sync_all()\<close> on a directory.\<close>

definition fs_sync_dir :: "path \<Rightarrow> unit io" where
  "fs_sync_dir p = bindE (fs_sync_all p) (\<lambda>_. fs_sync_all p)"

section \<open>Laws\<close>

named_theorems io_laws

lemma ret_run [io_laws]: "ret x w = (Inr x, w)"
  by (simp add: ret_def)

lemma throw_run [io_laws]: "throw e w = (Inl e, w)"
  by (simp add: throw_def)

lemma lift_run [io_laws]: "lift r w = (r, w)"
  by (simp add: lift_def)

lemma bindE_Inr: "m w = (Inr x, w') \<Longrightarrow> bindE m f w = f x w'"
  by (simp add: bindE_def)

lemma bindE_Inl: "m w = (Inl e, w') \<Longrightarrow> bindE m f w = (Inl e, w')"
  by (simp add: bindE_def)

lemma bindE_ret [simp]: "bindE (ret x) f = f x"
  by (rule ext) (simp add: bindE_def ret_def)

lemma bindE_throw [simp]: "bindE (throw e) f = throw e"
  by (rule ext) (simp add: bindE_def throw_def)

lemma lift_simps [simp]: "lift (Inr x) = ret x" "lift (Inl e) = throw e"
  by (rule ext, simp add: lift_def ret_def throw_def)+

lemma bindE_assoc: "bindE (bindE m f) g = bindE m (\<lambda>x. bindE (f x) g)"
  by (rule ext) (simp add: bindE_def split: prod.splits sum.splits)

lemma bindE_InrE:
  assumes "bindE m f w = (Inr y, w'')"
  obtains x w' where "m w = (Inr x, w')" and "f x w' = (Inr y, w'')"
  using assms by (auto simp: bindE_def split: prod.splits sum.splits)

lemma rbind_simps [simp]: "rbind (Inr x) f = f x" "rbind (Inl e) f = Inl e"
  by (simp_all add: rbind_def)

lemma rbind_Inr_iff: "rbind r f = Inr y \<longleftrightarrow> (\<exists>x. r = Inr x \<and> f x = Inr y)"
  by (cases r) auto

lemma of_option_Inr [simp]: "of_option e m = Inr x \<longleftrightarrow> m = Some x"
  by (simp add: of_option_def split: option.splits)

lemma of_option_simps [simp]: "of_option e None = Inl e" "of_option e (Some x) = Inr x"
  by (simp_all add: of_option_def)

lemma fill_bytes_run [io_laws]:
  "fill_bytes n w = (Inr (take n (tape w @ replicate n 0)), w\<lparr>tape := drop n (tape w)\<rparr>)"
  by (simp add: fill_bytes_def)

text \<open>A world in which every coming file operation succeeds.\<close>

definition fault_free :: "world \<Rightarrow> bool" where
  "fault_free w \<longleftrightarrow> set (faults w) \<subseteq> {None}"

lemma fault_free_tick [simp]: "fault_free w \<Longrightarrow> fault_free (tick w)"
  by (cases "faults w") (auto simp: fault_free_def tick_def)

lemma fault_free_update [simp]:
  "fault_free (w\<lparr>disk := d\<rparr>) = fault_free w"
  "fault_free (w\<lparr>tape := t\<rparr>) = fault_free w"
  "fault_free (w\<lparr>clock := c\<rparr>) = fault_free w"
  "fault_free (w\<lparr>stdout := s\<rparr>) = fault_free w"
  "fault_free (w\<lparr>typed := y\<rparr>) = fault_free w"
  by (simp_all add: fault_free_def)

lemma tick_sel [simp]:
  "disk (tick w) = disk w" "tape (tick w) = tape w" "clock (tick w) = clock w"
  "typed (tick w) = typed w" "terminal (tick w) = terminal w" "stdout (tick w) = stdout w"
  "ids (tick w) = ids w"
  "faults (tick w) = tl (faults w)"
  by (simp_all add: tick_def)

lemma tick_update [simp]:
  "tick (w\<lparr>disk := d\<rparr>) = (tick w)\<lparr>disk := d\<rparr>"
  "tick (w\<lparr>tape := t\<rparr>) = (tick w)\<lparr>tape := t\<rparr>"
  "tick (w\<lparr>clock := c\<rparr>) = (tick w)\<lparr>clock := c\<rparr>"
  by (simp_all add: tick_def)

lemma tick_disk_triv [simp]: "(tick w)\<lparr>disk := disk w\<rparr> = tick w"
  by (simp add: tick_def)

lemma fs_op_fault_free: "fault_free w \<Longrightarrow> fs_op f w = f None (tick w)"
  by (cases "faults w") (auto simp: fs_op_def fault_free_def)

text \<open>What each file operation does in such a world.\<close>

lemma fs_ok [io_laws]:
  assumes "fault_free w"
  shows "fs_create_dir_all p w = (Inr (), tick w)"
    and "fs_create p w = (Inr (), (tick w)\<lparr>disk := (disk w)(p \<mapsto> [])\<rparr>)"
    and "fs_sync_all p w = (Inr (), tick w)"
    and "fs_sync_dir p w = (Inr (), tick (tick w))"
    and "fs_write p ys w = (Inr (), (tick (tick w))\<lparr>disk := (disk w)(p \<mapsto> put_at 0 ys [])\<rparr>)"
    and "fs_open_rw p w = (Inr (), (tick w)\<lparr>disk := (disk w)(p \<mapsto> (case disk w p of None \<Rightarrow> [] | Some b \<Rightarrow> b))\<rparr>)"
  using assms
  by (simp_all add: fs_create_dir_all_def fs_create_def fs_sync_all_def fs_sync_dir_def fs_write_def
      fs_open_rw_def fs_write_all_at_def fs_op_fault_free ret_def bindE_def map_upd_triv
      split: option.splits)

lemma fs_ok_present [io_laws]:
  assumes "fault_free w" and "disk w p = Some b"
  shows "fs_read p w = (Inr b, tick w)"
    and "fs_open p w = (Inr (), tick w)"
    and "fs_set_len p n w = (Inr (), (tick w)\<lparr>disk := (disk w)(p \<mapsto> resize (unat n) b)\<rparr>)"
    and "fs_write_all_at p off ys w = (Inr (), (tick w)\<lparr>disk := (disk w)(p \<mapsto> put_at (unat off) ys b)\<rparr>)"
    and "fs_remove_file p w = (Inr (), (tick w)\<lparr>disk := (disk w)(p := None)\<rparr>)"
    and "fs_rename p q w = (Inr (), (tick w)\<lparr>disk := ((disk w)(p := None))(q \<mapsto> b)\<rparr>)"
  using assms
  by (simp_all add: fs_read_def fs_open_def fs_set_len_def fs_write_all_at_def fs_remove_file_def
      fs_rename_def fs_op_fault_free)

lemma fs_read_exact_at_ok [io_laws]:
  assumes "fault_free w" and "disk w p = Some b" and "unat off + n \<le> length b"
  shows "fs_read_exact_at p off n w = (Inr (segment b (unat off) n), tick w)"
  using assms by (simp add: fs_read_exact_at_def fs_op_fault_free)

lemma put_at_length: "length (put_at off ys xs) = (if ys = [] then length xs else max (length xs) (off + length ys))"
  by (simp add: put_at_def)

lemma put_at_zero_Nil [simp]: "put_at 0 ys [] = ys"
  by (simp add: put_at_def overwrite_def resize_def)

definition file_bytes :: "world \<Rightarrow> path \<Rightarrow> bytes" where
  "file_bytes w p = (case disk w p of None \<Rightarrow> [] | Some b \<Rightarrow> b)"

text \<open>What an operation that may fail has done, whether it succeeded or not.\<close>

definition only_ticks :: "world \<Rightarrow> (path \<rightharpoonup> bytes) \<Rightarrow> world \<Rightarrow> bool" where
  "only_ticks w d w' \<longleftrightarrow> disk w' = d \<and> tape w' = tape w \<and> clock w' = clock w \<and> typed w' = typed w \<and>
     terminal w' = terminal w \<and> stdout w' = stdout w \<and> ids w' = ids w"

lemma fs_create_outcome:
  "fs_create p w = (r, w') \<Longrightarrow>
   only_ticks w (if r = Inr () then (disk w)(p \<mapsto> []) else disk w) w'"
  by (auto simp: fs_create_def fs_op_def only_ticks_def split: option.splits)

lemma fs_write_all_at_outcome:
  "fs_write_all_at p off ys w = (r, w') \<Longrightarrow>
   (\<exists>b. only_ticks w (if r = Inr () then (disk w)(p \<mapsto> put_at (unat off) ys (file_bytes w p))
      else if disk w p = None then disk w else (disk w)(p \<mapsto> b)) w') \<and> (r = Inr () \<longrightarrow> disk w p \<noteq> None)"
  by (auto simp: fs_write_all_at_def fs_op_def only_ticks_def file_bytes_def split: option.splits)

lemma fs_sync_outcome:
  "fs_sync_all p w = (r, w') \<Longrightarrow> only_ticks w (disk w) w'"
  "fs_sync_dir p w = (r, w') \<Longrightarrow> only_ticks w (disk w) w'"
  by (auto simp: fs_sync_dir_def bindE_def fs_sync_all_def fs_op_def only_ticks_def ret_def throw_def split: if_splits sum.splits prod.splits)

lemma fs_rename_outcome:
  "fs_rename a b w = (r, w') \<Longrightarrow>
   only_ticks w (if r = Inr () then ((disk w)(a := None))(b := disk w a) else disk w) w' \<and>
   (r = Inr () \<longrightarrow> disk w a \<noteq> None)"
  by (auto simp: fs_rename_def fs_op_def only_ticks_def split: option.splits)

lemma fs_remove_file_outcome:
  "fs_remove_file p w = (r, w') \<Longrightarrow> only_ticks w (if r = Inr () then (disk w)(p := None) else disk w) w'"
  by (auto simp: fs_remove_file_def fs_op_def only_ticks_def split: option.splits)

lemma only_ticks_trans: "only_ticks w d w' \<Longrightarrow> only_ticks w' d' w'' \<Longrightarrow> only_ticks w d' w''"
  by (simp add: only_ticks_def)

lemma only_ticks_disk: "only_ticks w d w' \<Longrightarrow> disk w' = d"
  by (simp add: only_ticks_def)

section \<open>Comparing worlds\<close>

text \<open>\<open>quiet\<close>: nothing but the fault list has changed; \<open>evolved\<close>: the files are now \<open>d\<close>,
  and otherwise only randomness and the fault list were used up.\<close>

definition quiet :: "world \<Rightarrow> world \<Rightarrow> bool" where
  "quiet w w' \<longleftrightarrow> w' = w\<lparr>faults := faults w'\<rparr> \<and> fault_free w'"

lemma quiet_tick: "fault_free w \<Longrightarrow> quiet w (tick w)"
  by (simp add: quiet_def tick_def fault_free_tick [unfolded tick_def])

lemma quiet_refl: "fault_free w \<Longrightarrow> quiet w w"
  by (simp add: quiet_def)

lemma quiet_trans: "quiet w w' \<Longrightarrow> quiet w' w'' \<Longrightarrow> quiet w w''"
  unfolding quiet_def by (metis world.surjective world.update_convs(4))

lemma quietD: "quiet w w' \<Longrightarrow> disk w' = disk w \<and> fault_free w' \<and> tape w' = tape w \<and> clock w' = clock w"
  unfolding quiet_def by (metis world.select_convs(1,2,3) world.surjective world.update_convs(4))

definition evolved :: "world \<Rightarrow> (path \<rightharpoonup> bytes) \<Rightarrow> world \<Rightarrow> bool" where
  "evolved w d w' \<longleftrightarrow> w' = w\<lparr>disk := d, tape := tape w', faults := faults w'\<rparr> \<and> fault_free w'"

lemma evolvedD:
  assumes "evolved w d w'"
  shows "disk w' = d" "fault_free w'" "clock w' = clock w" "typed w' = typed w"
    "terminal w' = terminal w" "stdout w' = stdout w" "ids w' = ids w"
proof -
  have e: "w' = w\<lparr>disk := d, tape := tape w', faults := faults w'\<rparr>"
    using assms by (simp add: evolved_def)
  show "fault_free w'" using assms by (simp add: evolved_def)
  show "disk w' = d" "clock w' = clock w" "typed w' = typed w" "terminal w' = terminal w" "stdout w' = stdout w"
    "ids w' = ids w"
    by (subst e, simp)+
qed

lemma evolvedI:
  assumes "disk w' = d" "fault_free w'" "clock w' = clock w" "typed w' = typed w"
    "terminal w' = terminal w" "stdout w' = stdout w" "ids w' = ids w"
  shows "evolved w d w'"
  using assms by (cases w, cases w') (simp add: evolved_def)

lemma evolved_trans: "evolved w d w' \<Longrightarrow> evolved w' d' w'' \<Longrightarrow> evolved w d' w''"
  by (rule evolvedI) (simp_all add: evolvedD)

lemma quiet_evolved: "quiet w w' \<Longrightarrow> evolved w (disk w) w'"
  unfolding quiet_def evolved_def by (cases w, cases w') simp

section \<open>Invariants of fallible code\<close>

text \<open>\<open>preserves I m\<close>: whatever \<open>m\<close> returns, and whichever file operations fail, \<open>I\<close> is kept.\<close>

definition preserves :: "(world \<Rightarrow> bool) \<Rightarrow> 'a io \<Rightarrow> bool" where
  "preserves I m \<longleftrightarrow> (\<forall>w. I w \<longrightarrow> I (snd (m w)))"

named_theorems preserves_intros

lemma preserves_bindE [preserves_intros]:
  "preserves I m \<Longrightarrow> (\<And>x. preserves I (f x)) \<Longrightarrow> preserves I (bindE m f)"
  unfolding preserves_def bindE_def by (auto split: prod.splits sum.splits)

lemma preserves_pure [preserves_intros]:
  "preserves I (ret x)" "preserves I (throw e)" "preserves I (lift r)"
  by (simp_all add: preserves_def ret_def throw_def lift_def)

lemma preserves_if [preserves_intros]:
  "(b \<Longrightarrow> preserves I m) \<Longrightarrow> (\<not> b \<Longrightarrow> preserves I m') \<Longrightarrow> preserves I (if b then m else m')"
  by simp

lemma preserves_let [preserves_intros]: "preserves I (f x) \<Longrightarrow> preserves I (Let x f)"
  by simp

lemma preserves_fs_op [preserves_intros]:
  assumes "\<And>w. I w \<Longrightarrow> I (tick w)" and "\<And>flt. preserves I (f flt)"
  shows "preserves I (fs_op f)"
  using assms by (simp add: preserves_def fs_op_def)

text \<open>Operations that only read.\<close>

lemma preserves_read_only:
  assumes "\<And>w. I w \<Longrightarrow> I (tick w)"
  shows "preserves I (fs_read p)" "preserves I (fs_open p)" "preserves I (fs_read_exact_at p off n)"
    "preserves I (fs_sync_all p)" "preserves I (fs_sync_dir p)" "preserves I (fs_create_dir_all p)"
  unfolding fs_read_def fs_open_def fs_read_exact_at_def fs_sync_all_def fs_sync_dir_def fs_create_dir_all_def
  by (intro preserves_intros assms; simp add: preserves_def split: option.splits)+

section \<open>Replacing a file atomically\<close>

text \<open>
  The sequence by which pqfs replaces its index and its header: write a temporary file,
  sync it, rename it over the target, sync the directory.  Wherever it stops, the target
  holds either its old contents or all of the new ones.
\<close>

definition replace_file :: "path \<Rightarrow> path \<Rightarrow> path \<Rightarrow> bytes \<Rightarrow> unit io" where
  "replace_file tmp p dir data =
     bindE (fs_create tmp) (\<lambda>_.
     bindE (fs_write_all_at tmp 0 data) (\<lambda>_.
     bindE (fs_sync_all tmp) (\<lambda>_.
     bindE (fs_rename tmp p) (\<lambda>_.
     fs_sync_dir dir))))"

definition replaced :: "path \<Rightarrow> path \<Rightarrow> bytes \<Rightarrow> world \<Rightarrow> bool \<Rightarrow> world \<Rightarrow> bool" where
  "replaced tmp p data w ok w' \<longleftrightarrow>
     (\<exists>d. only_ticks w d w' \<and> (\<forall>q. q \<noteq> tmp \<longrightarrow> q \<noteq> p \<longrightarrow> d q = disk w q) \<and>
       (d p = disk w p \<or> d p = Some data) \<and> (ok \<longrightarrow> d p = Some data))"

lemma bindE_cases:
  assumes "bindE m f w = (r, w'')"
  obtains (Err) e where "m w = (Inl e, w'')" and "r = Inl e"
  | (Ok) x w' where "m w = (Inr x, w')" and "f x w' = (r, w'')"
  using assms by (auto simp: bindE_def split: prod.splits sum.splits)

lemma replace_file_outcome:
  assumes "replace_file tmp p dir data w = (r, w')" and "tmp \<noteq> p"
  shows "replaced tmp p data w (r = Inr ()) w'"
  using assms(1) [unfolded replace_file_def]
proof (cases rule: bindE_cases)
  case (Err e)
  then show ?thesis using fs_create_outcome by (fastforce simp: replaced_def)
next
  case (Ok x w1)
  have w1: "only_ticks w ((disk w)(tmp \<mapsto> [])) w1" using fs_create_outcome [OF Ok(1)] by simp
  note d1 = only_ticks_disk [OF w1]
  from Ok(2) show ?thesis
  proof (cases rule: bindE_cases)
    case (Err e)
    obtain b where "only_ticks w1 ((disk w1)(tmp \<mapsto> b)) w'"
      using fs_write_all_at_outcome [OF Err(1)] d1 by auto
    with w1 have "only_ticks w ((disk w)(tmp \<mapsto> b)) w'"
      using only_ticks_trans d1 by fastforce
    with assms(2) Err(2) show ?thesis
      unfolding replaced_def by (intro exI [of _ "(disk w)(tmp \<mapsto> b)"]) simp
  next
    case (Ok y w2)
    have "only_ticks w1 ((disk w1)(tmp \<mapsto> data)) w2"
      using fs_write_all_at_outcome [OF Ok(1)] d1 by (simp add: file_bytes_def)
    then have w2: "only_ticks w ((disk w)(tmp \<mapsto> data)) w2"
      using only_ticks_trans [OF w1] d1 by simp
    note d2 = only_ticks_disk [OF w2]
    from Ok(2) show ?thesis
    proof (cases rule: bindE_cases)
      case (Err e)
      from only_ticks_trans [OF w2 fs_sync_outcome(1) [OF Err(1)]] assms(2) Err(2) d2 show ?thesis
        unfolding replaced_def by (intro exI [of _ "(disk w)(tmp \<mapsto> data)"]) simp
    next
      case (Ok z w3)
      have w3: "only_ticks w ((disk w)(tmp \<mapsto> data)) w3"
        using only_ticks_trans [OF w2 fs_sync_outcome(1) [OF Ok(1)]] d2 by simp
      note d3 = only_ticks_disk [OF w3]
      from Ok(2) show ?thesis
      proof (cases rule: bindE_cases)
        case (Err e)
        then have "only_ticks w3 (disk w3) w'" using fs_rename_outcome [OF Err(1)] by simp
        from only_ticks_trans [OF w3 this] assms(2) Err(2) d3 show ?thesis
          unfolding replaced_def by (intro exI [of _ "(disk w)(tmp \<mapsto> data)"]) simp
      next
        case (Ok u w4)
        have w4: "only_ticks w3 (((disk w3)(tmp := None))(p := disk w3 tmp)) w4"
          using fs_rename_outcome [OF Ok(1)] by simp
        from only_ticks_trans [OF w3 only_ticks_trans [OF this fs_sync_outcome(2) [OF Ok(2)]]]
        show ?thesis
          using assms(2) only_ticks_disk [OF w4] d3 unfolding replaced_def
          by (intro exI [of _ "disk w4"]) simp
      qed
    qed
  qed
qed

lemma replace_file_ok:
  assumes "fault_free w" and "tmp \<noteq> p"
  shows "\<exists>w'. replace_file tmp p dir data w = (Inr (), w') \<and> fault_free w' \<and>
    disk w' = ((disk w)(tmp := None))(p \<mapsto> data)"
  using assms by (simp add: replace_file_def bindE_def fs_ok fs_ok_present)

end
