(* ===== verification/Entry.thy ===== *)
theory Entry
  imports World
begin

text \<open>
  Directory entries (\<open>src/fs/entry.rs\<close>) and the attributes reported for them
  (\<open>attr_for\<close> of \<open>src/fs/inner.rs\<close>).  A point in time is a number of nanoseconds
  relative to the Unix epoch.
\<close>

section \<open>Times\<close>

type_synonym system_time = int

definition since_epoch :: "system_time \<Rightarrow> u64" where
  "since_epoch t = (if 0 \<le> t then of_int t else 0)"

definition now_nanos :: "world \<Rightarrow> u64 \<times> world" where
  "now_nanos w = (case read_clock w of (t, w') \<Rightarrow> (since_epoch t, w'))"

definition to_system_time :: "u64 \<Rightarrow> system_time" where
  "to_system_time nanos = 0 + uint nanos"

record timestamps =
  atime :: u64
  mtime :: u64
  ctime :: u64
  crtime :: u64

definition touch_changed :: "timestamps \<Rightarrow> world \<Rightarrow> timestamps \<times> world" where
  "touch_changed t w = (case now_nanos w of (n, w') \<Rightarrow> (t\<lparr>ctime := n\<rparr>, w'))"

definition timestamps_now :: "world \<Rightarrow> timestamps \<times> world" where
  "timestamps_now w =
     (case now_nanos w of (n, w') \<Rightarrow> (\<lparr>atime = n, mtime = n, ctime = n, crtime = n\<rparr>, w'))"

definition touch_modified :: "timestamps \<Rightarrow> world \<Rightarrow> timestamps \<times> world" where
  "touch_modified t w = (case now_nanos w of (n, w') \<Rightarrow> (t\<lparr>mtime := n, ctime := n\<rparr>, w'))"

section \<open>Entries\<close>

datatype entry_kind = File | Dir | Symlink

record entry =
  e_ino :: u64
  e_parent :: u64
  e_name_hash :: bytes
  e_name_encrypted :: bytes
  e_content_key :: bytes
  e_kind :: entry_kind
  e_size :: u64
  e_perm :: u16
  e_uid :: u32
  e_gid :: u32
  e_times :: timestamps
  e_link_target :: bytes

datatype fuse_type = RegularFile | Directory | SymbolicLink

definition file_type :: "entry_kind \<Rightarrow> fuse_type" where
  "file_type k = (case k of File \<Rightarrow> RegularFile | Dir \<Rightarrow> Directory | Symlink \<Rightarrow> SymbolicLink)"

section \<open>The clock moves nothing else\<close>

definition drop_clock :: "world \<Rightarrow> world" where
  "drop_clock w = w\<lparr>clock := tl (clock w)\<rparr>"

lemma drop_clock_sel [simp]:
  "disk (drop_clock w) = disk w" "faults (drop_clock w) = faults w" "tape (drop_clock w) = tape w"
  "ids (drop_clock w) = ids w" "fault_free (drop_clock w) = fault_free w"
  by (simp_all add: drop_clock_def)

lemma now_nanos_run: "\<exists>n. now_nanos w = (n, drop_clock w)"
  by (cases "clock w") (simp_all add: now_nanos_def read_clock_def drop_clock_def)

lemma snd_now_nanos [simp]: "snd (now_nanos w) = drop_clock w"
  using now_nanos_run [of w] by auto

lemma touch_run [simp]:
  "snd (touch_changed t w) = drop_clock w"
  "snd (timestamps_now w) = drop_clock w"
  "snd (touch_modified t w) = drop_clock w"
  by (simp_all add: touch_changed_def timestamps_now_def touch_modified_def case_prod_beta)

text \<open>A stored time is reported as the time it was taken from, within the range of 64 bits.\<close>

lemma to_system_time_since_epoch:
  "0 \<le> t \<Longrightarrow> t < 2 ^ 64 \<Longrightarrow> to_system_time (since_epoch t) = t"
  by (simp add: to_system_time_def since_epoch_def unsigned_of_int take_bit_int_eq_self)

end
