(* ===== verification/Ordered_Map.thy ===== *)
theory Ordered_Map
  imports Pqfs_Prelude
begin

text \<open>
  The ordered maps of the Rust standard library as pqfs uses them: \<open>BTreeMap\<close> as an
  association list sorted by key, \<open>BTreeSet\<close> as a sorted list.  Iteration order is key
  order, which the serialised index and directory listings depend on.  The locale
  \<open>ordered_map\<close> is the contract the index code relies on.
\<close>

section \<open>Operations\<close>

type_synonym ('k, 'v) btree = "('k \<times> 'v) list"

definition bt_get :: "'k \<Rightarrow> ('k, 'v) btree \<Rightarrow> 'v option" where
  "bt_get k m = map_of m k"

fun bt_insert :: "'k::linorder \<Rightarrow> 'v \<Rightarrow> ('k, 'v) btree \<Rightarrow> ('k, 'v) btree" where
  "bt_insert k v [] = [(k, v)]"
| "bt_insert k v ((k', v') # m) =
     (if k < k' then (k, v) # (k', v') # m
      else if k = k' then (k, v) # m
      else (k', v') # bt_insert k v m)"

definition bt_remove :: "'k \<Rightarrow> ('k, 'v) btree \<Rightarrow> ('k, 'v) btree" where
  "bt_remove k m = filter (\<lambda>(k', v). k' \<noteq> k) m"

definition bt_values :: "('k, 'v) btree \<Rightarrow> 'v list" where
  "bt_values m = map snd m"

text \<open>\<open>keys().next_back()\<close>\<close>

definition bt_last_key :: "('k, 'v) btree \<Rightarrow> 'k option" where
  "bt_last_key m = (if m = [] then None else Some (fst (List.last m)))"

definition bs_insert :: "'k::linorder \<Rightarrow> 'k list \<Rightarrow> 'k list" where
  "bs_insert k s = insort_insert k s"

definition bs_remove :: "'k \<Rightarrow> 'k list \<Rightarrow> 'k list" where
  "bs_remove k s = filter (\<lambda>x. x \<noteq> k) s"

definition bt_inv :: "('k::linorder, 'v) btree \<Rightarrow> bool" where
  "bt_inv m \<longleftrightarrow> sorted_wrt (<) (map fst m)"

definition bs_inv :: "'k::linorder list \<Rightarrow> bool" where
  "bs_inv s \<longleftrightarrow> sorted_wrt (<) s"

section \<open>The contract\<close>

locale ordered_map =
  fixes get :: "'k::linorder \<Rightarrow> 'm \<Rightarrow> 'v option"
    and put :: "'k \<Rightarrow> 'v \<Rightarrow> 'm \<Rightarrow> 'm"
    and del :: "'k \<Rightarrow> 'm \<Rightarrow> 'm"
    and pairs :: "'m \<Rightarrow> ('k \<times> 'v) list"
    and inv :: "'m \<Rightarrow> bool"
  assumes inv_put: "inv m \<Longrightarrow> inv (put k v m)"
    and inv_del: "inv m \<Longrightarrow> inv (del k m)"
    and get_put: "inv m \<Longrightarrow> get k' (put k v m) = (if k' = k then Some v else get k' m)"
    and get_del: "inv m \<Longrightarrow> get k' (del k m) = (if k' = k then None else get k' m)"
    and pairs_get: "inv m \<Longrightarrow> (k, v) \<in> set (pairs m) \<longleftrightarrow> get k m = Some v"
    and pairs_sorted: "inv m \<Longrightarrow> sorted_wrt (<) (map fst (pairs m))"
begin

lemma pairs_unique: "inv m \<Longrightarrow> (k, v) \<in> set (pairs m) \<Longrightarrow> (k, v') \<in> set (pairs m) \<Longrightarrow> v = v'"
  by (simp add: pairs_get)

lemma pairs_cong:
  assumes "inv m" and "inv m'" and "\<And>k. get k m = get k m'"
  shows "pairs m = pairs m'"
proof -
  have "set (pairs m) = set (pairs m')"
    using assms by (auto simp: pairs_get)
  moreover have "sorted (map fst (pairs m))" "sorted (map fst (pairs m'))"
    "distinct (map fst (pairs m))" "distinct (map fst (pairs m'))"
    using pairs_sorted [OF assms(1)] pairs_sorted [OF assms(2)]
    by (simp_all add: strict_sorted_iff)
  ultimately show ?thesis
    by (intro map_sorted_distinct_set_unique [of fst]) (auto simp: distinct_map intro!: inj_onI dest: inj_onD)
qed

lemma finite_keys: "inv m \<Longrightarrow> finite {k. get k m \<noteq> None}"
proof -
  assume "inv m"
  then have "{k. get k m \<noteq> None} \<subseteq> fst ` set (pairs m)"
    using pairs_get by force
  then show ?thesis by (rule finite_subset) simp
qed

lemma card_keys: "inv m \<Longrightarrow> card {k. get k m \<noteq> None} = length (pairs m)"
proof -
  assume i: "inv m"
  then have eq: "{k. get k m \<noteq> None} = set (map fst (pairs m))"
    using pairs_get by force
  have "distinct (map fst (pairs m))"
    using pairs_sorted [OF i] by (simp add: strict_sorted_iff)
  then show ?thesis
    unfolding eq by (simp only: distinct_card length_map)
qed

lemma get_put_same [simp]: "inv m \<Longrightarrow> get k (put k v m) = Some v"
  by (simp add: get_put)

lemma get_del_same [simp]: "inv m \<Longrightarrow> get k (del k m) = None"
  by (simp add: get_del)

end

section \<open>The sorted list meets it\<close>

lemma bt_inv_Nil [simp]: "bt_inv []"
  by (simp add: bt_inv_def)

lemma bs_inv_Nil [simp]: "bs_inv []"
  by (simp add: bs_inv_def)

lemma bt_get_Nil [simp]: "bt_get k [] = None"
  by (simp add: bt_get_def)

lemma set_bt_insert: "fst ` set (bt_insert k v m) = insert k (fst ` set m)"
  by (induction k v m rule: bt_insert.induct) auto

lemma bt_inv_insert: "bt_inv m \<Longrightarrow> bt_inv (bt_insert k v m)"
proof (induction k v m rule: bt_insert.induct)
  case (2 k v k' v' m)
  have "k' < x" if "k' < k" "x \<in> fst ` set (bt_insert k v m)" for x
    using that 2(2) by (auto simp: set_bt_insert bt_inv_def)
  then show ?case
    using 2 by (auto simp: bt_inv_def)
qed (simp add: bt_inv_def)

lemma map_of_bt_insert: "map_of (bt_insert k v m) = (map_of m)(k \<mapsto> v)"
  by (induction k v m rule: bt_insert.induct) (auto simp: fun_eq_iff)

lemma map_of_bt_remove: "map_of (bt_remove k m) = (map_of m)(k := None)"
  by (induction m) (auto simp: bt_remove_def fun_eq_iff)

interpretation bt: ordered_map bt_get bt_insert bt_remove "\<lambda>m. m" bt_inv
proof
  fix m :: "('k::linorder, 'v) btree" and k v k'
  assume m: "bt_inv m"
  show "bt_inv (bt_insert k v m)" using m by (rule bt_inv_insert)
  show "bt_inv (bt_remove k m)"
    using m by (simp add: bt_inv_def bt_remove_def sorted_wrt_map sorted_wrt_filter)
  show "bt_get k' (bt_insert k v m) = (if k' = k then Some v else bt_get k' m)"
    by (simp add: bt_get_def map_of_bt_insert)
  show "bt_get k' (bt_remove k m) = (if k' = k then None else bt_get k' m)"
    by (simp add: bt_get_def map_of_bt_remove)
  have "distinct (map fst m)" using m by (simp add: bt_inv_def strict_sorted_iff)
  then show "(k, v) \<in> set m \<longleftrightarrow> bt_get k m = Some v"
    by (simp add: bt_get_def)
  show "sorted_wrt (<) (map fst m)" using m by (simp add: bt_inv_def)
qed

lemma bt_get_insert: "bt_get k' (bt_insert k v m) = (if k' = k then Some v else bt_get k' m)"
  by (simp add: bt_get_def map_of_bt_insert)

lemma bt_get_remove: "bt_get k' (bt_remove k m) = (if k' = k then None else bt_get k' m)"
  by (simp add: bt_get_def map_of_bt_remove)

lemma bt_values_iff: "bt_inv m \<Longrightarrow> v \<in> set (bt_values m) \<longleftrightarrow> (\<exists>k. bt_get k m = Some v)"
  using bt.pairs_get [of m] by (force simp: bt_values_def)

lemma bt_last_key_ge:
  assumes "bt_inv m" and "bt_get k m = Some v"
  shows "\<exists>l. bt_last_key m = Some l \<and> k \<le> l"
proof -
  have kv: "(k, v) \<in> set m" using assms by (simp add: bt.pairs_get)
  then obtain xs x where m: "m = xs @ [x]" by (cases m rule: rev_cases) auto
  have "k \<le> fst x"
    using kv assms(1) by (auto simp: m bt_inv_def sorted_wrt_append less_imp_le)
  then show ?thesis by (simp add: m bt_last_key_def)
qed

lemma bt_last_key_member:
  assumes "bt_inv m" and "bt_last_key m = Some l"
  shows "\<exists>v. bt_get l m = Some v"
proof -
  have "List.last m \<in> set m" and l: "l = fst (List.last m)"
    using assms(2) by (simp_all add: bt_last_key_def split: if_splits)
  then have "(l, snd (List.last m)) \<in> set m"
    by (simp only: l prod.collapse)
  then show ?thesis unfolding bt.pairs_get [OF assms(1)] by (rule exI)
qed

text \<open>Changing values in place keeps the keys.\<close>

lemma bt_map_values:
  "bt_get k (map (\<lambda>(k, v). (k, f k v)) m) = map_option (f k) (bt_get k m)"
  by (induction m) (auto simp: bt_get_def)

lemma bt_inv_map_values: "bt_inv (map (\<lambda>(k, v). (k, f k v)) m) = bt_inv m"
  by (simp add: bt_inv_def comp_def case_prod_beta)

section \<open>Sorted sets\<close>

lemma bs_insert_inv: "bs_inv s \<Longrightarrow> bs_inv (bs_insert k s)"
  by (simp add: bs_inv_def bs_insert_def strict_sorted_iff sorted_insort_insert distinct_insort_insert)

lemma set_bs_insert [simp]: "set (bs_insert k s) = insert k (set s)"
  by (simp add: bs_insert_def set_insort_insert)

lemma bs_insert_nonempty [simp]: "bs_insert k s \<noteq> []"
  by (metis insert_not_empty list.set(1) set_bs_insert)

lemma bs_remove_inv: "bs_inv s \<Longrightarrow> bs_inv (bs_remove k s)"
  by (simp add: bs_inv_def bs_remove_def sorted_wrt_filter)

lemma set_bs_remove [simp]: "set (bs_remove k s) = set s - {k}"
  by (auto simp: bs_remove_def)

lemma bs_eqI: "bs_inv s \<Longrightarrow> bs_inv t \<Longrightarrow> set s = set t \<Longrightarrow> s = t"
  by (simp add: bs_inv_def strict_sorted_iff sorted_distinct_set_unique)

end
