(* ===== verification/Utf8.thy ===== *)
theory Utf8
  imports Pqfs_Prelude
begin

text \<open>
  The two operations on text that pqfs takes from the standard library: \<open>String::from_utf8\<close>,
  which accepts exactly the well-formed UTF-8 byte strings, and \<open>OsStr::to_string_lossy\<close>,
  which replaces every ill-formed sequence by U+FFFD.  A Rust \<open>str\<close> is a byte string that
  \<open>utf8_valid\<close> accepts.
\<close>

section \<open>Definitions\<close>

definition cont_byte :: "byte \<Rightarrow> bool" where
  "cont_byte b \<longleftrightarrow> 0x80 \<le> b \<and> b \<le> 0xBF"

definition byte_at :: "bytes \<Rightarrow> nat \<Rightarrow> byte" where
  "byte_at xs i = (if i < length xs then xs ! i else 0)"

definition second_of_three :: "byte \<Rightarrow> byte \<Rightarrow> bool" where
  "second_of_three b c \<longleftrightarrow>
     (b = 0xE0 \<and> 0xA0 \<le> c \<and> c \<le> 0xBF) \<or> (0xE1 \<le> b \<and> b \<le> 0xEC \<and> cont_byte c) \<or>
     (b = 0xED \<and> 0x80 \<le> c \<and> c \<le> 0x9F) \<or> (0xEE \<le> b \<and> b \<le> 0xEF \<and> cont_byte c)"

definition second_of_four :: "byte \<Rightarrow> byte \<Rightarrow> bool" where
  "second_of_four b c \<longleftrightarrow>
     (b = 0xF0 \<and> 0x90 \<le> c \<and> c \<le> 0xBF) \<or> (0xF1 \<le> b \<and> b \<le> 0xF3 \<and> cont_byte c) \<or>
     (b = 0xF4 \<and> 0x80 \<le> c \<and> c \<le> 0x8F)"

text \<open>
  The sequence at the head of \<open>b # r\<close>: its length, and whether it is a well-formed
  character; an ill-formed one extends as far as a prefix of a character was read.
\<close>

definition utf8_unit :: "byte \<Rightarrow> bytes \<Rightarrow> nat \<times> bool" where
  "utf8_unit b r =
    (if b < 0x80 then (1, True)
     else if 0xC2 \<le> b \<and> b \<le> 0xDF then
       (if cont_byte (byte_at r 0) then (2, True) else (1, False))
     else if 0xE0 \<le> b \<and> b \<le> 0xEF then
       (if \<not> second_of_three b (byte_at r 0) then (1, False)
        else if \<not> cont_byte (byte_at r 1) then (2, False) else (3, True))
     else if 0xF0 \<le> b \<and> b \<le> 0xF4 then
       (if \<not> second_of_four b (byte_at r 0) then (1, False)
        else if \<not> cont_byte (byte_at r 1) then (2, False)
        else if \<not> cont_byte (byte_at r 2) then (3, False) else (4, True))
     else (1, False))"

fun utf8_valid :: "bytes \<Rightarrow> bool" where
  "utf8_valid [] = True"
| "utf8_valid (b # r) = (snd (utf8_unit b r) \<and> utf8_valid (drop (fst (utf8_unit b r) - 1) r))"

fun to_string_lossy :: "bytes \<Rightarrow> bytes" where
  "to_string_lossy [] = []"
| "to_string_lossy (b # r) =
     (if snd (utf8_unit b r) then b # take (fst (utf8_unit b r) - 1) r else [0xEF, 0xBF, 0xBD])
     @ to_string_lossy (drop (fst (utf8_unit b r) - 1) r)"

definition from_utf8 :: "bytes \<Rightarrow> bytes option" where
  "from_utf8 xs = (if utf8_valid xs then Some xs else None)"

section \<open>Lossy conversion yields valid text and keeps valid text\<close>

lemma byte_at_Nil [simp]: "byte_at [] i = 0"
  by (simp add: byte_at_def)

lemma byte_at_Cons [simp]:
  "byte_at (x # xs) 0 = x" "byte_at (x # xs) (Suc i) = byte_at xs i"
  "byte_at (x # xs) 1 = byte_at xs 0" "byte_at (x # xs) 2 = byte_at xs 1"
  by (simp_all add: byte_at_def)

lemma not_trailing_zero [simp]:
  "\<not> cont_byte 0" "\<not> second_of_three b 0" "\<not> second_of_four b 0"
  by (simp_all add: cont_byte_def second_of_three_def second_of_four_def)

lemma utf8_unit_pos: "1 \<le> fst (utf8_unit b r)"
  by (simp add: utf8_unit_def)

text \<open>A well-formed character is recognised from its own bytes alone.\<close>

lemma byte_at_nonzero: "byte_at r i \<noteq> 0 \<Longrightarrow> i < length r"
  by (auto simp: byte_at_def split: if_splits)

lemma byte_at_take: "i < k \<Longrightarrow> k \<le> length r \<Longrightarrow> byte_at (take k r @ ys) i = byte_at r i"
  by (simp add: byte_at_def nth_append)

lemma trailing_in_range:
  "cont_byte (byte_at r i) \<Longrightarrow> i < length r"
  "second_of_three b (byte_at r i) \<Longrightarrow> i < length r"
  "second_of_four b (byte_at r i) \<Longrightarrow> i < length r"
  by (rule byte_at_nonzero, metis not_trailing_zero)+

lemma utf8_unit_local:
  assumes "utf8_unit b r = (n, True)"
  shows "n - 1 \<le> length r" and "utf8_unit b (take (n - 1) r @ ys) = (n, True)"
proof -
  show len: "n - 1 \<le> length r"
    using assms trailing_in_range(1) [of r]
    by (auto simp: utf8_unit_def Suc_le_eq numeral_eq_Suc split: if_splits)
  have "byte_at (take (n - 1) r @ ys) i = byte_at r i" if "i < n - 1" for i
    using that len by (rule byte_at_take)
  then show "utf8_unit b (take (n - 1) r @ ys) = (n, True)"
    using assms by (auto simp: utf8_unit_def split: if_splits)
qed

lemma utf8_valid_unit_append:
  assumes "utf8_unit b r = (n, True)"
  shows "utf8_valid ((b # take (n - 1) r) @ ys) = utf8_valid ys"
  using utf8_unit_local [OF assms] by simp

lemma utf8_valid_replacement [simp]: "utf8_valid (0xEF # 0xBF # 0xBD # ys) = utf8_valid ys"
  by (simp add: utf8_unit_def second_of_three_def cont_byte_def)

lemma utf8_valid_lossy: "utf8_valid (to_string_lossy xs)"
proof (induction xs rule: to_string_lossy.induct)
  case (2 b r)
  then show ?case
    using utf8_valid_unit_append [of b r]
    by (cases "utf8_unit b r") (auto simp del: utf8_valid.simps(2))
qed simp

lemma to_string_lossy_valid: "utf8_valid xs \<Longrightarrow> to_string_lossy xs = xs"
  by (induction xs rule: to_string_lossy.induct) auto

lemma from_utf8_lossy [simp]: "from_utf8 (to_string_lossy xs) = Some (to_string_lossy xs)"
  by (simp add: from_utf8_def utf8_valid_lossy)

end
