(* ===== verification/Header.thy ===== *)
theory Header
  imports World Utf8
begin

text \<open>
  The volume header (\<open>src/crypto/header.rs\<close>) and the sizes of \<open>src/crypto/mod.rs\<close>.
  Serialisation is the work of the \<open>bincode\<close> crate: a \<open>codec\<close> is a parameter of every
  definition that serialises, and \<open>codec_laws\<close> states what pqfs relies on.
\<close>

section \<open>Sizes\<close>

definition KEY_LEN :: nat where "KEY_LEN = 32"
definition SALT_LEN :: nat where "SALT_LEN = 16"
definition NONCE_LEN :: nat where "NONCE_LEN = 24"
definition SEED_LEN :: nat where "SEED_LEN = 64"
definition MAC_LEN :: nat where "MAC_LEN = 32"
definition VOLUME_ID_LEN :: nat where "VOLUME_ID_LEN = 16"
definition MAX_HEADER_BYTES :: nat where "MAX_HEADER_BYTES = 256 * 1024"
definition HEADER_VERSION :: u32 where "HEADER_VERSION = 3"

lemmas sizes [simp] = KEY_LEN_def SALT_LEN_def NONCE_LEN_def SEED_LEN_def MAC_LEN_def
  VOLUME_ID_LEN_def

section \<open>Serialisation\<close>

record 'a codec =
  ser :: "'a \<Rightarrow> bytes option"
  de :: "bytes \<Rightarrow> 'a option"

definition codec_laws :: "('a \<Rightarrow> bool) \<Rightarrow> 'a codec \<Rightarrow> bool" where
  "codec_laws ok C \<longleftrightarrow> (\<forall>x. ok x \<longrightarrow> (\<exists>b. ser C x = Some b \<and> de C b = Some x))"

lemma codec_lawsE:
  assumes "codec_laws ok C" and "ok x"
  obtains b where "ser C x = Some b" and "de C b = Some x"
  using assms by (auto simp: codec_laws_def)

definition bincode_serialize :: "'a codec \<Rightarrow> 'a \<Rightarrow> bytes result" where
  "bincode_serialize C x = of_option SerializeFailed (ser C x)"

definition bincode_deserialize :: "'a codec \<Rightarrow> bytes \<Rightarrow> 'a result" where
  "bincode_deserialize C b = of_option DeserializeFailed (de C b)"

section \<open>The header\<close>

record kdf_params =
  m_cost :: u32
  t_cost :: u32
  p_cost :: u32

definition kdf_default :: kdf_params where
  "kdf_default = \<lparr>m_cost = 131072, t_cost = 3, p_cost = 1\<rparr>"

datatype key_slot =
    PasswordSlot (slot_salt: bytes) (slot_kdf: kdf_params) (wrapped_master_key: bytes)
  | RecipientSlot (slot_label: bytes) (slot_kem_param: u16) (slot_kem_public_key: bytes)
      (slot_kem_ciphertext: bytes) (wrapped_master_key: bytes)

definition slot_kind :: "key_slot \<Rightarrow> string" where
  "slot_kind s = (case s of PasswordSlot _ _ _ \<Rightarrow> ''password'' | RecipientSlot _ _ _ _ _ \<Rightarrow> ''recipient'')"

definition label :: "key_slot \<Rightarrow> bytes" where
  "label s = (case s of PasswordSlot _ _ _ \<Rightarrow> [] | RecipientSlot l _ _ _ _ \<Rightarrow> l)"

record volume_header =
  version :: u32
  volume_id :: bytes
  slots :: "key_slot list"
  mac :: bytes

definition authenticated_bytes :: "volume_header codec \<Rightarrow> volume_header \<Rightarrow> bytes result" where
  "authenticated_bytes C h = bincode_serialize C (h\<lparr>mac := replicate MAC_LEN 0\<rparr>)"

text \<open>
  The fixed-size arrays of the Rust types are byte strings here; \<open>header_wf\<close> says that
  they have the length of their type, that the length of a vector is a 64-bit number
  (\<open>vec_ok\<close>) and that a label is a string.
\<close>

definition slot_wf :: "key_slot \<Rightarrow> bool" where
  "slot_wf s = (case s of
      PasswordSlot salt _ wrapped \<Rightarrow> length salt = SALT_LEN \<and> vec_ok wrapped
    | RecipientSlot l _ pk ct wrapped \<Rightarrow> utf8_valid l \<and> vec_ok l \<and> vec_ok pk \<and> vec_ok ct \<and> vec_ok wrapped)"

definition header_wf :: "volume_header \<Rightarrow> bool" where
  "header_wf h \<longleftrightarrow> length (volume_id h) = VOLUME_ID_LEN \<and> length (mac h) = MAC_LEN \<and>
     vec_ok (slots h) \<and> list_all slot_wf (slots h)"

text \<open>The authenticated bytes do not depend on the stored tag and determine all the rest.\<close>

lemma authenticated_bytes_mac [simp]: "authenticated_bytes C (h\<lparr>mac := m\<rparr>) = authenticated_bytes C h"
  by (simp add: authenticated_bytes_def)

lemma authenticated_bytes_inj:
  assumes "codec_laws header_wf C" and "header_wf h" and "header_wf h'"
    and "authenticated_bytes C h = authenticated_bytes C h'"
  shows "version h = version h' \<and> volume_id h = volume_id h' \<and> slots h = slots h'"
proof -
  let ?z = "\<lambda>g. g\<lparr>mac := replicate MAC_LEN 0\<rparr>"
  have "header_wf (?z h)" and "header_wf (?z h')"
    using assms(2,3) by (simp_all add: header_wf_def)
  then obtain b b' where "ser C (?z h) = Some b" "de C b = Some (?z h)"
    and "ser C (?z h') = Some b'" "de C b' = Some (?z h')"
    using assms(1) by (metis codec_lawsE)
  with assms(4) have "?z h = ?z h'"
    by (simp add: authenticated_bytes_def bincode_serialize_def)
  then show ?thesis
    by (metis volume_header.ext_inject volume_header.surjective volume_header.update_convs(4))
qed

end
