(* ===== verification/Crypto.thy ===== *)
theory Crypto
  imports Header
begin

text \<open>
  The cryptographic layer: key derivation and key wrapping (\<open>src/crypto/keys.rs\<close>), bulk
  encryption (\<open>src/crypto/aead.rs\<close>) and file names (\<open>src/crypto/filename.rs\<close>).
  The primitives themselves come from other crates; they are the record \<open>prims\<close>, an
  argument of every definition, and \<open>aead_laws\<close> states the documented behaviour of
  XChaCha20-Poly1305 that pqfs relies on.  The four nonce-prefixed formats of the code
  satisfy one contract, the locale \<open>sealed_box\<close>.
\<close>

section \<open>Primitives\<close>

text \<open>
  \<open>aead_seal key nonce aad msg\<close> and \<open>aead_open key nonce aad ct\<close> are XChaCha20-Poly1305;
  \<open>hkdf_sha256 ikm info n\<close> is \<open>Hkdf::new(None, ikm).expand(info, n bytes)\<close>;
  \<open>argon2_params_ok\<close> is \<open>Params::new\<close> and \<open>argon2id\<close> is \<open>hash_password_into\<close>;
  the \<open>kem\<close> fields are the ML-KEM parameter set the build selects (\<open>src/crypto/kem.rs\<close>), with
  the randomness of key generation and encapsulation as an argument.
\<close>

record prims =
  selected_kem_param :: u16
  aead_seal :: "bytes \<Rightarrow> bytes \<Rightarrow> bytes \<Rightarrow> bytes \<Rightarrow> bytes option"
  aead_open :: "bytes \<Rightarrow> bytes \<Rightarrow> bytes \<Rightarrow> bytes \<Rightarrow> bytes option"
  hmac_sha256 :: "bytes \<Rightarrow> bytes \<Rightarrow> bytes"
  hkdf_sha256 :: "bytes \<Rightarrow> bytes \<Rightarrow> nat \<Rightarrow> bytes option"
  argon2_params_ok :: "u32 \<Rightarrow> u32 \<Rightarrow> u32 \<Rightarrow> nat \<Rightarrow> bool"
  argon2id :: "u32 \<Rightarrow> u32 \<Rightarrow> u32 \<Rightarrow> bytes \<Rightarrow> bytes \<Rightarrow> nat \<Rightarrow> bytes option"
  kem_keygen :: "bytes \<Rightarrow> bytes option"
  kem_public :: "bytes \<Rightarrow> bytes"
  kem_public_len :: nat
  kem_public_ok :: "bytes \<Rightarrow> bool"
  kem_ciphertext_len :: nat
  kem_encapsulate :: "bytes \<Rightarrow> bytes \<Rightarrow> bytes \<times> bytes"
  kem_decapsulate :: "bytes \<Rightarrow> bytes \<Rightarrow> bytes"

definition TAG_LEN :: nat where "TAG_LEN = 16"

lemma TAG_LEN [simp]: "TAG_LEN = 16"
  by (simp add: TAG_LEN_def)

text \<open>The longest message XChaCha20-Poly1305 encrypts, in bytes.\<close>

definition aead_max :: nat where "aead_max = 2 ^ 38 - 64"

text \<open>
  Opening inverts sealing, sealing adds a 16-byte tag, opening accepts nothing but what
  sealing produces, and sealing fails only on an over-long message.
\<close>

definition aead_laws :: "prims \<Rightarrow> bool" where
  "aead_laws P \<longleftrightarrow>
     (\<forall>k n a m c. aead_seal P k n a m = Some c \<longrightarrow>
        aead_open P k n a c = Some m \<and> length c = length m + TAG_LEN) \<and>
     (\<forall>k n a m c. aead_open P k n a c = Some m \<longrightarrow> aead_seal P k n a m = Some c) \<and>
     (\<forall>k n a m. length m \<le> aead_max \<longrightarrow> aead_seal P k n a m \<noteq> None)"

section \<open>Keys\<close>

definition ascii :: "string \<Rightarrow> bytes" where
  "ascii s = map of_char s"

definition random_nonce :: "bytes io" where
  "random_nonce = fill_bytes NONCE_LEN"

definition build_cipher :: "bytes \<Rightarrow> bytes result" where
  "build_cipher key = (if length key = KEY_LEN then Inr key else Inl InvalidKeyLength)"

definition derive_password_key :: "prims \<Rightarrow> bytes \<Rightarrow> bytes \<Rightarrow> kdf_params \<Rightarrow> bytes result" where
  "derive_password_key P password salt kdf =
     (if length salt \<noteq> SALT_LEN then Inl InvalidSaltLength
      else if \<not> argon2_params_ok P (m_cost kdf) (t_cost kdf) (p_cost kdf) KEY_LEN
      then Inl InvalidArgon2Params
      else of_option Argon2Failed
        (argon2id P (m_cost kdf) (t_cost kdf) (p_cost kdf) password salt KEY_LEN))"

definition derive_header_mac_key :: "prims \<Rightarrow> bytes \<Rightarrow> bytes result" where
  "derive_header_mac_key P master_key =
     of_option HkdfFailed (hkdf_sha256 P master_key (ascii ''pqfs-header-mac-key'') KEY_LEN)"

definition derive_recipient_kek :: "prims \<Rightarrow> bytes \<Rightarrow> bytes result" where
  "derive_recipient_kek P shared_secret =
     of_option HkdfFailed (hkdf_sha256 P shared_secret (ascii ''pqfs-recipient-kek'') KEY_LEN)"

definition wrap_master_key :: "prims \<Rightarrow> bytes \<Rightarrow> bytes \<Rightarrow> bytes \<Rightarrow> bytes io" where
  "wrap_master_key P kek vid master_key =
     bindE (lift (build_cipher kek)) (\<lambda>cipher.
     bindE random_nonce (\<lambda>nonce.
     bindE (lift (of_option EncryptFailed (aead_seal P cipher nonce vid master_key))) (\<lambda>ct.
     ret (nonce @ ct))))"

definition unwrap_master_key :: "prims \<Rightarrow> bytes \<Rightarrow> bytes \<Rightarrow> bytes \<Rightarrow> bytes result" where
  "unwrap_master_key P kek vid blob =
     (if length blob < NONCE_LEN + 16 then Inl TooShort
      else
        rbind (build_cipher kek) (\<lambda>cipher.
        rbind (of_option DecryptFailed
          (aead_open P cipher (take NONCE_LEN blob) vid (drop NONCE_LEN blob))) (\<lambda>plaintext.
        if length plaintext \<noteq> KEY_LEN then Inl WrongKeyLength else Inr plaintext)))"

definition header_mac :: "prims \<Rightarrow> volume_header codec \<Rightarrow> bytes \<Rightarrow> volume_header \<Rightarrow> bytes result" where
  "header_mac P C mac_key h =
     rbind (authenticated_bytes C h) (\<lambda>b. Inr (hmac_sha256 P mac_key b))"

definition verify_header_mac :: "prims \<Rightarrow> volume_header codec \<Rightarrow> bytes \<Rightarrow> volume_header \<Rightarrow> unit result" where
  "verify_header_mac P C mac_key h =
     rbind (authenticated_bytes C h) (\<lambda>b.
     if hmac_sha256 P mac_key b = mac h then Inr () else Inl BadHeaderMac)"

definition derive_filename_keys :: "prims \<Rightarrow> bytes \<Rightarrow> (bytes \<times> bytes) result" where
  "derive_filename_keys P master_key =
     rbind (of_option HkdfFailed (hkdf_sha256 P master_key (ascii ''pqfs-filename-key'') KEY_LEN)) (\<lambda>k.
     rbind (of_option HkdfFailed (hkdf_sha256 P master_key (ascii ''pqfs-filename-hash-key'') KEY_LEN)) (\<lambda>h.
     Inr (k, h)))"

text \<open>A cipher object is the key it was built from.\<close>

record crypto =
  cipher :: bytes
  header :: volume_header
  filename_cipher :: bytes
  filename_hash_key :: bytes

definition from_master_key :: "prims \<Rightarrow> bytes \<Rightarrow> volume_header \<Rightarrow> crypto result" where
  "from_master_key P master_key h =
     rbind (derive_filename_keys P master_key) (\<lambda>(filename_key, hash_key).
     rbind (build_cipher master_key) (\<lambda>c.
     rbind (build_cipher filename_key) (\<lambda>fc.
     Inr \<lparr>cipher = c, header = h, filename_cipher = fc, filename_hash_key = hash_key\<rparr>)))"

definition random_key :: "bytes io" where
  "random_key = fill_bytes KEY_LEN"

section \<open>Bulk encryption\<close>

definition encrypt :: "prims \<Rightarrow> crypto \<Rightarrow> bytes \<Rightarrow> bytes io" where
  "encrypt P cr plaintext =
     bindE random_nonce (\<lambda>nonce.
     bindE (lift (of_option EncryptFailed (aead_seal P (cipher cr) nonce [] plaintext))) (\<lambda>ct.
     ret (nonce @ ct)))"

definition decrypt :: "prims \<Rightarrow> crypto \<Rightarrow> bytes \<Rightarrow> bytes result" where
  "decrypt P cr blob =
     (if length blob < NONCE_LEN + 16 then Inl TooShort
      else of_option DecryptFailed
        (aead_open P (cipher cr) (take NONCE_LEN blob) [] (drop NONCE_LEN blob)))"

definition to_le_bytes :: "u64 \<Rightarrow> bytes" where
  "to_le_bytes i = map (\<lambda>k. ucast (drop_bit (8 * k) i)) [0..<8]"

definition encrypt_block :: "prims \<Rightarrow> bytes \<Rightarrow> u64 \<Rightarrow> bytes \<Rightarrow> bytes io" where
  "encrypt_block P key index plaintext =
     bindE (lift (build_cipher key)) (\<lambda>cipher.
     bindE random_nonce (\<lambda>nonce.
     bindE (lift (of_option EncryptFailed
       (aead_seal P cipher nonce (to_le_bytes index) plaintext))) (\<lambda>ct.
     ret (nonce @ ct))))"

definition decrypt_block :: "prims \<Rightarrow> bytes \<Rightarrow> u64 \<Rightarrow> bytes \<Rightarrow> bytes result" where
  "decrypt_block P key index blob =
     (if length blob < NONCE_LEN + 16 then Inl TooShort
      else
        rbind (build_cipher key) (\<lambda>cipher.
        of_option DecryptFailed
          (aead_open P cipher (take NONCE_LEN blob) (to_le_bytes index) (drop NONCE_LEN blob))))"

section \<open>File names\<close>

definition hash_filename :: "prims \<Rightarrow> crypto \<Rightarrow> bytes \<Rightarrow> bytes" where
  "hash_filename P cr name = hmac_sha256 P (filename_hash_key cr) name"

definition encrypt_filename :: "prims \<Rightarrow> crypto \<Rightarrow> bytes \<Rightarrow> bytes io" where
  "encrypt_filename P cr name =
     bindE random_nonce (\<lambda>nonce.
     bindE (lift (of_option EncryptFailed (aead_seal P (filename_cipher cr) nonce [] name))) (\<lambda>ct.
     ret (nonce @ ct)))"

definition decrypt_filename :: "prims \<Rightarrow> crypto \<Rightarrow> bytes \<Rightarrow> bytes result" where
  "decrypt_filename P cr blob =
     (if length blob < NONCE_LEN + 16 then Inl TooShort
      else
        rbind (of_option DecryptFailed
          (aead_open P (filename_cipher cr) (take NONCE_LEN blob) [] (drop NONCE_LEN blob))) (\<lambda>plaintext.
        of_option InvalidUtf8 (from_utf8 plaintext)))"

section \<open>The contract of the nonce-prefixed formats\<close>

text \<open>
  \<open>seal\<close> draws a nonce and returns the nonce followed by the ciphertext; \<open>unseal\<close> takes
  such a blob apart.  \<open>ok\<close> names the messages the contract covers.  Sealing a covered
  message succeeds, uses exactly one nonce of randomness and touches nothing else; the
  blob is 40 bytes longer than the message and opens to it; anything shorter is refused.
\<close>

definition draw_nonce :: "world \<Rightarrow> world" where
  "draw_nonce w = w\<lparr>tape := drop NONCE_LEN (tape w)\<rparr>"

lemma draw_nonce_sel [simp]:
  "disk (draw_nonce w) = disk w" "faults (draw_nonce w) = faults w" "clock (draw_nonce w) = clock w"
  "fault_free (draw_nonce w) = fault_free w"
  by (simp_all add: draw_nonce_def)

locale sealed_box =
  fixes seal :: "bytes \<Rightarrow> bytes io"
    and unseal :: "bytes \<Rightarrow> bytes result"
    and ok :: "bytes \<Rightarrow> bool"
  assumes seal_total: "ok m \<Longrightarrow> \<exists>c. seal m w = (Inr c, draw_nonce w)"
    and unseal_seal: "ok m \<Longrightarrow> seal m w = (Inr c, w') \<Longrightarrow> unseal c = Inr m"
    and seal_length: "ok m \<Longrightarrow> seal m w = (Inr c, w') \<Longrightarrow> length c = length m + 40"
    and unseal_short: "length c < 40 \<Longrightarrow> \<exists>e. unseal c = Inl e"
begin

lemma sealE:
  assumes "ok m"
  obtains c where "seal m w = (Inr c, draw_nonce w)" and "unseal c = Inr m"
    and "length c = length m + 40"
  using seal_total [OF assms] unseal_seal [OF assms] seal_length [OF assms] by blast

lemma seal_nonempty: "ok m \<Longrightarrow> seal m w = (Inr c, w') \<Longrightarrow> c \<noteq> []"
  using seal_length [of m w c w'] by auto

lemma seal_inj:
  "ok m \<Longrightarrow> ok m' \<Longrightarrow> seal m w = (Inr c, v) \<Longrightarrow> seal m' w' = (Inr c, v') \<Longrightarrow> m = m'"
  by (metis unseal_seal Inr_inject)

lemma unseal_Inr_length: "unseal c = Inr m \<Longrightarrow> 40 \<le> length c"
  using unseal_short [of c] by (metis Inl_Inr_False not_le)

lemma reseal:
  assumes "unseal c = Inr m" and "ok m"
  shows "\<exists>c'. seal m w = (Inr c', draw_nonce w) \<and> unseal c' = unseal c"
  using sealE [OF assms(2)] assms(1) by metis

end

section \<open>The formats meet the contract\<close>

lemma aead_open_seal: "aead_laws P \<Longrightarrow> aead_seal P k n a m = Some c \<Longrightarrow> aead_open P k n a c = Some m"
  unfolding aead_laws_def by blast

lemma aead_seal_length: "aead_laws P \<Longrightarrow> aead_seal P k n a m = Some c \<Longrightarrow> length c = length m + 16"
  unfolding aead_laws_def TAG_LEN by blast

lemma aead_seal_open: "aead_laws P \<Longrightarrow> aead_open P k n a c = Some m \<Longrightarrow> aead_seal P k n a m = Some c"
  unfolding aead_laws_def by blast

lemma aead_sealE:
  assumes "aead_laws P" and "length m \<le> aead_max"
  obtains c where "aead_seal P k n a m = Some c" and "aead_open P k n a c = Some m"
    and "length c = length m + 16"
proof -
  obtain c where "aead_seal P k n a m = Some c"
    using assms unfolding aead_laws_def by blast
  then show ?thesis
    using that aead_open_seal aead_seal_length assms(1) by blast
qed

lemma random_nonce_run:
  "\<exists>n. random_nonce w = (Inr n, draw_nonce w) \<and> length n = 24"
  by (simp add: random_nonce_def fill_bytes_def draw_nonce_def)

lemma sealed_boxI:
  assumes shape: "\<And>m w n. ok m \<Longrightarrow> random_nonce w = (Inr n, draw_nonce w) \<Longrightarrow>
      seal m w = (case aead_seal P k n a m of None \<Rightarrow> (Inl EncryptFailed, draw_nonce w)
        | Some c \<Rightarrow> (Inr (n @ c), draw_nonce w))"
    and ok: "\<And>m. ok m \<Longrightarrow> aead_laws P \<and> length m \<le> aead_max"
    and un: "\<And>m n c. ok m \<Longrightarrow> length n = 24 \<Longrightarrow> 16 \<le> length c \<Longrightarrow> aead_open P k n a c = Some m \<Longrightarrow>
      unseal (n @ c) = Inr m"
    and short: "\<And>c. length c < 40 \<Longrightarrow> \<exists>e. unseal c = Inl e"
  shows "sealed_box seal unseal ok"
proof -
  have run: "\<exists>n c. seal m w = (Inr (n @ c), draw_nonce w) \<and> length n = 24 \<and>
      aead_open P k n a c = Some m \<and> length c = length m + 16" if "ok m" for m w
  proof -
    obtain n where n: "random_nonce w = (Inr n, draw_nonce w)" "length n = 24"
      using random_nonce_run by blast
    from ok [OF that] obtain c where "aead_seal P k n a m = Some c" "aead_open P k n a c = Some m"
      "length c = length m + 16" by (meson aead_sealE)
    with shape [OF that n(1)] n(2) show ?thesis by auto
  qed
  show ?thesis
  proof
    show "ok m \<Longrightarrow> \<exists>c. seal m w = (Inr c, draw_nonce w)" for m w
      using run by blast
    show "ok m \<Longrightarrow> seal m w = (Inr c, w') \<Longrightarrow> unseal c = Inr m" for m w c w'
      using run [of m w] un by fastforce
    show "ok m \<Longrightarrow> seal m w = (Inr c, w') \<Longrightarrow> length c = length m + 40" for m w c w'
      using run [of m w] by auto
  qed (rule short)
qed

interpretation bulk: sealed_box "encrypt P cr" "decrypt P cr"
  "\<lambda>m. aead_laws P \<and> length m \<le> aead_max" for P cr
  by (rule sealed_boxI [where P = P and k = "cipher cr" and a = "[]"])
    (auto simp: encrypt_def decrypt_def bindE_def lift_def ret_def of_option_def split: option.splits)

interpretation block: sealed_box "encrypt_block P key index" "decrypt_block P key index"
  "\<lambda>m. aead_laws P \<and> length m \<le> aead_max \<and> length key = 32" for P key index
  by (rule sealed_boxI [where P = P and k = key and a = "to_le_bytes index"])
    (auto simp: encrypt_block_def decrypt_block_def build_cipher_def bindE_def lift_def ret_def
      of_option_def split: option.splits)

interpretation filename: sealed_box "encrypt_filename P cr" "decrypt_filename P cr"
  "\<lambda>m. aead_laws P \<and> length m \<le> aead_max \<and> utf8_valid m" for P cr
  by (rule sealed_boxI [where P = P and k = "filename_cipher cr" and a = "[]"])
    (auto simp: encrypt_filename_def decrypt_filename_def from_utf8_def bindE_def lift_def ret_def
      of_option_def split: option.splits)

interpretation wrapped: sealed_box "wrap_master_key P kek vid" "unwrap_master_key P kek vid"
  "\<lambda>m. aead_laws P \<and> length kek = 32 \<and> length m = 32" for P kek vid
  by (rule sealed_boxI [where P = P and k = kek and a = vid])
    (auto simp: wrap_master_key_def unwrap_master_key_def build_cipher_def bindE_def lift_def ret_def
      of_option_def aead_max_def split: option.splits)

section \<open>Block indices as associated data\<close>

lemma length_to_le_bytes [simp]: "length (to_le_bytes i) = 8"
  by (simp add: to_le_bytes_def)

lemma to_le_bytes_inj: "to_le_bytes i = to_le_bytes j \<longleftrightarrow> i = j"
proof
  assume eq: "to_le_bytes i = to_le_bytes j"
  show "i = j"
  proof (rule bit_word_eqI)
    fix n assume "n < LENGTH(64)"
    then have k: "n div 8 < 8" by simp
    then have "to_le_bytes i ! (n div 8) = to_le_bytes j ! (n div 8)"
      using eq by simp
    then have "bit (ucast (drop_bit (8 * (n div 8)) i) :: byte) (n mod 8) =
        bit (ucast (drop_bit (8 * (n div 8)) j) :: byte) (n mod 8)"
      using k by (simp add: to_le_bytes_def)
    then show "bit i n = bit j n"
      by (simp add: bit_simps)
  qed
qed simp

end
