(* ===== verification/Sample.thy ===== *)
theory Sample
  imports Crypto
begin

text \<open>
  A concrete instance of the cryptographic primitives, simple enough to compute with, that
  satisfies the laws the development assumes of the real ones.  It has no security; it
  shows that the hypotheses can be met together, and the witnesses of the properties
  evaluate the model on it.
\<close>

section \<open>Definitions\<close>

definition sample_tag :: "bytes \<Rightarrow> bytes \<Rightarrow> bytes" where
  "sample_tag k a = map (\<lambda>i. byte_at k i + byte_at a i) [0..<16]"

definition sample_seal :: "bytes \<Rightarrow> bytes \<Rightarrow> bytes \<Rightarrow> bytes \<Rightarrow> bytes option" where
  "sample_seal k n a m = (if length m \<le> aead_max then Some (m @ sample_tag k a) else None)"

definition sample_open :: "bytes \<Rightarrow> bytes \<Rightarrow> bytes \<Rightarrow> bytes \<Rightarrow> bytes option" where
  "sample_open k n a c =
     (let m = take (length c - 16) c in if sample_seal k n a m = Some c then Some m else None)"

definition sample_hmac :: "bytes \<Rightarrow> bytes \<Rightarrow> bytes" where
  "sample_hmac k m =
     [sum_list k + sum_list m, of_nat (length m)] @ take 30 (m @ replicate 30 0)"

definition sample_hkdf :: "bytes \<Rightarrow> bytes \<Rightarrow> nat \<Rightarrow> bytes option" where
  "sample_hkdf ikm info n =
     Some (take n (map (\<lambda>b. b + of_nat (length info)) ikm @ replicate n (of_nat (length info))))"

definition sample_argon2id :: "u32 \<Rightarrow> u32 \<Rightarrow> u32 \<Rightarrow> bytes \<Rightarrow> bytes \<Rightarrow> nat \<Rightarrow> bytes option" where
  "sample_argon2id m t p pw salt n = Some (take n (pw @ salt @ replicate n 0))"

definition sample_prims :: prims where
  "sample_prims = \<lparr>
     selected_kem_param = 768,
     aead_seal = sample_seal,
     aead_open = sample_open,
     hmac_sha256 = sample_hmac,
     hkdf_sha256 = sample_hkdf,
     argon2_params_ok = (\<lambda>m t p n. 0 < t),
     argon2id = sample_argon2id,
     kem_keygen = (\<lambda>r. Some r),
     kem_public = (\<lambda>seed. take 32 seed),
     kem_public_len = 32,
     kem_public_ok = (\<lambda>pk. True),
     kem_ciphertext_len = 32,
     kem_encapsulate = (\<lambda>pk r. (take 32 (r @ replicate 32 0), map2 (+) pk (take 32 (r @ replicate 32 0)))),
     kem_decapsulate = (\<lambda>seed ct. map2 (+) (take 32 seed) ct)\<rparr>"

section \<open>The laws\<close>

lemma length_sample_tag [simp]: "length (sample_tag k a) = 16"
  by (simp add: sample_tag_def)

lemma sample_prims_simps [simp]:
  "aead_seal sample_prims = sample_seal" "aead_open sample_prims = sample_open"
  "hmac_sha256 sample_prims = sample_hmac" "hkdf_sha256 sample_prims = sample_hkdf"
  "argon2id sample_prims = sample_argon2id" "argon2_params_ok sample_prims = (\<lambda>m t p n. 0 < t)"
  by (simp_all add: sample_prims_def)

lemma aead_laws_sample [simp]: "aead_laws sample_prims"
  by (auto simp: aead_laws_def sample_seal_def sample_open_def Let_def split: if_splits)

lemma length_sample_hmac [simp]: "length (sample_hmac k m) = 32"
  by (simp add: sample_hmac_def)

lemma length_sample_hkdf: "sample_hkdf k i n = Some x \<Longrightarrow> length x = n"
  by (auto simp: sample_hkdf_def)

text \<open>Under one key, tags of different 8-byte associated data differ.\<close>

lemma sample_tag_inj:
  assumes "sample_tag k a = sample_tag k b" and "length a = 8" and "length b = 8"
  shows "a = b"
proof (rule nth_equalityI)
  fix i assume "i < length a"
  then have i: "i < 8" using assms by simp
  then have "sample_tag k a ! i = sample_tag k b ! i" using assms(1) by simp
  then show "a ! i = b ! i"
    using i assms(2,3) by (simp add: sample_tag_def byte_at_def)
qed (use assms in simp)

section \<open>A world to run in\<close>

definition sample_world :: "(path \<rightharpoonup> bytes) \<Rightarrow> world" where
  "sample_world d = \<lparr>disk = d, tape = [], clock = [], faults = [], typed = [], terminal = False, stdout = [], ids = (0, 0)\<rparr>"

lemma sample_world_sel [simp]:
  "disk (sample_world d) = d" "tape (sample_world d) = []" "clock (sample_world d) = []"
  "faults (sample_world d) = []" "fault_free (sample_world d)"
  by (simp_all add: sample_world_def fault_free_def)

end
