(* ===== verification/Blocks.thy ===== *)
theory Blocks
  imports Sample
begin

text \<open>
  Block-based file contents (\<open>src/fs/blocks.rs\<close>).  A data file is a sequence of records,
  one per 65536-byte block of plaintext: a nonce, the ciphertext of the block and a tag,
  bound to the block's index.  The definitions keep the 64-bit arithmetic of the code; the
  lemmas in \<open>u64_nat\<close> read it as arithmetic on naturals for sizes below \<open>max_size\<close>.
  \<open>represents\<close> relates a data file to the plaintext it holds, and the locale
  \<open>byte_store\<close> states what reading, writing and truncating promise about it.
\<close>

section \<open>Layout\<close>

definition BLOCK_PLAINTEXT :: u64 where "BLOCK_PLAINTEXT = 65536"
definition FULL_RECORD :: u64 where "FULL_RECORD = of_nat NONCE_LEN + BLOCK_PLAINTEXT + of_nat TAG_LEN"

definition div_ceil :: "u64 \<Rightarrow> u64 \<Rightarrow> u64" where
  "div_ceil a b = (if a mod b > 0 then a div b + 1 else a div b)"

definition saturating_sub :: "u64 \<Rightarrow> u64 \<Rightarrow> u64" where
  "saturating_sub a b = (if b \<le> a then a - b else 0)"

definition u64_range :: "u64 \<Rightarrow> u64 \<Rightarrow> u64 list" where
  "u64_range a b = map of_nat [unat a..<unat b]"

definition u64_range_incl :: "u64 \<Rightarrow> u64 \<Rightarrow> u64 list" where
  "u64_range_incl a b = map of_nat [unat a..<Suc (unat b)]"

definition block_count :: "u64 \<Rightarrow> u64" where
  "block_count sz = div_ceil sz BLOCK_PLAINTEXT"

definition plaintext_len :: "u64 \<Rightarrow> u64 \<Rightarrow> u64" where
  "plaintext_len sz index =
     (let start = index * BLOCK_PLAINTEXT in
      if start \<ge> sz then 0 else min (sz - start) BLOCK_PLAINTEXT)"

definition record_len :: "u64 \<Rightarrow> u64 \<Rightarrow> u64" where
  "record_len sz index = of_nat NONCE_LEN + plaintext_len sz index + of_nat TAG_LEN"

definition record_offset :: "u64 \<Rightarrow> u64" where
  "record_offset index = index * FULL_RECORD"

section \<open>Operations\<close>

definition read_block :: "prims \<Rightarrow> bytes \<Rightarrow> path \<Rightarrow> u64 \<Rightarrow> u64 \<Rightarrow> bytes io" where
  "read_block P key file sz index =
     bindE (fs_read_exact_at file (record_offset index) (unat (record_len sz index))) (\<lambda>buf.
     lift (decrypt_block P key index buf))"

definition write_block :: "prims \<Rightarrow> bytes \<Rightarrow> path \<Rightarrow> u64 \<Rightarrow> bytes \<Rightarrow> unit io" where
  "write_block P key file index plaintext =
     bindE (encrypt_block P key index plaintext) (\<lambda>rec.
     fs_write_all_at file (record_offset index) rec)"

fun read_blocks :: "prims \<Rightarrow> bytes \<Rightarrow> path \<Rightarrow> u64 \<Rightarrow> u64 \<Rightarrow> u64 \<Rightarrow> u64 list \<Rightarrow> bytes \<Rightarrow> bytes io" where
  "read_blocks P key file sz offset end' [] out = ret out"
| "read_blocks P key file sz offset end' (index # rest) out =
     bindE (read_block P key file sz index) (\<lambda>block.
     let block_start = index * BLOCK_PLAINTEXT;
         from = unat (saturating_sub offset block_start);
         to = min (unat (end' - block_start)) (length block)
     in read_blocks P key file sz offset end' rest
          (if from < to then out @ segment block from (to - from) else out))"

definition read_range :: "prims \<Rightarrow> bytes \<Rightarrow> path \<Rightarrow> u64 \<Rightarrow> u64 \<Rightarrow> u64 \<Rightarrow> bytes io" where
  "read_range P key file sz offset len =
     (if offset \<ge> sz \<or> len = 0 then ret []
      else
        let end' = min (offset + len) sz;
            first = offset div BLOCK_PLAINTEXT;
            last = (end' - 1) div BLOCK_PLAINTEXT
        in bindE (fs_open file) (\<lambda>_.
           read_blocks P key file sz offset end' (u64_range_incl first last) []))"

text \<open>\<open>buf[d1..d2].copy_from_slice(&src[s1..s2])\<close>, which panics on a bad range.\<close>

definition copy_from_slice :: "bytes \<Rightarrow> nat \<Rightarrow> nat \<Rightarrow> bytes \<Rightarrow> nat \<Rightarrow> nat \<Rightarrow> bytes result" where
  "copy_from_slice buf d1 d2 src s1 s2 =
     (if d1 \<le> d2 \<and> d2 \<le> length buf \<and> s1 \<le> s2 \<and> s2 \<le> length src \<and> d2 - d1 = s2 - s1
      then Inr (take d1 buf @ segment src s1 (s2 - s1) @ drop d2 buf)
      else Inl Panic)"

fun write_blocks ::
  "prims \<Rightarrow> bytes \<Rightarrow> path \<Rightarrow> u64 \<Rightarrow> u64 \<Rightarrow> u64 \<Rightarrow> u64 \<Rightarrow> bytes \<Rightarrow> u64 list \<Rightarrow> unit io" where
  "write_blocks P key file sz new_size old_blocks offset data [] = ret ()"
| "write_blocks P key file sz new_size old_blocks offset data (index # rest) =
     (let target = plaintext_len new_size index in
      bindE (if index < old_blocks then read_block P key file sz index else ret []) (\<lambda>buf0.
      let buf = resize (unat target) buf0;
          block_start = index * BLOCK_PLAINTEXT;
          block_end = block_start + target;
          write_start = max offset block_start;
          write_end = min (offset + of_nat (length data)) block_end
      in
      bindE (if write_start < write_end
             then lift (copy_from_slice buf (unat (write_start - block_start)) (unat (write_end - block_start))
                          data (unat (write_start - offset)) (unat (write_end - offset)))
             else ret buf) (\<lambda>buf.
      bindE (write_block P key file index buf) (\<lambda>_.
      write_blocks P key file sz new_size old_blocks offset data rest))))"

definition write_range :: "prims \<Rightarrow> bytes \<Rightarrow> path \<Rightarrow> u64 \<Rightarrow> u64 \<Rightarrow> bytes \<Rightarrow> u64 io" where
  "write_range P key file sz offset data =
     (let new_size = max sz (offset + of_nat (length data));
          old_blocks = block_count sz;
          new_blocks = block_count new_size
      in if new_blocks = 0 then ret new_size
      else
        let touched_from = min (offset div BLOCK_PLAINTEXT) (saturating_sub old_blocks 1) in
        bindE (fs_open_rw file) (\<lambda>_.
        bindE (write_blocks P key file sz new_size old_blocks offset data
                 (u64_range touched_from new_blocks)) (\<lambda>_.
        bindE (fs_set_len file (record_offset (new_blocks - 1) + record_len new_size (new_blocks - 1))) (\<lambda>_.
        ret new_size))))"

definition truncate :: "prims \<Rightarrow> bytes \<Rightarrow> path \<Rightarrow> u64 \<Rightarrow> u64 \<Rightarrow> unit io" where
  "truncate P key file sz new_size =
     (if new_size > sz then bindE (write_range P key file sz new_size []) (\<lambda>_. ret ())
      else if new_size = sz then ret ()
      else
        let new_blocks = block_count new_size in
        if new_blocks = 0 then bindE (fs_open_rw file) (\<lambda>_. fs_set_len file 0)
        else
          bindE (fs_open_rw file) (\<lambda>_.
          let last = new_blocks - 1; target = plaintext_len new_size last in
          bindE (read_block P key file sz last) (\<lambda>buf.
          bindE (write_block P key file last (take (unat target) buf)) (\<lambda>_.
          fs_set_len file (record_offset last + record_len new_size last)))))"

definition sync :: "path \<Rightarrow> unit io" where
  "sync file w = (if fs_exists file w then bindE (fs_open file) (\<lambda>_. fs_sync_all file) w else ret () w)"

section \<open>64-bit arithmetic as arithmetic on naturals\<close>

definition max_size :: nat where "max_size = 2 ^ 63"

definition nblocks :: "nat \<Rightarrow> nat" where
  "nblocks n = (n + 65535) div 65536"

lemma unat_block_plaintext [simp]: "unat BLOCK_PLAINTEXT = 65536"
  by (simp add: BLOCK_PLAINTEXT_def)

lemma unat_full_record [simp]: "unat FULL_RECORD = 65576"
  by (simp add: FULL_RECORD_def BLOCK_PLAINTEXT_def)

lemma nblocks_alt: "nblocks n = (if n mod 65536 > 0 then n div 65536 + 1 else n div 65536)"
proof -
  define q r where "q = n div 65536" and "r = n mod 65536"
  have n: "n = 65536 * q + r" and r: "r < 65536"
    by (simp_all add: q_def r_def)
  have "(n + 65535) div 65536 = (if r > 0 then q + 1 else q)"
    by (rule div_nat_eqI) (use n r in auto)
  then show ?thesis by (simp add: nblocks_def q_def r_def)
qed

lemma unat_block_count [u64_nat]: "unat (block_count sz) = nblocks (unat sz)"
proof -
  have m: "unat (sz mod BLOCK_PLAINTEXT) = unat sz mod 65536"
    and d: "unat (sz div BLOCK_PLAINTEXT) = unat sz div 65536"
    by (simp_all add: unat_mod unat_div)
  have "unat sz div 65536 + 1 < 2 ^ 64"
    using u64_bound [of sz] by simp
  then have s: "unat (sz div BLOCK_PLAINTEXT + 1) = unat sz div 65536 + 1"
    by (simp add: d unat_word_ariths)
  have "(0 < sz mod BLOCK_PLAINTEXT) = (0 < unat sz mod 65536)"
    by (simp add: word_less_nat_alt m)
  then show ?thesis
    by (simp only: block_count_def div_ceil_def nblocks_alt s d if_distrib [of unat])
qed

lemma nblocks_iff: "i < nblocks n \<longleftrightarrow> i * 65536 < n"
proof -
  have "Suc i \<le> nblocks n \<longleftrightarrow> Suc i * 65536 \<le> n + 65535"
    unfolding nblocks_def by (rule less_eq_div_iff_mult_less_eq) simp
  then show ?thesis by (simp add: Suc_le_eq less_Suc_eq_le)
qed

lemma nblocks_zero [simp]: "nblocks n = 0 \<longleftrightarrow> n = 0"
  using nblocks_iff [of 0 n] by auto

lemma nblocks_mono: "m \<le> n \<Longrightarrow> nblocks m \<le> nblocks n"
  unfolding nblocks_def by (simp add: div_le_mono)

text \<open>For a block of a file of admissible size nothing overflows.\<close>

lemma unat_block_start [u64_nat]:
  assumes "i * 65536 < 2 ^ 64"
  shows "unat (of_nat i * BLOCK_PLAINTEXT) = i * 65536"
  using assms by (simp add: unat_word_ariths unat_of_nat)

lemma unat_plaintext_len [u64_nat]:
  assumes "i * 65536 < 2 ^ 64"
  shows "unat (plaintext_len sz (of_nat i)) = min 65536 (unat sz - i * 65536)"
  using assms
  by (auto simp: plaintext_len_def Let_def word_le_nat_alt unat_block_start min_def unat_sub)

lemma unat_record_len [u64_nat]:
  assumes "i * 65536 < 2 ^ 64"
  shows "unat (record_len sz (of_nat i)) = min 65536 (unat sz - i * 65536) + 40"
proof -
  have "unat (plaintext_len sz (of_nat i)) \<le> 65536"
    using assms by (simp add: u64_nat)
  then show ?thesis
    by (simp add: record_len_def unat_word_ariths unat_plaintext_len [OF assms])
qed

lemma unat_record_offset [u64_nat]:
  assumes "i * 65576 < 2 ^ 64"
  shows "unat (record_offset (of_nat i)) = i * 65576"
  using assms by (simp add: record_offset_def unat_word_ariths unat_of_nat)

lemma in_range:
  assumes "i * 65536 < n" and "n \<le> max_size"
  shows "i * 65536 < 2 ^ 64" and "i * 65576 < 2 ^ 64" and "i * 65576 + 65576 < 2 ^ 64" and "i < 2 ^ 64"
  using assms unfolding max_size_def by simp_all

lemma unat_saturating_sub [u64_nat]: "unat (saturating_sub a b) = unat a - unat b"
  by (auto simp: saturating_sub_def word_le_nat_alt unat_sub)

section \<open>What a data file holds\<close>

definition plain_at :: "bytes \<Rightarrow> nat \<Rightarrow> bytes" where
  "plain_at bs i = segment bs (i * 65536) 65536"

definition block_ok :: "prims \<Rightarrow> bytes \<Rightarrow> bytes \<Rightarrow> nat \<Rightarrow> bytes \<Rightarrow> bool" where
  "block_ok P key raw i pl \<longleftrightarrow> i * 65576 + length pl + 40 \<le> length raw \<and>
     decrypt_block P key (of_nat i) (segment raw (i * 65576) (length pl + 40)) = Inr pl"

definition represents :: "prims \<Rightarrow> bytes \<Rightarrow> bytes \<Rightarrow> bytes \<Rightarrow> bool" where
  "represents P key raw bs \<longleftrightarrow> (\<forall>i < nblocks (length bs). block_ok P key raw i (plain_at bs i))"

lemma length_plain_at [simp]: "length (plain_at bs i) = min 65536 (length bs - i * 65536)"
  by (simp add: plain_at_def)

lemma read_block_ok:
  assumes w: "fault_free w" "disk w file = Some raw" and rep: "block_ok P key raw i pl"
    and pl: "length pl = min 65536 (unat sz - i * 65536)"
    and i: "i * 65536 < n" "n \<le> max_size"
  shows "read_block P key file sz (of_nat i) w = (Inr pl, tick w)"
proof -
  note [simp] = unat_record_len [OF in_range(1) [OF i]] unat_record_offset [OF in_range(2) [OF i]]
  from rep pl have "fs_read_exact_at file (record_offset (of_nat i)) (unat (record_len sz (of_nat i))) w
      = (Inr (segment raw (i * 65576) (length pl + 40)), tick w)"
    using w by (simp add: fs_read_exact_at_ok block_ok_def)
  with rep show ?thesis
    by (simp add: read_block_def bindE_Inr ret_def block_ok_def)
qed

lemma read_blocks_ok:
  assumes rep: "represents P key raw bs" and sz: "unat sz = length bs" "length bs \<le> max_size"
    and e: "unat end' \<le> length bs"
  shows "fault_free w \<Longrightarrow> disk w file = Some raw \<Longrightarrow> unat offset < Suc f * 65536 \<Longrightarrow>
      unat offset < unat end' \<Longrightarrow>
      (k = 0 \<longrightarrow> unat end' \<le> max (unat offset) (f * 65536)) \<Longrightarrow> (k > 0 \<longrightarrow> (f + k - 1) * 65536 < unat end') \<Longrightarrow>
      unat end' \<le> (f + k) * 65536 \<Longrightarrow>
      \<exists>w'. read_blocks P key file sz offset end' (map of_nat [f..<f + k]) out w =
        (Inr (out @ segment bs (max (unat offset) (f * 65536)) (unat end' - max (unat offset) (f * 65536))), w')
        \<and> quiet w w'"
proof (induction k arbitrary: f out w)
  case 0
  then show ?case by (simp add: ret_def quiet_refl)
next
  case (Suc k)
  let ?o = "unat offset" and ?e = "unat end'" and ?s = "max (unat offset) (f * 65536)"
  let ?m = "min ?e (Suc f * 65536)"
  have fe: "f * 65536 < ?e" using Suc.prems(6) by (cases k) auto
  then have fb: "f * 65536 < length bs" using e by linarith
  have rd: "read_block P key file sz (of_nat f) w = (Inr (plain_at bs f), tick w)"
    using rep fb sz Suc.prems(1,2)
    by (intro read_block_ok) (auto simp: represents_def nblocks_iff)
  have st: "unat (of_nat f * BLOCK_PLAINTEXT) = f * 65536"
    using in_range(1) [OF fb sz(2)] by (rule unat_block_start)
  have "of_nat f * BLOCK_PLAINTEXT \<le> end'"
    using fe st by (simp add: word_le_nat_alt)
  then have en: "unat (end' - of_nat f * BLOCK_PLAINTEXT) = ?e - f * 65536"
    by (simp add: unat_sub st)
  have piece: "(if ?o - f * 65536 < min (?e - f * 65536) (length (plain_at bs f))
      then out @ segment (plain_at bs f) (?o - f * 65536)
        (min (?e - f * 65536) (length (plain_at bs f)) - (?o - f * 65536)) else out)
      = out @ segment bs ?s (?m - ?s)"
    using e Suc.prems(3) by (auto simp: plain_at_def segment_segment max_def min_def)
  let ?out = "out @ segment bs ?s (?m - ?s)"
  have "\<exists>w'. read_blocks P key file sz offset end' (map of_nat [Suc f..<Suc f + k]) ?out (tick w) =
      (Inr (?out @ segment bs (max ?o (Suc f * 65536)) (?e - max ?o (Suc f * 65536))), w')
      \<and> quiet (tick w) w'"
    using Suc.prems by (intro Suc.IH) auto
  then obtain w' where w': "read_blocks P key file sz offset end' (map of_nat [Suc f..<Suc f + k]) ?out (tick w) =
      (Inr (?out @ segment bs (Suc f * 65536) (?e - Suc f * 65536)), w')" "quiet (tick w) w'"
    using Suc.prems(3) by (auto simp: max_def)
  have join: "segment bs ?s (?m - ?s) @ segment bs (Suc f * 65536) (?e - Suc f * 65536) = segment bs ?s (?e - ?s)"
  proof (cases "?e \<le> Suc f * 65536")
    case False
    then show ?thesis using segment_join [of ?s "Suc f * 65536" ?e bs] Suc.prems(3) by (simp add: min_def max_def)
  qed (simp add: min_def)
  have "read_blocks P key file sz offset end' (of_nat f # map of_nat [Suc f..<Suc f + k]) out w =
      read_blocks P key file sz offset end' (map of_nat [Suc f..<Suc f + k]) ?out (tick w)"
    by (simp only: read_blocks.simps bindE_def rd prod.case sum.case Let_def unat_saturating_sub st en piece)
  moreover have "[f..<f + Suc k] = f # [Suc f..<Suc f + k]" by (simp add: upt_rec)
  ultimately show ?case
    using w'(1) quiet_trans [OF quiet_tick [OF Suc.prems(1)] w'(2)]
    by (simp only: list.map append_assoc join) blast
qed

lemma represents_present:
  assumes "represents P key (file_bytes w file) bs" and "bs \<noteq> []"
  obtains raw where "disk w file = Some raw" and "represents P key raw bs"
proof -
  have "0 < nblocks (length bs)" using assms(2) by (simp add: nblocks_iff)
  then have "block_ok P key (file_bytes w file) 0 (plain_at bs 0)"
    using assms(1) by (simp add: represents_def)
  then have "file_bytes w file \<noteq> []" by (auto simp: block_ok_def)
  then show ?thesis using that assms(1) by (auto simp: file_bytes_def split: option.splits)
qed

lemma read_range_ok:
  assumes w: "fault_free w" and rep: "represents P key (file_bytes w file) bs"
    and sz: "unat sz = length bs" "length bs \<le> max_size"
    and len: "unat offset + unat len < 2 ^ 64"
  shows "\<exists>w'. read_range P key file sz offset len w = (Inr (segment bs (unat offset) (unat len)), w') \<and> quiet w w'"
proof (cases "sz \<le> offset \<or> len = 0")
  case True
  then show ?thesis
    using sz w by (auto simp: read_range_def ret_def word_le_nat_alt quiet_refl)
next
  case False
  then have o: "unat offset < length bs" and l: "0 < unat len"
    using sz by (auto simp: word_le_nat_alt not_le unat_gt_0)
  then have "bs \<noteq> []" by auto
  then obtain raw where raw: "disk w file = Some raw" "represents P key raw bs"
    using rep represents_present by blast
  define end' where "end' = min (offset + len) sz"
  have sum: "unat (offset + len) = unat offset + unat len"
    using len by (simp add: unat_word_ariths)
  have e: "unat end' = min (unat offset + unat len) (length bs)"
    by (simp add: end'_def u64_nat sz sum)
  let ?f = "unat offset div 65536" and ?l = "(unat end' - 1) div 65536"
  have e1: "unat (end' - 1) = unat end' - 1"
    using e o l by (intro unat_minus_one) (auto simp: unat_eq_zero [symmetric])
  have first: "unat (offset div BLOCK_PLAINTEXT) = ?f" and last: "unat ((end' - 1) div BLOCK_PLAINTEXT) = ?l"
    by (simp_all add: unat_div e1)
  have fl: "?f \<le> ?l" using e o l by (intro div_le_mono) auto
  define k where "k = Suc ?l - ?f"
  have k: "?f + k = Suc ?l" "0 < k" using fl by (auto simp: k_def)
  have lb: "?l * 65536 < unat end'"
    using e o l div_times_less_eq_dividend [of "unat end' - 1" 65536] by auto
  have ub: "unat end' \<le> Suc ?l * 65536"
    using dividend_less_div_times [of 65536 "unat end' - 1"] by auto
  have of: "unat offset < Suc ?f * 65536"
    using dividend_less_div_times [of 65536 "unat offset"] by auto
  have fo: "?f * 65536 \<le> unat offset" by (rule div_times_less_eq_dividend)
  have "\<exists>w'. read_blocks P key file sz offset end' (map of_nat [?f..<?f + k]) [] (tick w) =
      (Inr ([] @ segment bs (max (unat offset) (?f * 65536)) (unat end' - max (unat offset) (?f * 65536))), w')
      \<and> quiet (tick w) w'"
    using w raw sz e o l k lb ub of by (intro read_blocks_ok) auto
  then obtain w' where w': "read_blocks P key file sz offset end' (map of_nat [?f..<Suc ?l]) [] (tick w) =
      (Inr (segment bs (unat offset) (unat end' - unat offset)), w')" "quiet (tick w) w'"
    using k fo by (auto simp: max_absorb1)
  have "segment bs (unat offset) (unat end' - unat offset) = segment bs (unat offset) (unat len)"
    using o by (auto simp: segment_def e min_def)
  then show ?thesis
    using False w raw w' quiet_trans [OF quiet_tick [OF w] w'(2)]
    by (auto simp: read_range_def Let_def u64_range_incl_def first last bindE_def fs_ok_present end'_def [symmetric] simp del: upt_Suc)
qed

section \<open>Writing\<close>

text \<open>The plaintext of one block after a write.\<close>

lemma block_update:
  fixes off j :: nat
  assumes nbs: "nbs = overwrite off data bs"
  defines "t \<equiv> length (plain_at nbs j)" and "buf \<equiv> resize (length (plain_at nbs j)) (plain_at bs j)"
    and "ws \<equiv> max off (j * 65536)"
    and "we \<equiv> min (off + length data) (j * 65536 + length (plain_at nbs j))"
  shows "(if ws < we then take (ws - j * 65536) buf @ segment data (ws - off) (we - ws) @ drop (we - j * 65536) buf
          else buf) = plain_at nbs j"
proof (rule nth_equalityI)
  have t: "t = min 65536 (length nbs - j * 65536)" by (simp add: t_def)
  have lb: "length buf = t" by (simp add: buf_def t_def)
  have pl: "length (plain_at nbs j) = t" by (simp only: t_def)
  have we: "we = min (off + length data) (j * 65536 + t)" by (simp only: we_def t_def)
  show len: "length (if ws < we then take (ws - j * 65536) buf @ segment data (ws - off) (we - ws) @ drop (we - j * 65536) buf
          else buf) = length (plain_at nbs j)"
    using lb by (auto simp: ws_def we pl simp del: length_plain_at)
  fix i assume "i < length (if ws < we then take (ws - j * 65536) buf @ segment data (ws - off) (we - ws) @ drop (we - j * 65536) buf
          else buf)"
  with len have i: "i < t" by (simp only: pl)
  then have ji: "i < 65536" "j * 65536 + i < length nbs" by (auto simp: t)
  have rhs: "plain_at nbs j ! i = nbs ! (j * 65536 + i)"
    using ji by (simp add: plain_at_def nth_segment)
  have "buf ! i = (if i < length (plain_at bs j) then plain_at bs j ! i else 0)"
    unfolding buf_def using i by (intro nth_resize) (simp add: t_def)
  then have bufi: "buf ! i = (if j * 65536 + i < length bs then bs ! (j * 65536 + i) else 0)"
    using ji(1) by (auto simp: plain_at_def nth_segment)
  have nb: "nbs ! (j * 65536 + i) =
    (if j * 65536 + i < off then (if j * 65536 + i < length bs then bs ! (j * 65536 + i) else 0)
     else if j * 65536 + i < off + length data then data ! (j * 65536 + i - off) else bs ! (j * 65536 + i))"
    unfolding nbs by (rule nth_overwrite) (use ji nbs in simp)
  have d: "ws - j * 65536 \<le> we - j * 65536" "we - j * 65536 \<le> length buf" if "ws < we"
    using that lb by (auto simp: ws_def we)
  have seg: "length (segment data (ws - off) (we - ws)) = (we - j * 65536) - (ws - j * 65536)" if "ws < we"
    using that by (auto simp: ws_def we)
  show "(if ws < we then take (ws - j * 65536) buf @ segment data (ws - off) (we - ws) @ drop (we - j * 65536) buf
          else buf) ! i = plain_at nbs j ! i"
  proof (cases "j * 65536 + i < off \<or> off + length data \<le> j * 65536 + i")
    case True
    then have "nbs ! (j * 65536 + i) = buf ! i"
      using ji(2) unfolding nb bufi by (auto simp: nbs)
    moreover have "\<not> (ws - j * 65536 \<le> i \<and> i < we - j * 65536)"
      using True by (auto simp: ws_def we)
    ultimately show ?thesis
      using i d seg lb unfolding rhs by (auto simp: nth_replace)
  next
    case False
    then have in_range: "ws < we" "ws - j * 65536 \<le> i" "i < we - j * 65536"
      and "i - (ws - j * 65536) < we - ws"
      and pos: "ws - off + (i - (ws - j * 65536)) = j * 65536 + i - off"
      using i by (auto simp: ws_def we)
    then have "segment data (ws - off) (we - ws) ! (i - (ws - j * 65536)) = data ! (j * 65536 + i - off)"
      using False by (subst nth_segment) (auto simp: pos)
    then show ?thesis
      using False i d seg lb in_range unfolding rhs nb by (auto simp: nth_replace)
  qed
qed

lemma write_blockE:
  assumes P: "aead_laws P" "length key = 32" and w: "fault_free w" "disk w file = Some raw"
    and pl: "length pl \<le> 65536" and j: "j * 65536 < n" "n \<le> max_size"
  obtains rec w' where "write_block P key file (of_nat j) pl w = (Inr (), w')"
    and "evolved w ((disk w)(file \<mapsto> overwrite (j * 65576) rec raw)) w'"
    and "length rec = length pl + 40" and "decrypt_block P key (of_nat j) rec = Inr pl"
proof -
  have "length pl \<le> aead_max" using pl by (simp add: aead_max_def)
  then obtain rec where rec: "encrypt_block P key (of_nat j) pl w = (Inr rec, draw_nonce w)"
    "decrypt_block P key (of_nat j) rec = Inr pl" "length rec = length pl + 40"
    using P block.sealE by metis
  have ne: "put_at (j * 65576) rec raw = overwrite (j * 65576) rec raw"
    using rec(3) by (auto simp: put_at_def)
  let ?w = "(tick (draw_nonce w))\<lparr>disk := (disk w)(file \<mapsto> overwrite (j * 65576) rec raw)\<rparr>"
  have "fs_write_all_at file (record_offset (of_nat j)) rec (draw_nonce w) = (Inr (), ?w)"
    using w by (simp add: fs_ok_present unat_record_offset [OF in_range(2) [OF j]] ne)
  then have "write_block P key file (of_nat j) pl w = (Inr (), ?w)"
    by (simp add: write_block_def bindE_def rec)
  moreover have "evolved w ((disk w)(file \<mapsto> overwrite (j * 65576) rec raw)) ?w"
    using w by (intro evolvedI) (simp_all add: draw_nonce_def)
  ultimately show ?thesis using that rec by blast
qed

lemma block_ok_overwrite_other:
  assumes "block_ok P key raw i pl" and "i \<noteq> j" and "length pl \<le> 65536" and "length rec \<le> 65576"
  shows "block_ok P key (overwrite (j * 65576) rec raw) i pl"
proof (cases "i < j")
  case True
  then have "i * 65576 + (length pl + 40) \<le> j * 65576" using assms(3) by linarith
  with assms(1) show ?thesis by (auto simp: block_ok_def segment_overwrite_before)
next
  case False
  with assms(2) have "j * 65576 + length rec \<le> i * 65576" using assms(4) by linarith
  with assms(1) show ?thesis by (auto simp: block_ok_def segment_overwrite_after)
qed

lemma block_ok_overwrite_same:
  assumes "length rec = length pl + 40" and "decrypt_block P key (of_nat j) rec = Inr pl"
  shows "block_ok P key (overwrite (j * 65576) rec raw) j pl"
  using assms segment_overwrite_same [of "j * 65576" rec raw] by (simp add: block_ok_def)

text \<open>A file of which the blocks before \<open>j\<close> are those of \<open>nbs\<close> and the others still those of \<open>bs\<close>.\<close>

definition mixed :: "prims \<Rightarrow> bytes \<Rightarrow> bytes \<Rightarrow> bytes \<Rightarrow> bytes \<Rightarrow> nat \<Rightarrow> bool" where
  "mixed P key raw bs nbs j \<longleftrightarrow> (\<forall>i < j. block_ok P key raw i (plain_at nbs i)) \<and>
     (\<forall>i. j \<le> i \<and> i < nblocks (length bs) \<longrightarrow> block_ok P key raw i (plain_at bs i))"

lemma mixed_step:
  assumes "mixed P key raw bs nbs j" and rec: "length rec = length (plain_at nbs j) + 40"
    "decrypt_block P key (of_nat j) rec = Inr (plain_at nbs j)"
  shows "mixed P key (overwrite (j * 65576) rec raw) bs nbs (Suc j)"
proof -
  have len: "length rec \<le> 65576" using rec(1) by simp
  show ?thesis
    using assms(1) unfolding mixed_def
    by (auto simp: less_Suc_eq block_ok_overwrite_same [OF rec] intro!: block_ok_overwrite_other [OF _ _ _ len])
qed

text \<open>The old plaintext of block \<open>j\<close>, empty if there is none.\<close>

lemma read_old_block:
  assumes w: "fault_free w" "disk w file = Some raw" and mix: "mixed P key raw bs nbs j"
    and sz: "unat sz = length bs" "length bs \<le> max_size" and j: "j < 2 ^ 64"
  shows "\<exists>w'. (if of_nat j < block_count sz then read_block P key file sz (of_nat j) else ret []) w =
      (Inr (plain_at bs j), w') \<and> quiet w w'"
proof (cases "j < nblocks (length bs)")
  case True
  then have "block_ok P key raw j (plain_at bs j)"
    using mix by (auto simp: mixed_def)
  then have "read_block P key file sz (of_nat j) w = (Inr (plain_at bs j), tick w)"
    using w True sz by (intro read_block_ok [of _ _ _ _ _ _ _ _ "length bs"]) (auto simp: nblocks_iff)
  with True show ?thesis
    using sz j w by (simp add: word_less_nat_alt unat_of_nat unat_block_count quiet_tick)
next
  case False
  then have "plain_at bs j = []" by (simp add: plain_at_def nblocks_iff)
  with False show ?thesis
    using sz j w by (simp add: word_less_nat_alt unat_of_nat unat_block_count ret_def quiet_refl)
qed

text \<open>The new plaintext of block \<open>j\<close>: the window of the data that falls into it is copied over.\<close>

lemma window_copy:
  fixes ws we b offset :: u64
  assumes nbs: "nbs = overwrite (unat offset) data bs" and b: "unat b = j * 65536"
    and ws: "unat ws = max (unat offset) (j * 65536)"
    and we: "unat we = min (unat offset + length data) (j * 65536 + length (plain_at nbs j))"
  defines "buf \<equiv> resize (length (plain_at nbs j)) (plain_at bs j)"
  shows "(if ws < we then lift (copy_from_slice buf (unat (ws - b)) (unat (we - b)) data
        (unat (ws - offset)) (unat (we - offset))) else ret buf) = ret (plain_at nbs j)"
proof (cases "ws < we")
  case True
  then have lt: "unat ws < unat we" by (simp add: word_less_nat_alt)
  have sub: "unat (ws - b) = unat ws - j * 65536" "unat (ws - offset) = unat ws - unat offset"
    "unat (we - b) = unat we - j * 65536" "unat (we - offset) = unat we - unat offset"
    using lt by (simp_all add: unat_sub word_le_nat_alt ws b)
  have "take (unat ws - j * 65536) buf @ segment data (unat ws - unat offset) (unat we - unat ws)
      @ drop (unat we - j * 65536) buf = plain_at nbs j"
    using block_update [OF nbs, of j] lt unfolding ws we buf_def by simp
  moreover have "unat we - unat offset - (unat ws - unat offset) = unat we - unat ws"
    using ws by simp
  moreover have "unat we - j * 65536 \<le> length buf" "unat we - unat offset \<le> length data"
    unfolding buf_def length_resize using we by linarith+
  ultimately have "copy_from_slice buf (unat (ws - b)) (unat (we - b)) data
      (unat (ws - offset)) (unat (we - offset)) = Inr (plain_at nbs j)"
    unfolding copy_from_slice_def sub using lt ws by (simp add: diff_le_mono)
  with True show ?thesis by (simp add: fun_eq_iff lift_def ret_def)
next
  case False
  then have "\<not> unat ws < unat we" by (simp add: word_less_nat_alt)
  then have "buf = plain_at nbs j"
    using block_update [OF nbs, of j] unfolding ws [symmetric] we [symmetric] buf_def by (simp only: if_False)
  with False show ?thesis by simp
qed

text \<open>One iteration of the write loop.\<close>

lemma write_blocks_step:
  assumes P: "aead_laws P" "length key = 32" and w: "fault_free w" "disk w file = Some raw"
    and mix: "mixed P key raw bs nbs j" and nbs: "nbs = overwrite (unat offset) data bs"
    and sz: "unat sz = length bs" "unat new_size = length nbs" "length nbs \<le> max_size"
    and j: "j * 65536 < length nbs"
  shows "\<exists>raw' w'. write_blocks P key file sz new_size (block_count sz) offset data (of_nat j # rest) w =
      write_blocks P key file sz new_size (block_count sz) offset data rest w' \<and>
      evolved w ((disk w)(file \<mapsto> raw')) w' \<and> mixed P key raw' bs nbs (Suc j)"
proof -
  let ?b = "of_nat j * BLOCK_PLAINTEXT :: u64" and ?t = "plaintext_len new_size (of_nat j)"
  note jr = in_range [OF j sz(3)]
  have target: "unat ?t = length (plain_at nbs j)"
    using unat_plaintext_len [OF jr(1)] sz by simp
  have bl: "length bs \<le> max_size" using sz(3) by (simp add: nbs)
  obtain w1 where rd: "(if of_nat j < block_count sz then read_block P key file sz (of_nat j) else ret []) w =
      (Inr (plain_at bs j), w1)" and w1: "quiet w w1"
    using read_old_block [OF w mix sz(1) bl jr(4)] by blast
  have st: "unat ?b = j * 65536" using unat_block_start [OF jr(1)] .
  have off: "unat (offset + of_nat (length data)) = unat offset + length data"
    using sz(3) nbs by (subst unat_plus) (simp_all add: max_size_def unat_of_nat)
  have en: "unat (?b + ?t) = j * 65536 + length (plain_at nbs j)"
    using jr(3) by (subst unat_plus) (simp_all add: st target)
  have upd: "(if max offset ?b < min (offset + of_nat (length data)) (?b + ?t)
      then lift (copy_from_slice (resize (unat ?t) (plain_at bs j)) (unat (max offset ?b - ?b))
        (unat (min (offset + of_nat (length data)) (?b + ?t) - ?b)) data
        (unat (max offset ?b - offset)) (unat (min (offset + of_nat (length data)) (?b + ?t) - offset)))
      else ret (resize (unat ?t) (plain_at bs j))) = ret (plain_at nbs j)"
    unfolding target using nbs st
    by (rule window_copy) (simp_all only: unat_max_min st off en)
  have w1': "fault_free w1" "disk w1 file = Some raw" and pl: "length (plain_at nbs j) \<le> 65536"
    using quietD [OF w1] w by simp_all
  obtain rec w2 where wr: "write_block P key file (of_nat j) (plain_at nbs j) w1 = (Inr (), w2)"
    "evolved w1 ((disk w1)(file \<mapsto> overwrite (j * 65576) rec raw)) w2"
    "length rec = length (plain_at nbs j) + 40" "decrypt_block P key (of_nat j) rec = Inr (plain_at nbs j)"
    by (rule write_blockE [OF P w1' pl j sz(3)])
  have "write_blocks P key file sz new_size (block_count sz) offset data (of_nat j # rest) w =
      write_blocks P key file sz new_size (block_count sz) offset data rest w2"
    by (simp only: write_blocks.simps Let_def bindE_def rd prod.case sum.case upd ret_def wr(1))
  then show ?thesis
    using evolved_trans [OF quiet_evolved [OF w1] wr(2)] mixed_step [OF mix wr(3,4)] quietD [OF w1] by auto
qed

lemma write_blocks_ok:
  assumes P: "aead_laws P" "length key = 32" and nbs: "nbs = overwrite (unat offset) data bs"
    and sz: "unat sz = length bs" "unat new_size = length nbs" "length nbs \<le> max_size"
  shows "fault_free w \<Longrightarrow> disk w file = Some raw \<Longrightarrow> mixed P key raw bs nbs j \<Longrightarrow> j + k \<le> nblocks (length nbs) \<Longrightarrow>
    \<exists>raw' w'. write_blocks P key file sz new_size (block_count sz) offset data (map of_nat [j..<j + k]) w = (Inr (), w') \<and>
      evolved w ((disk w)(file \<mapsto> raw')) w' \<and> mixed P key raw' bs nbs (j + k)"
proof (induction k arbitrary: j w raw)
  case 0
  then show ?case
    using quiet_evolved [OF quiet_refl] map_upd_triv [of "disk w" "file" raw]
    by (auto simp: ret_def simp del: fun_upd_apply intro!: exI [of _ raw])
next
  case (Suc k)
  have j: "j * 65536 < length nbs" using Suc.prems(4) nblocks_iff [of j "length nbs"] by simp
  obtain raw1 w1 where 1: "write_blocks P key file sz new_size (block_count sz) offset data
        (of_nat j # map of_nat [Suc j..<Suc j + k]) w =
      write_blocks P key file sz new_size (block_count sz) offset data (map of_nat [Suc j..<Suc j + k]) w1"
      "evolved w ((disk w)(file \<mapsto> raw1)) w1" "mixed P key raw1 bs nbs (Suc j)"
    using write_blocks_step [OF P Suc.prems(1,2,3) nbs sz j] by blast
  have w1: "fault_free w1" "disk w1 file = Some raw1"
    by (simp_all add: evolvedD [OF 1(2)])
  obtain raw2 w2 where 2: "write_blocks P key file sz new_size (block_count sz) offset data (map of_nat [Suc j..<Suc j + k]) w1 = (Inr (), w2)"
      "evolved w1 ((disk w1)(file \<mapsto> raw2)) w2" "mixed P key raw2 bs nbs (Suc j + k)"
    using Suc.IH [OF w1 1(3)] Suc.prems(4) unfolding add_Suc add_Suc_right by blast
  have idx: "[j..<Suc j + k] = j # [Suc j..<Suc j + k]" by (simp add: upt_rec)
  have jk: "j + Suc k = Suc j + k" by simp
  have "evolved w ((disk w)(file \<mapsto> raw2)) w2"
    using evolved_trans [OF 1(2) 2(2)] evolvedD(1) [OF 1(2)] by simp
  with 2(3) show ?case
    unfolding jk idx list.map 1(1) 2(1) by blast
qed

definition enc_len :: "nat \<Rightarrow> nat" where
  "enc_len n = n + 40 * nblocks n"

lemma last_block:
  assumes "0 < n"
  shows "(nblocks n - 1) * 65536 < n" and "n \<le> nblocks n * 65536"
  using assms nblocks_iff [of "nblocks n - 1" n] nblocks_iff [of "nblocks n" n] nblocks_zero [of n] by auto

lemma unat_total_len:
  assumes "0 < unat sz" and "unat sz \<le> max_size"
  shows "unat (record_offset (block_count sz - 1) + record_len sz (block_count sz - 1)) = enc_len (unat sz)"
    and "block_count sz - 1 = of_nat (nblocks (unat sz) - 1)"
proof -
  let ?n = "unat sz" and ?l = "nblocks (unat sz) - 1"
  note l = last_block [OF assms(1)]
  note lr = in_range [OF l(1) assms(2)]
  have pos: "0 < nblocks ?n" using assms(1) by (simp add: nblocks_iff)
  then have "block_count sz \<noteq> 0"
    using unat_block_count [of sz] assms(1) by auto
  then have "unat (block_count sz - 1) = ?l"
    by (simp add: unat_minus_one unat_block_count)
  then show bc: "block_count sz - 1 = of_nat ?l"
    by (rule unat_eqD)
  have "unat (record_offset (of_nat ?l) + record_len sz (of_nat ?l)) =
      ?l * 65576 + (min 65536 (?n - ?l * 65536) + 40)"
    using lr by (subst unat_plus) (simp_all add: unat_record_offset unat_record_len)
  also have "\<dots> = enc_len ?n"
  proof -
    have "?n - ?l * 65536 \<le> 65536" using l(2) pos by (cases "nblocks ?n") auto
    then show ?thesis using l(1) pos by (cases "nblocks ?n") (auto simp: enc_len_def)
  qed
  finally show "unat (record_offset (block_count sz - 1) + record_len sz (block_count sz - 1)) = enc_len ?n"
    by (simp only: bc)
qed

lemma represents_resize:
  assumes "represents P key raw bs"
  shows "represents P key (resize (enc_len (length bs)) raw) bs"
  unfolding represents_def
proof (intro allI impI)
  fix i assume i: "i < nblocks (length bs)"
  then have ok: "block_ok P key raw i (plain_at bs i)" using assms by (simp add: represents_def)
  have "i * 65576 + length (plain_at bs i) + 40 \<le> enc_len (length bs)"
    using i nblocks_iff [of i "length bs"] by (auto simp: enc_len_def)
  with ok show "block_ok P key (resize (enc_len (length bs)) raw) i (plain_at bs i)"
    by (auto simp: block_ok_def segment_resize)
qed

lemma mixed_done: "mixed P key raw bs nbs (nblocks (length nbs)) \<Longrightarrow> represents P key raw nbs"
  by (simp add: mixed_def represents_def)

lemma mixed_start:
  assumes "represents P key raw bs" and "\<And>i. i < j \<Longrightarrow> plain_at nbs i = plain_at bs i \<and> i < nblocks (length bs)"
  shows "mixed P key raw bs nbs j"
  using assms by (simp add: mixed_def represents_def)

lemma plain_at_overwrite_before:
  assumes "Suc i * 65536 \<le> off" and "Suc i * 65536 \<le> length bs"
  shows "plain_at (overwrite off data bs) i = plain_at bs i"
  unfolding plain_at_def using assms by (intro segment_overwrite_before) auto

lemma resize_overwrite: "length bs \<le> n \<Longrightarrow> overwrite n [] bs = resize n bs"
  by (simp add: overwrite_def)

lemma represents_Nil [simp]: "represents P key raw []"
  by (simp add: represents_def nblocks_def)

text \<open>The blocks before the first one the write touches are the same before and after.\<close>

definition first_touched :: "nat \<Rightarrow> nat \<Rightarrow> nat" where
  "first_touched off n = min (off div 65536) (nblocks n - 1)"

lemma mixed_first_touched:
  assumes "represents P key raw bs"
  shows "mixed P key raw bs (overwrite off data bs) (first_touched off (length bs))"
  using assms
proof (rule mixed_start)
  fix i assume "i < first_touched off (length bs)"
  then have "Suc i \<le> off div 65536" and i: "Suc i < nblocks (length bs)"
    by (auto simp: first_touched_def)
  then have "Suc i * 65536 \<le> off"
    by (metis less_eq_div_iff_mult_less_eq zero_less_numeral)
  moreover have "Suc i * 65536 \<le> length bs" using i nblocks_iff [of "Suc i"] by simp
  ultimately show "plain_at (overwrite off data bs) i = plain_at bs i \<and> i < nblocks (length bs)"
    using i by (simp add: plain_at_overwrite_before)
qed

lemma unat_first_touched:
  "unat (min (offset div BLOCK_PLAINTEXT) (saturating_sub (block_count sz) 1)) =
     first_touched (unat offset) (unat sz)"
  by (simp add: u64_nat unat_div first_touched_def)

lemma write_touched_ok:
  assumes P: "aead_laws P" "length key = 32" and w: "fault_free w" "disk w file = Some raw"
    and rep: "represents P key raw bs" and nbs: "nbs = overwrite (unat offset) data bs"
    and sz: "unat sz = length bs" "unat new_size = length nbs" "length nbs \<le> max_size"
  shows "\<exists>raw' w'. write_blocks P key file sz new_size (block_count sz) offset data
      (map of_nat [first_touched (unat offset) (length bs)..<nblocks (length nbs)]) w = (Inr (), w') \<and>
      evolved w ((disk w)(file \<mapsto> raw')) w' \<and> represents P key raw' nbs"
proof -
  let ?tf = "first_touched (unat offset) (length bs)"
  have "nblocks (length bs) \<le> nblocks (length nbs)" by (rule nblocks_mono) (simp add: nbs)
  then have tf: "?tf + (nblocks (length nbs) - ?tf) = nblocks (length nbs)"
    by (auto simp: first_touched_def)
  have "mixed P key raw bs nbs ?tf" using mixed_first_touched [OF rep] by (simp add: nbs)
  then show ?thesis
    using write_blocks_ok [OF P nbs sz w, of ?tf "nblocks (length nbs) - ?tf"] unfolding tf
    by (auto dest: mixed_done)
qed

lemma write_range_nonempty:
  assumes P: "aead_laws P" "length key = 32" and w: "fault_free w"
    and rep: "represents P key (file_bytes w file) bs" and nbs: "nbs = overwrite (unat offset) data bs"
    and sz: "unat sz = length bs" "unat (max sz (offset + of_nat (length data))) = length nbs"
      "length nbs \<le> max_size"
    and ne: "nbs \<noteq> []"
  shows "\<exists>raw' w'. write_range P key file sz offset data w = (Inr (max sz (offset + of_nat (length data))), w') \<and>
      evolved w ((disk w)(file \<mapsto> raw')) w' \<and> represents P key raw' nbs"
proof -
  define new_size where "new_size = max sz (offset + of_nat (length data))"
  note ns = sz(2) [folded new_size_def]
  have pos: "0 < unat new_size" and nz: "block_count new_size \<noteq> 0"
    using ne ns unat_block_count [of new_size] by auto
  define w1 where "w1 = (tick w)\<lparr>disk := (disk w)(file \<mapsto> file_bytes w file)\<rparr>"
  have op: "fs_open_rw file w = (Inr (), w1)"
    using w by (simp add: fs_ok w1_def file_bytes_def)
  have w1: "fault_free w1" "disk w1 file = Some (file_bytes w file)"
    "evolved w ((disk w)(file \<mapsto> file_bytes w file)) w1"
    using w by (auto simp: w1_def intro: evolvedI)
  obtain raw2 w2 where w2: "write_blocks P key file sz new_size (block_count sz) offset data
        (map of_nat [first_touched (unat offset) (length bs)..<nblocks (length nbs)]) w1 = (Inr (), w2)"
      "evolved w1 ((disk w1)(file \<mapsto> raw2)) w2" "represents P key raw2 nbs"
    using write_touched_ok [OF P w1(1,2) rep nbs sz(1) ns sz(3)] by blast
  have d2: "disk w2 = (disk w)(file \<mapsto> raw2)" and ff2: "fault_free w2"
    using evolvedD [OF w2(2)] evolvedD [OF w1(3)] by simp_all
  let ?raw = "resize (enc_len (length nbs)) raw2"
  let ?w3 = "(tick w2)\<lparr>disk := (disk w2)(file \<mapsto> ?raw)\<rparr>"
  have "fs_set_len file (record_offset (block_count new_size - 1) + record_len new_size (block_count new_size - 1)) w2 =
      (Inr (), ?w3)"
    using ff2 unat_total_len(1) [OF pos] sz(3) ns by (simp add: fs_ok_present d2)
  then have "write_range P key file sz offset data w = (Inr new_size, ?w3)"
    using nz w2(1)
    by (simp add: write_range_def Let_def new_size_def [symmetric] bindE_def op u64_range_def
        unat_first_touched unat_block_count ns sz(1) ret_def)
  moreover have "evolved w ((disk w)(file \<mapsto> ?raw)) ?w3"
    using evolvedD(2-7) [OF evolved_trans [OF w1(3) w2(2)]] by (intro evolvedI) (simp_all add: d2)
  ultimately show ?thesis
    using represents_resize [OF w2(3)] by (auto simp: new_size_def)
qed

lemma write_range_ok:
  assumes P: "aead_laws P" "length key = 32" and w: "fault_free w"
    and rep: "represents P key (file_bytes w file) bs" and sz: "unat sz = length bs"
    and bound: "length (overwrite (unat offset) data bs) \<le> max_size"
  shows "\<exists>w' d. write_range P key file sz offset data w = (Inr (of_nat (length (overwrite (unat offset) data bs))), w') \<and>
      evolved w d w' \<and> (\<forall>q. q \<noteq> file \<longrightarrow> d q = disk w q) \<and>
      represents P key (file_bytes w' file) (overwrite (unat offset) data bs)"
proof -
  define nbs where "nbs = overwrite (unat offset) data bs"
  let ?n = "max sz (offset + of_nat (length data))"
  have "unat (offset + of_nat (length data)) = unat offset + length data"
    using bound by (subst unat_plus) (simp_all add: unat_of_nat max_size_def)
  then have ns: "unat ?n = length nbs" by (simp add: u64_nat nbs_def sz)
  have ns': "?n = of_nat (length nbs)" using ns by (rule unat_eqD)
  have nb: "length nbs \<le> max_size" using bound by (simp add: nbs_def)
  show ?thesis
  proof (cases "nbs = []")
    case True
    then have "block_count ?n = 0"
      using ns unat_block_count [of ?n] by (simp add: unat_eq_0 nblocks_def)
    then have "write_range P key file sz offset data w = (Inr ?n, w)"
      by (simp add: write_range_def ret_def)
    with True show ?thesis
      using quiet_evolved [OF quiet_refl [OF w]] by (auto simp: ns' nbs_def [symmetric])
  next
    case False
    then obtain raw' w' where "write_range P key file sz offset data w = (Inr ?n, w')"
      and "evolved w ((disk w)(file \<mapsto> raw')) w'" and "represents P key raw' nbs"
      using write_range_nonempty [OF P w rep nbs_def sz ns nb] by blast
    then show ?thesis
      unfolding nbs_def [symmetric] ns' using evolvedD(1)
      by (intro exI [of _ w'] exI [of _ "(disk w)(file \<mapsto> raw')"]) (simp add: file_bytes_def)
  qed
qed

section \<open>Truncating\<close>

lemma plain_at_resize_before:
  assumes "Suc i * 65536 \<le> n" and "n \<le> length bs"
  shows "plain_at (resize n bs) i = plain_at bs i"
  unfolding plain_at_def using assms by (intro segment_resize) auto

lemma plain_at_resize_last:
  assumes "n \<le> length bs"
  shows "plain_at (resize n bs) i = take (length (plain_at (resize n bs) i)) (plain_at bs i)"
  using assms by (simp add: plain_at_def segment_def resize_def drop_take min.commute)

text \<open>Shrinking to a positive size rewrites the block that becomes the lst one.\<close>

lemma shrink_ok:
  assumes P: "aead_laws P" "length key = 32" and w: "fault_free w" "disk w file = Some raw"
    and rep: "represents P key raw bs" and sz: "unat sz = length bs" "length bs \<le> max_size"
    and n: "0 < unat n" "unat n < length bs"
  defines "lst \<equiv> nblocks (unat n) - 1"
  shows "\<exists>raw' w'. bindE (read_block P key file sz (of_nat lst)) (\<lambda>buf.
      bindE (write_block P key file (of_nat lst) (take (unat (plaintext_len n (of_nat lst))) buf)) (\<lambda>_.
      fs_set_len file (record_offset (of_nat lst) + record_len n (of_nat lst)))) w = (Inr (), w') \<and>
    evolved w ((disk w)(file \<mapsto> raw')) w' \<and> represents P key raw' (resize (unat n) bs)"
proof -
  let ?nbs = "resize (unat n) bs"
  have lb: "lst * 65536 < unat n" using last_block(1) [OF n(1)] by (simp add: lst_def)
  then have lb': "lst * 65536 < length bs" using n(2) by linarith
  have nm: "unat n \<le> max_size" using n(2) sz(2) by linarith
  have Suc_last: "nblocks (unat n) = Suc lst"
    using n(1) nblocks_iff [of 0 "unat n"] by (simp add: lst_def)
  have rd: "read_block P key file sz (of_nat lst) w = (Inr (plain_at bs lst), tick w)"
    using rep lb' sz w by (intro read_block_ok) (auto simp: represents_def nblocks_iff)
  have target: "unat (plaintext_len n (of_nat lst)) = length (plain_at ?nbs lst)"
    using unat_plaintext_len [OF in_range(1) [OF lb nm]] by simp
  have tk: "take (unat (plaintext_len n (of_nat lst))) (plain_at bs lst) = plain_at ?nbs lst"
    using n plain_at_resize_last [of "unat n" bs lst] by (simp only: target)
  have w1: "fault_free (tick w)" "disk (tick w) file = Some raw" and pl: "length (plain_at ?nbs lst) \<le> 65536"
    using w by simp_all
  obtain rec w2 where wr: "write_block P key file (of_nat lst) (plain_at ?nbs lst) (tick w) = (Inr (), w2)"
    "evolved (tick w) ((disk (tick w))(file \<mapsto> overwrite (lst * 65576) rec raw)) w2"
    "length rec = length (plain_at ?nbs lst) + 40" "decrypt_block P key (of_nat lst) rec = Inr (plain_at ?nbs lst)"
    by (rule write_blockE [OF P w1 pl lb' sz(2)])
  let ?raw = "overwrite (lst * 65576) rec raw"
  have "mixed P key raw bs ?nbs lst"
    using rep
  proof (rule mixed_start)
    fix i assume i: "i < lst"
    then have "Suc i * 65536 \<le> lst * 65536" by simp
    then show "plain_at ?nbs i = plain_at bs i \<and> i < nblocks (length bs)"
      using i lb n by (simp add: plain_at_resize_before nblocks_iff)
  qed
  then have "mixed P key ?raw bs ?nbs (Suc lst)"
    using wr(3,4) by (rule mixed_step)
  then have "represents P key ?raw ?nbs"
    using mixed_done [of P key ?raw bs ?nbs] by (simp add: Suc_last)
  then have rep': "represents P key (resize (enc_len (unat n)) ?raw) ?nbs"
    using represents_resize by fastforce
  let ?w = "(tick w2)\<lparr>disk := (disk w2)(file \<mapsto> resize (enc_len (unat n)) ?raw)\<rparr>"
  have "fs_set_len file (record_offset (of_nat lst) + record_len n (of_nat lst)) w2 = (Inr (), ?w)"
    using evolvedD [OF wr(2)] unat_total_len [OF n(1) nm] by (simp add: fs_ok_present lst_def)
  moreover have "evolved w ((disk w)(file \<mapsto> resize (enc_len (unat n)) ?raw)) ?w"
    using evolvedD [OF wr(2)] by (intro evolvedI) simp_all
  ultimately show ?thesis
    using rep' rd wr(1) by (auto simp: bindE_def tk)
qed

lemma truncate_ok:
  assumes P: "aead_laws P" "length key = 32" and w: "fault_free w"
    and rep: "represents P key (file_bytes w file) bs" and sz: "unat sz = length bs"
    and bound: "length bs \<le> max_size" "unat n \<le> max_size"
  shows "\<exists>w' d. truncate P key file sz n w = (Inr (), w') \<and> evolved w d w' \<and>
      (\<forall>q. q \<noteq> file \<longrightarrow> d q = disk w q) \<and> represents P key (file_bytes w' file) (resize (unat n) bs)"
proof -
  consider (grow) "length bs < unat n" | (same) "unat n = length bs" | (zero) "unat n = 0" "bs \<noteq> []"
    | (shrink) "0 < unat n" "unat n < length bs"
    by (cases "unat n = 0"; cases "bs = []"; cases "unat n" "length bs" rule: linorder_cases) auto
  then show ?thesis
  proof cases
    case grow
    then have eq: "overwrite (unat n) [] bs = resize (unat n) bs" by (simp add: resize_overwrite)
    have "length (overwrite (unat n) [] bs) \<le> max_size" using bound grow by simp
    then obtain w' d where "write_range P key file sz n [] w = (Inr (of_nat (unat n)), w')"
      "evolved w d w'" "\<forall>q. q \<noteq> file \<longrightarrow> d q = disk w q" "represents P key (file_bytes w' file) (resize (unat n) bs)"
      using write_range_ok [OF P w rep sz, of n "[]"] unfolding eq by auto
    then show ?thesis
      using grow sz by (auto simp: truncate_def word_less_nat_alt bindE_def ret_def)
  next
    case same
    then have "resize (unat n) bs = bs" by (simp add: resize_def)
    then show ?thesis
      using same sz rep quiet_evolved [OF quiet_refl [OF w]]
      by (auto simp: truncate_def word_less_nat_alt ret_def word_unat_eq_iff intro!: exI [of _ w] exI [of _ "disk w"])
  next
    case zero
    then have n0: "n = 0" by (simp add: unat_eq_0)
    then have "\<not> sz < n" "n \<noteq> sz" using zero sz by (auto simp: word_less_nat_alt)
    moreover have "block_count n = 0" by (simp add: n0 block_count_def div_ceil_def BLOCK_PLAINTEXT_def)
    moreover let ?w = "(tick (tick w))\<lparr>disk := (disk w)(file \<mapsto> [])\<rparr>"
    have "bindE (fs_open_rw file) (\<lambda>_. fs_set_len file 0) w = (Inr (), ?w)"
      using w by (simp add: bindE_def fs_ok fs_ok_present resize_def split: option.splits)
    moreover have "evolved w ((disk w)(file \<mapsto> [])) ?w" using w by (intro evolvedI) simp_all
    ultimately show ?thesis
      by (auto simp: truncate_def n0 resize_def)
  next
    case shrink
    then have "\<not> sz < n" "n \<noteq> sz" using sz by (auto simp: word_less_nat_alt)
    moreover have "block_count n \<noteq> 0" using shrink unat_block_count [of n] by auto
    moreover from shrink have "bs \<noteq> []" by auto
    with rep obtain raw where raw: "disk w file = Some raw" "represents P key raw bs"
      by (rule represents_present)
    have "fs_open_rw file w = (Inr (), tick w)"
      using w raw by (simp add: fs_ok map_upd_triv)
    moreover have "unat n \<le> max_size" using bound by simp
    ultimately show ?thesis
      using shrink_ok [OF P _ _ raw(2) sz bound(1) shrink, of "tick w" "file"] w raw(1)
        unat_total_len(2) [OF shrink(1) bound(2)] evolved_trans [OF quiet_evolved [OF quiet_tick [OF w]]]
      by (fastforce simp: truncate_def Let_def bindE_def [of "fs_open_rw file"] file_bytes_def evolvedD(1))
  qed
qed

section \<open>The contract of a byte store\<close>

text \<open>
  What a client of this module relies on.  \<open>holds w f bs\<close> says that file \<open>f\<close> stands for the
  contents \<open>bs\<close>; reading returns a range of them, writing and truncating change them as
  \<open>overwrite\<close> and \<open>resize\<close> do, nothing else on the disk changes, and other files are not
  affected.
\<close>

datatype file_op = WriteAt u64 bytes | TruncateTo u64

fun file_spec :: "bytes \<Rightarrow> file_op \<Rightarrow> bytes" where
  "file_spec bs (WriteAt off data) = overwrite (unat off) data bs"
| "file_spec bs (TruncateTo n) = resize (unat n) bs"

fun run_file_ops :: "(u64 \<Rightarrow> u64 \<Rightarrow> bytes \<Rightarrow> u64 io) \<Rightarrow> (u64 \<Rightarrow> u64 \<Rightarrow> unit io) \<Rightarrow> u64 \<Rightarrow> file_op list \<Rightarrow> u64 io" where
  "run_file_ops wr tr sz [] = ret sz"
| "run_file_ops wr tr sz (WriteAt off data # ops) =
     bindE (wr sz off data) (\<lambda>sz'. run_file_ops wr tr sz' ops)"
| "run_file_ops wr tr sz (TruncateTo n # ops) =
     bindE (tr sz n) (\<lambda>_. run_file_ops wr tr n ops)"

text \<open>Every intermediate size of a sequence of operations is within the limit.\<close>

fun within :: "nat \<Rightarrow> bytes \<Rightarrow> file_op list \<Rightarrow> bool" where
  "within m bs [] = (length bs \<le> m)"
| "within m bs (op # ops) = (length bs \<le> m \<and> within m (file_spec bs op) ops)"

definition confined :: "world \<Rightarrow> path \<Rightarrow> world \<Rightarrow> bool" where
  "confined w f w' \<longleftrightarrow> (\<exists>d. evolved w d w' \<and> (\<forall>q. q \<noteq> f \<longrightarrow> d q = disk w q))"

lemma confined_trans: "confined w f w' \<Longrightarrow> confined w' f w'' \<Longrightarrow> confined w f w''"
  unfolding confined_def by (metis evolved_trans evolvedD(1))

lemma confinedD: "confined w f w' \<Longrightarrow> q \<noteq> f \<Longrightarrow> disk w' q = disk w q"
  by (auto simp: confined_def dest: evolvedD(1))

lemma confined_fault_free: "confined w f w' \<Longrightarrow> fault_free w'"
  by (auto simp: confined_def dest: evolvedD(2))

locale byte_store =
  fixes rd :: "path \<Rightarrow> u64 \<Rightarrow> u64 \<Rightarrow> u64 \<Rightarrow> bytes io"
    and wr :: "path \<Rightarrow> u64 \<Rightarrow> u64 \<Rightarrow> bytes \<Rightarrow> u64 io"
    and tr :: "path \<Rightarrow> u64 \<Rightarrow> u64 \<Rightarrow> unit io"
    and holds :: "world \<Rightarrow> path \<Rightarrow> bytes \<Rightarrow> bool"
    and limit :: nat
  assumes rd_holds: "holds w f bs \<Longrightarrow> unat sz = length bs \<Longrightarrow> unat off + unat len < 2 ^ 64 \<Longrightarrow>
      \<exists>w'. rd f sz off len w = (Inr (segment bs (unat off) (unat len)), w') \<and> quiet w w'"
    and wr_holds: "holds w f bs \<Longrightarrow> unat sz = length bs \<Longrightarrow> length (overwrite (unat off) data bs) \<le> limit \<Longrightarrow>
      \<exists>w'. wr f sz off data w = (Inr (of_nat (length (overwrite (unat off) data bs))), w') \<and>
        confined w f w' \<and> holds w' f (overwrite (unat off) data bs)"
    and tr_holds: "holds w f bs \<Longrightarrow> unat sz = length bs \<Longrightarrow> unat n \<le> limit \<Longrightarrow>
      \<exists>w'. tr f sz n w = (Inr (), w') \<and> confined w f w' \<and> holds w' f (resize (unat n) bs)"
    and holds_frame: "holds w f bs \<Longrightarrow> disk w' f = disk w f \<Longrightarrow> fault_free w' \<Longrightarrow> holds w' f bs"
    and limit_word: "limit < 2 ^ 64"
begin

lemma write_then_read:
  assumes "holds w f bs" and "unat sz = length bs" and "length (overwrite (unat off) data bs) \<le> limit"
    and "unat off' + unat len < 2 ^ 64"
  obtains w' w'' where "wr f sz off data w = (Inr (of_nat (length (overwrite (unat off) data bs))), w')"
    and "rd f (of_nat (length (overwrite (unat off) data bs))) off' len w' =
      (Inr (segment (overwrite (unat off) data bs) (unat off') (unat len)), w'')"
proof -
  obtain w' where w': "wr f sz off data w = (Inr (of_nat (length (overwrite (unat off) data bs))), w')"
    "holds w' f (overwrite (unat off) data bs)"
    using wr_holds [OF assms(1-3)] by blast
  have "unat (of_nat (length (overwrite (unat off) data bs)) :: u64) = length (overwrite (unat off) data bs)"
    using assms(3) limit_word by (simp add: unat_of_nat)
  from rd_holds [OF w'(2) this assms(4)] w'(1) show ?thesis using that by blast
qed

lemma other_file:
  assumes "confined w f w'" and "holds w g bs" and "g \<noteq> f"
  shows "holds w' g bs"
  using holds_frame [OF assms(2)] confinedD [OF assms(1,3)] confined_fault_free [OF assms(1)] by blast

lemma run_holds:
  assumes "holds w f bs" and "unat sz = length bs" and "within limit bs ops"
  shows "\<exists>w'. (ops = [] \<and> w' = w \<or> confined w f w') \<and>
      run_file_ops (wr f) (tr f) sz ops w = (Inr (of_nat (length (foldl file_spec bs ops))), w') \<and>
      holds w' f (foldl file_spec bs ops)"
  using assms
proof (induction ops arbitrary: w bs sz)
  case Nil
  then show ?case by (auto simp: ret_def dest: unat_eqD)
next
  case (Cons op ops)
  let ?bs = "file_spec bs op"
  have len: "length ?bs \<le> limit" using Cons.prems(3) by (cases ops) auto
  obtain sz' w1 where 1: "run_file_ops (wr f) (tr f) sz (op # ops) w = run_file_ops (wr f) (tr f) sz' ops w1"
    "unat sz' = length ?bs" "confined w f w1" "holds w1 f ?bs"
  proof (cases op)
    case (WriteAt off data)
    then show thesis
      using wr_holds [OF Cons.prems(1,2), of off data] len limit_word that
      by (fastforce simp: bindE_def unat_of_nat)
  next
    case (TruncateTo n)
    then show thesis
      using tr_holds [OF Cons.prems(1,2), of n] len that by (fastforce simp: bindE_def)
  qed
  from Cons.IH [OF 1(4,2)] Cons.prems(3) show ?case
    using 1 by (auto intro: confined_trans)
qed

end

definition holds_blocks :: "prims \<Rightarrow> bytes \<Rightarrow> world \<Rightarrow> path \<Rightarrow> bytes \<Rightarrow> bool" where
  "holds_blocks P key w f bs \<longleftrightarrow> aead_laws P \<and> length key = 32 \<and> fault_free w \<and>
     length bs \<le> max_size \<and> represents P key (file_bytes w f) bs"

interpretation blocks: byte_store "read_range P key" "write_range P key" "truncate P key"
  "holds_blocks P key" max_size for P key
proof
  show "max_size < 2 ^ 64" by (simp add: max_size_def)
  show "holds_blocks P key w f bs \<Longrightarrow> disk w' f = disk w f \<Longrightarrow> fault_free w' \<Longrightarrow> holds_blocks P key w' f bs" for w w' f bs
    by (simp add: holds_blocks_def file_bytes_def)
next
  fix w f bs and sz off len :: u64
  assume "holds_blocks P key w f bs" "unat sz = length bs" "unat off + unat len < 2 ^ 64"
  then show "\<exists>w'. read_range P key f sz off len w = (Inr (segment bs (unat off) (unat len)), w') \<and> quiet w w'"
    by (intro read_range_ok) (simp_all add: holds_blocks_def)
next
  fix w f bs data and sz off :: u64
  assume "holds_blocks P key w f bs" "unat sz = length bs" "length (overwrite (unat off) data bs) \<le> max_size"
  then show "\<exists>w'. write_range P key f sz off data w = (Inr (of_nat (length (overwrite (unat off) data bs))), w') \<and>
      confined w f w' \<and> holds_blocks P key w' f (overwrite (unat off) data bs)"
    using write_range_ok [of P key w f bs sz off data]
    by (auto simp: holds_blocks_def confined_def dest: evolvedD(2))
next
  fix w f bs and sz n :: u64
  assume "holds_blocks P key w f bs" "unat sz = length bs" "unat n \<le> max_size"
  then show "\<exists>w'. truncate P key f sz n w = (Inr (), w') \<and> confined w f w' \<and> holds_blocks P key w' f (resize (unat n) bs)"
    using truncate_ok [of P key w f bs sz n]
    by (auto simp: holds_blocks_def confined_def dest: evolvedD(2))
qed

section \<open>Failed writes\<close>

definition keeps_prefix :: "path \<Rightarrow> nat \<Rightarrow> bytes \<Rightarrow> (path \<rightharpoonup> bytes) \<Rightarrow> world \<Rightarrow> bool" where
  "keeps_prefix f n X d w \<longleftrightarrow> length X = n \<and> (\<exists>raw. disk w f = Some (X @ raw)) \<and> (\<forall>q. q \<noteq> f \<longrightarrow> disk w q = d q)"

lemma keeps_prefix_tick [simp]: "keeps_prefix f n X d (tick w) = keeps_prefix f n X d w"
  by (simp add: keeps_prefix_def)

lemma overwrite_append:
  assumes "length X \<le> off"
  shows "overwrite off ys (X @ raw) = X @ overwrite (off - length X) ys raw"
  using assms by (simp add: overwrite_def resize_def)

lemma keeps_prefix_write_at:
  assumes "n \<le> unat off"
  shows "preserves (keeps_prefix f n X d) (fs_write_all_at f off ys)"
  unfolding fs_write_all_at_def
proof (intro preserves_intros)
  fix flt
  have "\<exists>raw'. put_at (unat off) zs (X @ raw) = X @ raw'" if "length X = n" for raw zs
    using that assms by (auto simp: put_at_def overwrite_append)
  then show "preserves (keeps_prefix f n X d) (\<lambda>w. case disk w f of
      None \<Rightarrow> (Inl IoError, w)
    | Some b \<Rightarrow> (case flt of
        None \<Rightarrow> (Inr (), w\<lparr>disk := (disk w)(f \<mapsto> put_at (unat off) ys b)\<rparr>)
      | Some k \<Rightarrow> (Inl IoError, w\<lparr>disk := (disk w)(f \<mapsto> put_at (unat off) (take k ys) b)\<rparr>)))"
    unfolding preserves_def keeps_prefix_def by (fastforce split: option.splits)
qed simp

lemma keeps_prefix_set_len:
  assumes "n \<le> unat len"
  shows "preserves (keeps_prefix f n X d) (fs_set_len f len)"
  unfolding fs_set_len_def
proof (intro preserves_intros)
  fix flt
  have "\<exists>raw'. resize (unat len) (X @ raw) = X @ raw'" if "length X = n" for raw
    using that assms by (auto simp: resize_def)
  then show "preserves (keeps_prefix f n X d) (\<lambda>w. case (flt, disk w f) of
      (None, Some b) \<Rightarrow> (Inr (), w\<lparr>disk := (disk w)(f \<mapsto> resize (unat len) b)\<rparr>)
    | _ \<Rightarrow> (Inl IoError, w))"
    unfolding preserves_def keeps_prefix_def by (fastforce split: option.splits)
qed simp

lemma keeps_prefix_encrypt_block: "preserves (keeps_prefix f n X d) (encrypt_block P key index pl)"
  unfolding encrypt_block_def random_nonce_def
  by (intro preserves_intros) (simp add: preserves_def fill_bytes_def keeps_prefix_def)

lemma keeps_prefix_open_rw: "preserves (keeps_prefix f n X d) (fs_open_rw f)"
  unfolding fs_open_rw_def
  by (intro preserves_intros) (auto simp: preserves_def keeps_prefix_def split: option.splits)

lemma keeps_prefix_write_blocks:
  assumes "\<forall>i \<in> set ixs. n \<le> unat (record_offset i)"
  shows "preserves (keeps_prefix f n X d) (write_blocks P key f sz new_size old_blocks offset data ixs)"
  using assms
proof (induction ixs)
  case (Cons i ixs)
  then show ?case
    unfolding write_blocks.simps read_block_def write_block_def
    by (intro preserves_intros preserves_read_only keeps_prefix_encrypt_block keeps_prefix_write_at) simp_all
qed (simp add: preserves_intros)

lemma first_touched_total:
  assumes "block_count n \<noteq> 0" and "unat n \<le> max_size" and "unat sz \<le> unat n" and "off \<le> unat n"
  shows "first_touched off (unat sz) * 65576 \<le> unat (record_offset (block_count n - 1) + record_len n (block_count n - 1))"
proof -
  have pos: "0 < unat n" using assms(1) unat_block_count [of n] by (metis gr0I nblocks_zero unat_eq_0)
  have "first_touched off (unat sz) \<le> nblocks (unat n)"
    using nblocks_mono [OF assms(3)] by (auto simp: first_touched_def)
  moreover have "first_touched off (unat sz) * 65536 \<le> unat n"
    using div_times_less_eq_dividend [of off 65536] assms(4) by (auto simp: first_touched_def min_def)
  ultimately show ?thesis
    unfolding unat_total_len(1) [OF pos assms(2)] enc_len_def by linarith
qed

section \<open>Replayed blocks\<close>

text \<open>
  What the authentication of associated data gives: a ciphertext does not open under
  different associated data of the same length.
\<close>

definition aead_binds :: "prims \<Rightarrow> bool" where
  "aead_binds P \<longleftrightarrow> (\<forall>k n a a' m c. aead_seal P k n a m = Some c \<and> length a = length a' \<and> length a = 8 \<and> a \<noteq> a' \<longrightarrow>
     aead_open P k n a' c = None)"

lemma aead_binds_sample: "aead_binds sample_prims"
  unfolding aead_binds_def
proof (intro allI impI, elim conjE)
  fix k n a a' m c :: bytes
  assume "aead_seal sample_prims k n a m = Some c" "length a = length a'" "length a = 8" "a \<noteq> a'"
  then have "c = m @ sample_tag k a" "sample_tag k a \<noteq> sample_tag k a'"
    using sample_tag_inj [of k a a'] by (auto simp: sample_seal_def split: if_splits)
  then show "aead_open sample_prims k n a' c = None"
    by (simp add: sample_open_def sample_seal_def)
qed

lemma decrypt_block_other_index:
  assumes "aead_laws P" and "aead_binds P" and "decrypt_block P key i c = Inr pl" and "i \<noteq> j"
  shows "decrypt_block P key j c = Inl DecryptFailed"
proof -
  let ?n = "take NONCE_LEN c" and ?c = "drop NONCE_LEN c"
  have c: "\<not> length c < NONCE_LEN + 16" "length key = KEY_LEN"
    and op: "aead_open P key ?n (to_le_bytes i) ?c = Some pl"
    using assms(3) by (auto simp: decrypt_block_def build_cipher_def split: if_splits)
  have "aead_seal P key ?n (to_le_bytes i) pl = Some ?c"
    using aead_seal_open [OF assms(1) op] .
  moreover have "to_le_bytes i \<noteq> to_le_bytes j" using assms(4) by (simp add: to_le_bytes_inj)
  ultimately have "aead_open P key ?n (to_le_bytes j) ?c = None"
    using assms(2) unfolding aead_binds_def by (metis length_to_le_bytes)
  then show ?thesis using c by (simp add: decrypt_block_def build_cipher_def)
qed

lemma read_block_replayed:
  assumes P: "aead_laws P" "aead_binds P" and w: "fault_free w" "disk w f = Some raw'"
    and rep: "represents P key raw bs" and sz: "unat sz = length bs" "length bs \<le> max_size"
    and ij: "i \<noteq> j" "Suc i * 65536 \<le> length bs" "Suc j * 65536 \<le> length bs"
    and swap: "segment raw' (i * 65576) 65576 = segment raw (j * 65576) 65576"
  shows "read_block P key f sz (of_nat i) w = (Inl DecryptFailed, tick w)"
proof -
  have i: "i * 65536 < length bs" and j: "j < nblocks (length bs)" using ij by (auto simp: nblocks_iff)
  have "block_ok P key raw j (plain_at bs j)" using rep j by (simp add: represents_def)
  moreover have full: "min 65536 (length bs - j * 65536) = 65536" "min 65536 (length bs - i * 65536) = 65536"
    using ij by auto
  ultimately have dj: "decrypt_block P key (of_nat j) (segment raw (j * 65576) 65576) = Inr (plain_at bs j)"
    and lj: "j * 65576 + 65576 \<le> length raw"
    by (simp_all add: block_ok_def full)
  have "length (segment raw' (i * 65576) 65576) = 65576" using swap lj by simp
  then have li: "i * 65576 + 65576 \<le> length raw'" by simp
  have jb: "j * 65536 < length bs" using ij(3) by simp
  have "(of_nat i :: u64) \<noteq> of_nat j"
    using in_range(4) [OF i sz(2)] in_range(4) [OF jb sz(2)] ij(1)
    by (simp add: of_nat_u64_eq)
  then have "decrypt_block P key (of_nat i) (segment raw' (i * 65576) 65576) = Inl DecryptFailed"
    using decrypt_block_other_index [OF P dj] swap by simp
  then show ?thesis
    using w li sz full
    by (simp add: read_block_def bindE_def fs_read_exact_at_ok throw_def
        unat_record_len [OF in_range(1) [OF i sz(2)]] unat_record_offset [OF in_range(2) [OF i sz(2)]])
qed


section \<open>Properties\<close>

definition sample_record :: "nat \<Rightarrow> bytes \<Rightarrow> bytes" where
  "sample_record i pl = replicate 24 0 @ pl @ sample_tag (replicate 32 0) (to_le_bytes (of_nat i))"

lemma length_sample_record [simp]: "length (sample_record i pl) = length pl + 40"
  by (simp add: sample_record_def)

lemma decrypt_sample_record:
  "length pl \<le> aead_max \<Longrightarrow> decrypt_block sample_prims (replicate 32 0) (of_nat i) (sample_record i pl) = Inr pl"
  by (simp add: decrypt_block_def build_cipher_def sample_record_def sample_open_def sample_seal_def)

lemma represents_two_blocks:
  assumes "length a = 65536" and "length b = 65536"
  shows "represents sample_prims (replicate 32 0) (sample_record 0 a @ sample_record 1 b) (a @ b)"
proof -
  have ok: "length a \<le> aead_max" "length b \<le> aead_max" using assms by (simp_all add: aead_max_def)
  have "nblocks (length (a @ b)) = 2" using assms by (simp add: nblocks_def)
  moreover have "plain_at (a @ b) 0 = a" "plain_at (a @ b) 1 = b"
    using assms by (simp_all add: plain_at_def segment_def)
  ultimately show ?thesis
    using assms decrypt_sample_record [OF ok(1), of 0] decrypt_sample_record [OF ok(2), of 1]
    by (auto simp: represents_def block_ok_def segment_def numeral_2_eq_2 less_Suc_eq)
qed

text \<open>
  C4: a data file behaves as a byte array.  Starting from a file that holds \<open>bs\<close>, any
  sequence of writes and truncations succeeds and returns the size the byte array would have,
  a read of any range then returns exactly that range of the byte array (gaps are zero), and no
  other file changes.
\<close>

theorem block_file_refines_byte_array:
  assumes "aead_laws P" and "length key = 32" and "fault_free w"
    and "represents P key (file_bytes w f) bs" and "unat sz = length bs"
    and "within max_size bs ops" and "unat offset + unat len < 2 ^ 64"
  shows "\<exists>w1 w2. run_file_ops (write_range P key f) (truncate P key f) sz ops w =
        (Inr (of_nat (length (foldl file_spec bs ops))), w1) \<and>
      read_range P key f (of_nat (length (foldl file_spec bs ops))) offset len w1 =
        (Inr (segment (foldl file_spec bs ops) (unat offset) (unat len)), w2) \<and>
      (\<forall>q. q \<noteq> f \<longrightarrow> disk w2 q = disk w q)"
proof -
  have "length bs \<le> max_size" using assms(6) by (cases ops) auto
  with assms have "holds_blocks P key w f bs" by (simp add: holds_blocks_def)
  then obtain w1 where w1: "ops = [] \<and> w1 = w \<or> confined w f w1"
      "run_file_ops (write_range P key f) (truncate P key f) sz ops w =
        (Inr (of_nat (length (foldl file_spec bs ops))), w1)"
      "holds_blocks P key w1 f (foldl file_spec bs ops)"
    using blocks.run_holds [of P key w f bs sz ops] assms(5,6) by blast
  have "length (foldl file_spec bs ops) < 2 ^ 64"
    using w1(3) by (simp add: holds_blocks_def max_size_def)
  then have "unat (of_nat (length (foldl file_spec bs ops)) :: u64) = length (foldl file_spec bs ops)"
    by (rule unat_of_nat_u64)
  with blocks.rd_holds [OF w1(3) _ assms(7)] obtain w2 where
    "read_range P key f (of_nat (length (foldl file_spec bs ops))) offset len w1 =
        (Inr (segment (foldl file_spec bs ops) (unat offset) (unat len)), w2)" "quiet w1 w2"
    by blast
  with w1 show ?thesis using quietD [of w1 w2] confinedD [of w f w1] by metis
qed

theorem block_file_refines_byte_array_witness:
  "\<exists>w1 w2. run_file_ops (write_range sample_prims (replicate 32 0) [''f'']) (truncate sample_prims (replicate 32 0) [''f''])
      0 [WriteAt 0 [1, 2, 3], WriteAt 5 [9], TruncateTo 4] (sample_world Map.empty) = (Inr 4, w1) \<and>
    read_range sample_prims (replicate 32 0) [''f''] 4 1 100 w1 = (Inr [2, 3, 0], w2)"
  using block_file_refines_byte_array [of sample_prims "replicate 32 0" "sample_world Map.empty" "[''f'']" "[]" 0
      "[WriteAt 0 [1, 2, 3], WriteAt 5 [9], TruncateTo 4]" 1 100]
  by (auto simp: overwrite_def resize_def segment_def max_size_def)

text \<open>
  C17: a block cannot be replayed at another index.  If the record of a full block \<open>i\<close> is
  replaced by the record of another full block \<open>j\<close> of the same file, every read that starts
  in block \<open>i\<close> is refused.
\<close>

theorem replayed_block_rejected:
  assumes P: "aead_laws P" "aead_binds P" and w: "fault_free w" "disk w f = Some raw'"
    and rep: "represents P key raw bs" and sz: "unat sz = length bs" "length bs \<le> max_size"
    and ij: "i \<noteq> j" "Suc i * 65536 \<le> length bs" "Suc j * 65536 \<le> length bs"
    and swap: "segment raw' (i * 65576) 65576 = segment raw (j * 65576) 65576"
    and rd: "unat offset div 65536 = i" "0 < unat len" "unat offset + unat len < 2 ^ 64"
  shows "fst (read_range P key f sz offset len w) = Inl DecryptFailed"
proof -
  have o: "unat offset < Suc i * 65536"
    using dividend_less_div_times [of 65536 "unat offset"] rd(1) by simp
  define end' where "end' = min (offset + len) sz"
  have "unat (offset + len) = unat offset + unat len"
    using rd(3) by (rule unat_plus)
  then have e: "unat end' = min (unat offset + unat len) (length bs)"
    by (simp add: end'_def u64_nat sz)
  have e1: "unat (end' - 1) = unat end' - 1"
    using e o rd(2) ij(2) by (intro unat_minus_one) auto
  have "i \<le> (unat end' - 1) div 65536"
    unfolding rd(1) [symmetric] using e o rd(2) ij(2) by (intro div_le_mono) auto
  then obtain rest where "u64_range_incl (offset div BLOCK_PLAINTEXT) ((end' - 1) div BLOCK_PLAINTEXT) = of_nat i # rest"
    by (auto simp: u64_range_incl_def unat_div e1 rd(1) upt_conv_Cons simp del: upt_Suc)
  moreover have "read_block P key f sz (of_nat i) (tick w) = (Inl DecryptFailed, tick (tick w))"
    by (rule read_block_replayed [OF P _ _ rep sz ij swap]) (use w in simp_all)
  moreover have "\<not> (offset \<ge> sz \<or> len = 0)"
    using o ij(2) sz rd(2) by (auto simp: word_le_nat_alt)
  ultimately show ?thesis
    using w by (simp add: read_range_def Let_def end'_def [symmetric] bindE_def fs_ok_present)
qed


theorem replayed_block_rejected_witness:
  "fst (read_range sample_prims (replicate 32 0) [''f''] 131072 0 16
     (sample_world [[''f''] \<mapsto> sample_record 1 (replicate 65536 7) @ sample_record 0 (replicate 65536 5)])) =
   Inl DecryptFailed"
  by (rule replayed_block_rejected [where raw = "sample_record 0 (replicate 65536 5) @ sample_record 1 (replicate 65536 7)"
        and bs = "replicate 65536 5 @ replicate 65536 7" and i = 0 and j = 1])
    (use aead_binds_sample in \<open>auto simp: segment_def max_size_def intro!: represents_two_blocks [simplified]\<close>)

text \<open>
  C18: whatever file operation fails, and however much of a buffer was written before it
  failed, a write leaves every record before the first block it touches and every other file
  as they were.
\<close>

theorem failed_write_keeps_prefix:
  assumes sz: "unat sz \<le> max_size" "unat offset + length data \<le> max_size"
    and w: "disk w f = Some (X @ raw)"
    and X: "length X = first_touched (unat offset) (unat sz) * 65576"
  shows "(\<exists>raw'. disk (snd (write_range P key f sz offset data w)) f = Some (X @ raw')) \<and>
    (\<forall>q. q \<noteq> f \<longrightarrow> disk (snd (write_range P key f sz offset data w)) q = disk w q)"
proof -
  let ?tf = "first_touched (unat offset) (unat sz)" and ?n = "max sz (offset + of_nat (length data))"
  let ?I = "keeps_prefix f (?tf * 65576) X (disk w)"
  have "unat (offset + of_nat (length data)) = unat offset + length data"
    using sz(2) by (subst unat_plus) (simp_all add: unat_of_nat max_size_def)
  then have n: "unat ?n = max (unat sz) (unat offset + length data)" by (simp add: u64_nat)
  then have nm: "unat ?n \<le> max_size" using sz by simp
  have "?tf * 65576 \<le> unat (record_offset (of_nat i))" if "?tf \<le> i" "i < nblocks (unat ?n)" for i
    using that in_range(2) [OF _ nm, of i] by (simp add: nblocks_iff unat_record_offset)
  then have loop: "preserves ?I (write_blocks P key f sz ?n (block_count sz) offset data
      (u64_range (min (offset div BLOCK_PLAINTEXT) (saturating_sub (block_count sz) 1)) (block_count ?n)))"
    by (intro keeps_prefix_write_blocks) (auto simp: u64_range_def unat_first_touched unat_block_count)
  have total: "?tf * 65576 \<le> unat (record_offset (block_count ?n - 1) + record_len ?n (block_count ?n - 1))"
    if "block_count ?n \<noteq> 0"
    using that nm n by (intro first_touched_total) simp_all
  have "preserves ?I (write_range P key f sz offset data)"
    unfolding write_range_def Let_def
    by (intro preserves_intros loop keeps_prefix_open_rw keeps_prefix_set_len total)
  moreover have "?I w" using w X by (simp add: keeps_prefix_def)
  ultimately have "?I (snd (write_range P key f sz offset data w))" by (simp add: preserves_def)
  then show ?thesis by (auto simp: keeps_prefix_def)
qed

theorem failed_write_keeps_prefix_witness:
  "\<exists>raw'. disk (snd (write_range sample_prims (replicate 32 0) [''f''] 131072 65540 [1, 2]
      ((sample_world [[''f''] \<mapsto> sample_record 0 (replicate 65536 5) @ sample_record 1 (replicate 65536 7)])
        \<lparr>faults := [None, None, Some 12]\<rparr>))) [''f''] = Some (sample_record 0 (replicate 65536 5) @ raw')"
  by (rule failed_write_keeps_prefix [where raw = "sample_record 1 (replicate 65536 7)", THEN conjunct1])
    (simp_all add: max_size_def first_touched_def nblocks_def)


end
