(* ===== verification/Inner.thy ===== *)
theory Inner
  imports Entry Ordered_Map Blocks
begin

text \<open>
  The metadata of a mounted volume (\<open>src/fs/inner.rs\<close>): the entries by inode number, the
  two indexes derived from them, and the encrypted index file they are saved to.
  A \<open>HashMap\<close> is a partial function, \<open>BTreeMap\<close> and \<open>BTreeSet\<close> are those of
  \<open>Ordered_Map\<close>.  Methods taking \<open>&mut self\<close> return the new state.
\<close>

section \<open>State\<close>

type_synonym entry_map = "(u64, entry) btree"

record pqfs_inner =
  backend :: path
  entries :: entry_map
  next_ino :: u64
  children :: "u64 \<times> bytes \<rightharpoonup> u64"
  by_parent :: "u64 \<rightharpoonup> u64 list"
  dirty :: bool

definition INDEX_FILE :: string where "INDEX_FILE = ''pqfs.index''"
definition BLOCK_SIZE :: u64 where "BLOCK_SIZE = 512"
definition FUSE_ROOT_ID :: u64 where "FUSE_ROOT_ID = 1"

text \<open>\<open>Path::file_stem\<close> and \<open>Path::with_extension\<close>, on the last component.\<close>

definition file_stem :: "string \<Rightarrow> string" where
  "file_stem s =
     (let rest = dropWhile (\<lambda>c. c \<noteq> CHR ''.'') (rev s) in
      if s = ''..'' \<or> rest = [] \<or> tl rest = [] then s else rev (tl rest))"

definition with_extension :: "path \<Rightarrow> string \<Rightarrow> path" where
  "with_extension p ext = butlast p @ [file_stem (List.last p) @ ''.'' @ ext]"

text \<open>\<open>format!("{}", n)\<close>\<close>

fun dec :: "nat \<Rightarrow> string" where
  "dec n = (if n < 10 then [char_of (48 + n)] else dec (n div 10) @ [char_of (48 + n mod 10)])"

declare dec.simps [simp del]

section \<open>The derived indexes\<close>

definition link :: "u64 \<Rightarrow> u64 \<Rightarrow> bytes \<Rightarrow> pqfs_inner \<Rightarrow> pqfs_inner" where
  "link ino par name_hash s = s\<lparr>
     children := (children s)((par, name_hash) \<mapsto> ino),
     by_parent := (by_parent s)(par \<mapsto>
       bs_insert ino (case by_parent s par of None \<Rightarrow> [] | Some l \<Rightarrow> l))\<rparr>"

definition unlink_index :: "u64 \<Rightarrow> u64 \<Rightarrow> bytes \<Rightarrow> pqfs_inner \<Rightarrow> pqfs_inner" where
  "unlink_index ino par name_hash s = s\<lparr>
     children := (if children s (par, name_hash) = Some ino
                  then (children s)((par, name_hash) := None) else children s),
     by_parent := (case by_parent s par of
         None \<Rightarrow> by_parent s
       | Some l \<Rightarrow> (let l' = bs_remove ino l in
           if l' = [] then (by_parent s)(par := None) else (by_parent s)(par \<mapsto> l')))\<rparr>"

definition rebuild_indexes :: "pqfs_inner \<Rightarrow> pqfs_inner" where
  "rebuild_indexes s =
     fold (\<lambda>(ino, par, name_hash). link ino par name_hash)
       (map (\<lambda>e. (e_ino e, e_parent e, e_name_hash e))
         (filter (\<lambda>e. e_ino e \<noteq> FUSE_ROOT_ID) (bt_values (entries s))))
       (s\<lparr>children := Map.empty, by_parent := Map.empty\<rparr>)"

definition insert_entry :: "entry \<Rightarrow> pqfs_inner \<Rightarrow> pqfs_inner" where
  "insert_entry e s =
     (let s1 = (case bt_get (e_ino e) (entries s) of
           None \<Rightarrow> s
         | Some prev \<Rightarrow> unlink_index (e_ino e) (e_parent prev) (e_name_hash prev) s);
          s2 = (if e_ino e \<noteq> FUSE_ROOT_ID then link (e_ino e) (e_parent e) (e_name_hash e) s1 else s1)
      in s2\<lparr>entries := bt_insert (e_ino e) e (entries s2)\<rparr>)"

definition remove_entry :: "u64 \<Rightarrow> pqfs_inner \<Rightarrow> entry option \<times> pqfs_inner" where
  "remove_entry ino s =
     (case bt_get ino (entries s) of
        None \<Rightarrow> (None, s)
      | Some e \<Rightarrow> (Some e, unlink_index ino (e_parent e) (e_name_hash e)
          (s\<lparr>entries := bt_remove ino (entries s)\<rparr>)))"

definition relink :: "u64 \<Rightarrow> u64 \<Rightarrow> bytes \<Rightarrow> bytes \<Rightarrow> pqfs_inner \<Rightarrow> world \<Rightarrow> pqfs_inner \<times> world" where
  "relink ino new_parent new_name_hash new_name_encrypted s w =
     (case bt_get ino (entries s) of
        None \<Rightarrow> (s, w)
      | Some e \<Rightarrow>
          let s1 = unlink_index ino (e_parent e) (e_name_hash e) s;
              (t, w1) = touch_changed (e_times e) w;
              e' = e\<lparr>e_parent := new_parent, e_name_hash := new_name_hash,
                     e_name_encrypted := new_name_encrypted, e_times := t\<rparr>;
              s2 = s1\<lparr>entries := bt_insert ino e' (entries s1)\<rparr>
          in (link ino new_parent new_name_hash s2, w1))"

definition child_inodes :: "pqfs_inner \<Rightarrow> u64 \<Rightarrow> entry list" where
  "child_inodes s par =
     List.map_filter (\<lambda>ino. bt_get ino (entries s))
       (case by_parent s par of None \<Rightarrow> [] | Some l \<Rightarrow> l)"

definition has_children :: "pqfs_inner \<Rightarrow> u64 \<Rightarrow> bool" where
  "has_children s par = (case by_parent s par of None \<Rightarrow> False | Some l \<Rightarrow> l \<noteq> [])"

definition mark_dirty :: "pqfs_inner \<Rightarrow> pqfs_inner" where
  "mark_dirty s = s\<lparr>dirty := True\<rparr>"

definition allocate_ino :: "pqfs_inner \<Rightarrow> u64 \<times> pqfs_inner" where
  "allocate_ino s = (next_ino s, s\<lparr>next_ino := next_ino s + 1\<rparr>)"

definition data_path :: "pqfs_inner \<Rightarrow> u64 \<Rightarrow> path" where
  "data_path s ino = (backend s @ [''data'']) @ [dec (unat ino)]"

definition find_child :: "prims \<Rightarrow> crypto \<Rightarrow> pqfs_inner \<Rightarrow> u64 \<Rightarrow> bytes \<Rightarrow> entry option" where
  "find_child P cr s par os_name =
     (let name = to_string_lossy os_name in
      case children s (par, hash_filename P cr name) of
        None \<Rightarrow> None
      | Some ino \<Rightarrow> (case bt_get ino (entries s) of
          None \<Rightarrow> None
        | Some e \<Rightarrow> (case decrypt_filename P cr (e_name_encrypted e) of
            Inl _ \<Rightarrow> None
          | Inr decrypted \<Rightarrow> if decrypted = name then Some e else None)))"

section \<open>Attributes\<close>

record file_attr =
  attr_ino :: u64
  attr_size :: u64
  attr_blocks :: u64
  attr_atime :: system_time
  attr_mtime :: system_time
  attr_ctime :: system_time
  attr_crtime :: system_time
  attr_kind :: fuse_type
  attr_perm :: u16
  attr_nlink :: u32
  attr_uid :: u32
  attr_gid :: u32
  attr_rdev :: u32
  attr_flags :: u32
  attr_blksize :: u32

definition attr_for :: "entry \<Rightarrow> file_attr" where
  "attr_for e = \<lparr>
     attr_ino = e_ino e,
     attr_size = e_size e,
     attr_blocks = div_ceil (e_size e) BLOCK_SIZE,
     attr_atime = to_system_time (atime (e_times e)),
     attr_mtime = to_system_time (mtime (e_times e)),
     attr_ctime = to_system_time (ctime (e_times e)),
     attr_crtime = to_system_time (crtime (e_times e)),
     attr_kind = file_type (e_kind e),
     attr_perm = e_perm e,
     attr_nlink = 1,
     attr_uid = e_uid e,
     attr_gid = e_gid e,
     attr_rdev = 0,
     attr_flags = 0,
     attr_blksize = 4096\<rparr>"

section \<open>The index file\<close>

definition save_index :: "prims \<Rightarrow> entry_map codec \<Rightarrow> crypto \<Rightarrow> pqfs_inner \<Rightarrow> pqfs_inner io" where
  "save_index P C cr s =
     bindE (lift (bincode_serialize C (entries s))) (\<lambda>plaintext.
     bindE (encrypt P cr plaintext) (\<lambda>ciphertext.
     let index_path = backend s @ [INDEX_FILE]; tmp = with_extension index_path ''tmp'' in
     bindE (fs_create tmp) (\<lambda>_.
     bindE (fs_write_all_at tmp 0 ciphertext) (\<lambda>_.
     bindE (fs_sync_all tmp) (\<lambda>_.
     bindE (fs_rename tmp index_path) (\<lambda>_.
     bindE (fs_sync_dir (backend s)) (\<lambda>_.
     ret (s\<lparr>dirty := False\<rparr>))))))))"

definition flush_index :: "prims \<Rightarrow> entry_map codec \<Rightarrow> crypto \<Rightarrow> pqfs_inner \<Rightarrow> pqfs_inner io" where
  "flush_index P C cr s = (if \<not> dirty s then ret s else save_index P C cr s)"

definition load_entries :: "prims \<Rightarrow> entry_map codec \<Rightarrow> path \<Rightarrow> crypto \<Rightarrow> (entry_map \<times> u64) io" where
  "load_entries P C back cr w =
     (let index_path = back @ [INDEX_FILE] in
      if fs_exists index_path w then
        bindE (fs_read index_path) (\<lambda>data.
        bindE (lift (decrypt P cr data)) (\<lambda>plaintext.
        bindE (lift (bincode_deserialize C plaintext)) (\<lambda>m.
        ret (m, (case bt_last_key m of None \<Rightarrow> FUSE_ROOT_ID | Some k \<Rightarrow> k) + 1)))) w
      else
        bindE (encrypt_filename P cr []) (\<lambda>root_name w.
        let (t, w') = timestamps_now w in
        ret (bt_insert FUSE_ROOT_ID \<lparr>
               e_ino = FUSE_ROOT_ID,
               e_parent = FUSE_ROOT_ID,
               e_name_hash = hash_filename P cr [],
               e_name_encrypted = root_name,
               e_content_key = [],
               e_kind = Dir,
               e_size = 0,
               e_perm = 493,
               e_uid = fst (ids w),
               e_gid = snd (ids w),
               e_times = t,
               e_link_target = []\<rparr> [], FUSE_ROOT_ID + 1) w') w)"

definition load :: "prims \<Rightarrow> entry_map codec \<Rightarrow> path \<Rightarrow> crypto \<Rightarrow> pqfs_inner io" where
  "load P C back cr =
     bindE (fs_create_dir_all back) (\<lambda>_.
     bindE (fs_create_dir_all (back @ [''data''])) (\<lambda>_.
     bindE (load_entries P C back cr) (\<lambda>(es, next).
     ret (rebuild_indexes \<lparr>backend = back, entries = es, next_ino = next,
       children = Map.empty, by_parent = Map.empty, dirty = False\<rparr>))))"

section \<open>Changing the master key\<close>

definition rekey_entry :: "prims \<Rightarrow> crypto \<Rightarrow> crypto \<Rightarrow> entry \<Rightarrow> entry io" where
  "rekey_entry P old new e =
     bindE (if e_content_key e \<noteq> [] then
              bindE (lift (decrypt P old (e_content_key e))) (\<lambda>k.
              bindE (encrypt P new k) (\<lambda>k'.
              ret (e\<lparr>e_content_key := k'\<rparr>)))
            else ret e) (\<lambda>e.
     bindE (if e_name_encrypted e \<noteq> [] then
              bindE (lift (decrypt_filename P old (e_name_encrypted e))) (\<lambda>name.
              bindE (encrypt_filename P new name) (\<lambda>n'.
              ret (e\<lparr>e_name_encrypted := n', e_name_hash := hash_filename P new name\<rparr>)))
            else ret e) (\<lambda>e.
     if e_link_target e \<noteq> [] then
       bindE (lift (decrypt_filename P old (e_link_target e))) (\<lambda>t.
       bindE (encrypt_filename P new t) (\<lambda>t'.
       ret (e\<lparr>e_link_target := t'\<rparr>)))
     else ret e))"

fun rekey_entries :: "prims \<Rightarrow> crypto \<Rightarrow> crypto \<Rightarrow> entry_map \<Rightarrow> entry_map io" where
  "rekey_entries P old new [] = ret []"
| "rekey_entries P old new ((k, e) # m) =
     bindE (rekey_entry P old new e) (\<lambda>e'.
     bindE (rekey_entries P old new m) (\<lambda>m'.
     ret ((k, e') # m')))"

definition rekey_index :: "prims \<Rightarrow> entry_map codec \<Rightarrow> path \<Rightarrow> crypto \<Rightarrow> crypto \<Rightarrow> bytes io" where
  "rekey_index P C back old new w =
     (let index_path = back @ [INDEX_FILE] in
      bindE (if fs_exists index_path w then
               bindE (fs_read index_path) (\<lambda>data.
               bindE (lift (decrypt P old data)) (\<lambda>plaintext.
               lift (bincode_deserialize C plaintext)))
             else ret []) (\<lambda>m.
      bindE (rekey_entries P old new m) (\<lambda>m'.
      bindE (lift (bincode_serialize C m')) (\<lambda>b.
      encrypt P new b))) w)"


section \<open>What the derived indexes mean\<close>

text \<open>
  \<open>links s\<close> is the set of (inode, parent, name hash) triples of the entries other than the
  root; \<open>indexes R s\<close> says that the two derived indexes describe exactly the triples in \<open>R\<close>.
\<close>

definition kids :: "pqfs_inner \<Rightarrow> u64 \<Rightarrow> u64 list" where
  "kids s p = (case by_parent s p of None \<Rightarrow> [] | Some l \<Rightarrow> l)"

definition links :: "pqfs_inner \<Rightarrow> (u64 \<times> u64 \<times> bytes) set" where
  "links s = {(i, p, h). \<exists>e. bt_get i (entries s) = Some e \<and> i \<noteq> FUSE_ROOT_ID \<and>
     e_parent e = p \<and> e_name_hash e = h}"

definition indexes :: "(u64 \<times> u64 \<times> bytes) set \<Rightarrow> pqfs_inner \<Rightarrow> bool" where
  "indexes R s \<longleftrightarrow>
     (\<forall>p h i. children s (p, h) = Some i \<longleftrightarrow> (i, p, h) \<in> R) \<and>
     (\<forall>p. bs_inv (kids s p) \<and> set (kids s p) = {i. \<exists>h. (i, p, h) \<in> R} \<and> by_parent s p \<noteq> Some [])"

definition keys_ok :: "pqfs_inner \<Rightarrow> bool" where
  "keys_ok s \<longleftrightarrow> bt_inv (entries s) \<and> (\<forall>k e. bt_get k (entries s) = Some e \<longrightarrow> e_ino e = k)"

definition index_ok :: "pqfs_inner \<Rightarrow> bool" where
  "index_ok s \<longleftrightarrow> keys_ok s \<and> indexes (links s) s"

lemma indexes_frame:
  "children s' = children s \<Longrightarrow> by_parent s' = by_parent s \<Longrightarrow> indexes R s' = indexes R s"
  by (simp add: indexes_def kids_def)

lemma indexes_unique:
  assumes "indexes R s" and "indexes R s'"
  shows "children s' = children s" and "by_parent s' = by_parent s"
proof -
  have "children s' (p, h) = children s (p, h)" for p h
    using assms unfolding indexes_def by (metis option.exhaust)
  then show "children s' = children s" by auto
  show "by_parent s' = by_parent s"
  proof (rule ext)
    fix p
    have "kids s' p = kids s p"
      using assms by (intro bs_eqI) (simp_all add: indexes_def)
    moreover have "by_parent s p \<noteq> Some []" "by_parent s' p \<noteq> Some []"
      using assms by (simp_all add: indexes_def)
    ultimately show "by_parent s' p = by_parent s p"
      by (auto simp: kids_def split: option.splits)
  qed
qed

lemma indexes_empty: "indexes {} (s\<lparr>children := Map.empty, by_parent := Map.empty\<rparr>)"
  by (simp add: indexes_def kids_def)

lemma indexes_link:
  assumes "indexes R s" and "\<And>i'. (i', p, h) \<in> R \<Longrightarrow> i' = i"
  shows "indexes (insert (i, p, h) R) (link i p h s)"
proof -
  have k: "kids (link i p h s) q = (if q = p then bs_insert i (kids s p) else kids s q)" for q
    by (simp add: kids_def link_def)
  show ?thesis
    using assms
    by (auto simp: indexes_def k bs_insert_inv) (auto simp: link_def split: if_splits)
qed

lemma indexes_unlink:
  assumes "indexes R s" and "\<And>h'. (i, p, h') \<in> R \<Longrightarrow> h' = h"
  shows "indexes (R - {(i, p, h)}) (unlink_index i p h s)"
proof -
  have k: "kids (unlink_index i p h s) q = (if q = p then bs_remove i (kids s p) else kids s q)" for q
    by (simp add: kids_def unlink_index_def Let_def bs_remove_def split: option.splits)
  have c: "children (unlink_index i p h s) (q, g) = Some j \<longleftrightarrow> (j, q, g) \<in> R - {(i, p, h)}" for q g j
  proof -
    have R: "children s (q, g) = Some j \<longleftrightarrow> (j, q, g) \<in> R" for q g j
      using assms(1) by (simp add: indexes_def)
    have "j = i" if "(j, p, h) \<in> R" "(i, p, h) \<in> R"
      using that R by (metis option.inject)
    then show ?thesis
      unfolding unlink_index_def by (auto simp: R)
  qed
  have n: "by_parent (unlink_index i p h s) q \<noteq> Some []" for q
    using assms(1) by (auto simp: indexes_def unlink_index_def Let_def split: option.splits)
  have "set (kids (unlink_index i p h s) q) = {j. \<exists>g. (j, q, g) \<in> R - {(i, p, h)}}" for q
  proof -
    have "set (kids s q) = {j. \<exists>g. (j, q, g) \<in> R}" using assms(1) by (simp add: indexes_def)
    then show ?thesis using assms(2) by (cases "q = p") (auto simp: k)
  qed
  moreover have "bs_inv (kids (unlink_index i p h s) q)" for q
    using assms(1) by (simp add: k indexes_def bs_remove_inv)
  ultimately show ?thesis
    using c n by (simp add: indexes_def)
qed

lemma link_sel [simp]:
  "entries (link i p h s) = entries s" "backend (link i p h s) = backend s"
  "next_ino (link i p h s) = next_ino s" "dirty (link i p h s) = dirty s"
  by (simp_all add: link_def)

lemma unlink_index_sel [simp]:
  "entries (unlink_index i p h s) = entries s" "backend (unlink_index i p h s) = backend s"
  "next_ino (unlink_index i p h s) = next_ino s" "dirty (unlink_index i p h s) = dirty s"
  by (simp_all add: unlink_index_def)

section \<open>The operations keep the indexes exact\<close>

lemma links_iff: "(i, p, h) \<in> links s \<longleftrightarrow>
    (\<exists>e. bt_get i (entries s) = Some e \<and> i \<noteq> FUSE_ROOT_ID \<and> e_parent e = p \<and> e_name_hash e = h)"
  by (simp add: links_def)

lemma links_inode: "(i, p, h) \<in> links s \<Longrightarrow> (i, p', h') \<in> links s \<Longrightarrow> p' = p \<and> h' = h"
  by (auto simp: links_iff)

lemma index_ok_unique: "index_ok s \<Longrightarrow> (i, p, h) \<in> links s \<Longrightarrow> (j, p, h) \<in> links s \<Longrightarrow> i = j"
  unfolding index_ok_def indexes_def by (metis option.inject)

lemma index_ok_children: "index_ok s \<Longrightarrow> children s (p, h) = Some i \<longleftrightarrow> (i, p, h) \<in> links s"
  by (simp add: index_ok_def indexes_def)

lemma index_ok_kids: "index_ok s \<Longrightarrow> i \<in> set (kids s p) \<longleftrightarrow> (\<exists>h. (i, p, h) \<in> links s)"
  by (simp add: index_ok_def indexes_def)

lemma index_ok_frame:
  "entries s' = entries s \<Longrightarrow> children s' = children s \<Longrightarrow> by_parent s' = by_parent s \<Longrightarrow>
   index_ok s' = index_ok s"
  by (simp add: index_ok_def keys_ok_def links_def indexes_frame [of s' s])

lemma index_ok_insert_entry:
  assumes ok: "index_ok s"
    and free: "\<And>j. (j, e_parent e, e_name_hash e) \<in> links s \<Longrightarrow> j = e_ino e"
  shows "index_ok (insert_entry e s)"
proof -
  let ?i = "e_ino e"
  define s1 where "s1 = (case bt_get ?i (entries s) of None \<Rightarrow> s
      | Some prev \<Rightarrow> unlink_index ?i (e_parent prev) (e_name_hash prev) s)"
  define R where "R = {(j, p, h) \<in> links s. j \<noteq> ?i}"
  have s1: "indexes R s1" and e1: "entries s1 = entries s"
  proof -
    have "indexes R s1"
    proof (cases "bt_get ?i (entries s)")
      case None
      then have "R = links s" by (auto simp: R_def links_iff)
      with None ok show ?thesis by (simp add: s1_def index_ok_def)
    next
      case (Some prev)
      then have "R = links s - {(?i, e_parent prev, e_name_hash prev)}"
        by (auto simp: R_def links_iff)
      moreover have "indexes (links s - {(?i, e_parent prev, e_name_hash prev)}) s1"
        unfolding s1_def Some option.case
        by (rule indexes_unlink) (use ok Some in \<open>auto simp: index_ok_def links_iff\<close>)
      ultimately show ?thesis by simp
    qed
    then show "indexes R s1" "entries s1 = entries s"
      by (auto simp: s1_def split: option.splits)
  qed
  define s2 where "s2 = (if ?i \<noteq> FUSE_ROOT_ID then link ?i (e_parent e) (e_name_hash e) s1 else s1)"
  have run: "insert_entry e s = s2\<lparr>entries := bt_insert ?i e (entries s)\<rparr>"
    by (simp add: insert_entry_def s1_def [symmetric] s2_def [symmetric] e1 Let_def)
      (simp add: s2_def e1)
  have inv: "bt_inv (entries s)" using ok by (simp add: index_ok_def keys_ok_def)
  have L: "links (insert_entry e s) =
      (if ?i \<noteq> FUSE_ROOT_ID then insert (?i, e_parent e, e_name_hash e) R else R)"
    by (auto simp: run links_iff R_def bt_get_insert split: if_splits)
  have "indexes (links (insert_entry e s)) s2"
    unfolding L s2_def using s1 free by (auto simp: R_def intro!: indexes_link)
  moreover have "keys_ok (insert_entry e s)"
    using ok inv by (auto simp: run index_ok_def keys_ok_def bt_get_insert bt.inv_put)
  ultimately show ?thesis
    by (simp add: index_ok_def run indexes_frame [of "s2\<lparr>entries := bt_insert ?i e (entries s)\<rparr>" s2])
qed

lemma index_ok_remove_entry:
  assumes ok: "index_ok s"
  shows "index_ok (snd (remove_entry i s))"
proof (cases "bt_get i (entries s)")
  case None
  with ok show ?thesis by (simp add: remove_entry_def)
next
  case (Some e)
  let ?s = "s\<lparr>entries := bt_remove i (entries s)\<rparr>"
  have run: "snd (remove_entry i s) = unlink_index i (e_parent e) (e_name_hash e) ?s"
    by (simp add: remove_entry_def Some)
  have L: "links (snd (remove_entry i s)) = links s - {(i, e_parent e, e_name_hash e)}"
    using Some by (auto simp: run links_iff bt_get_remove split: if_splits)
  have "indexes (links s) ?s" using ok by (simp add: index_ok_def indexes_frame [of ?s s])
  then have "indexes (links (snd (remove_entry i s))) (snd (remove_entry i s))"
    unfolding L unfolding run
    by (rule indexes_unlink) (use Some in \<open>auto simp: links_iff\<close>)
  moreover have "keys_ok (snd (remove_entry i s))"
    using ok by (simp add: run index_ok_def keys_ok_def bt_get_remove bt.inv_del)
  ultimately show ?thesis by (simp add: index_ok_def)
qed

lemma entries_remove_entry [simp]:
  "entries (snd (remove_entry i s)) = bt_remove i (entries s)"
  "backend (snd (remove_entry i s)) = backend s" "next_ino (snd (remove_entry i s)) = next_ino s"
proof -
  have "bt_remove i m = m" if "bt_get i m = None" for m :: entry_map
    using that by (induction m) (auto simp: bt_remove_def bt_get_def split: if_splits)
  then show "entries (snd (remove_entry i s)) = bt_remove i (entries s)"
    by (simp add: remove_entry_def split: option.splits)
qed (simp_all add: remove_entry_def split: option.splits)

lemma entries_insert_entry [simp]:
  "entries (insert_entry e s) = bt_insert (e_ino e) e (entries s)"
  "backend (insert_entry e s) = backend s" "next_ino (insert_entry e s) = next_ino s"
  by (simp_all add: insert_entry_def Let_def split: option.splits)

lemma relink_run:
  assumes "bt_get i (entries s) = Some e"
  obtains t where "relink i p h n s w =
    (link i p h ((unlink_index i (e_parent e) (e_name_hash e) s)
       \<lparr>entries := bt_insert i (e\<lparr>e_parent := p, e_name_hash := h, e_name_encrypted := n, e_times := t\<rparr>) (entries s)\<rparr>),
     drop_clock w)"
proof -
  obtain t where "touch_changed (e_times e) w = (t, drop_clock w)"
    by (metis prod.collapse touch_run(1))
  with assms that show thesis by (simp add: relink_def Let_def)
qed

lemma index_ok_relink:
  assumes ok: "index_ok s" and e: "bt_get i (entries s) = Some e" and i: "i \<noteq> FUSE_ROOT_ID"
    and free: "\<And>j. (j, p, h) \<in> links s \<Longrightarrow> j = i"
  shows "index_ok (fst (relink i p h n s w))"
proof -
  obtain t where r: "relink i p h n s w =
    (link i p h ((unlink_index i (e_parent e) (e_name_hash e) s)
       \<lparr>entries := bt_insert i (e\<lparr>e_parent := p, e_name_hash := h, e_name_encrypted := n, e_times := t\<rparr>) (entries s)\<rparr>),
     drop_clock w)"
    using relink_run [OF e] by blast
  let ?u = "unlink_index i (e_parent e) (e_name_hash e) s" and ?R = "links s - {(i, e_parent e, e_name_hash e)}"
  let ?m = "bt_insert i (e\<lparr>e_parent := p, e_name_hash := h, e_name_encrypted := n, e_times := t\<rparr>) (entries s)"
  have "indexes ?R ?u"
    by (rule indexes_unlink) (use ok e in \<open>auto simp: index_ok_def links_iff\<close>)
  then have "indexes ?R (?u\<lparr>entries := ?m\<rparr>)" by (simp add: indexes_frame [of "?u\<lparr>entries := ?m\<rparr>" ?u])
  then have "indexes (insert (i, p, h) ?R) (fst (relink i p h n s w))"
    unfolding r fst_conv by (rule indexes_link) (use free in auto)
  moreover have "links (fst (relink i p h n s w)) = insert (i, p, h) ?R"
    using e i by (auto simp: r links_iff bt_get_insert split: if_splits)
  moreover have "keys_ok (fst (relink i p h n s w))"
    using ok e by (auto simp: r index_ok_def keys_ok_def bt_get_insert bt.inv_put)
  ultimately show ?thesis by (simp add: index_ok_def)
qed

lemma rebuild_indexes_sel [simp]:
  "entries (rebuild_indexes s) = entries s" "backend (rebuild_indexes s) = backend s"
  "next_ino (rebuild_indexes s) = next_ino s" "dirty (rebuild_indexes s) = dirty s"
proof -
  have f: "f (fold (\<lambda>(i, p, h). link i p h) xs s) = f s"
    if "\<And>i p h s. f (link i p h s) = f s" for f :: "pqfs_inner \<Rightarrow> 'a" and xs s
    by (induction xs arbitrary: s) (simp_all add: that case_prod_beta)
  show "entries (rebuild_indexes s) = entries s" "backend (rebuild_indexes s) = backend s"
    "next_ino (rebuild_indexes s) = next_ino s" "dirty (rebuild_indexes s) = dirty s"
    unfolding rebuild_indexes_def by (subst f; simp)+
qed

lemma indexes_fold_link:
  assumes "indexes R s" and "\<And>i j p h. (i, p, h) \<in> R \<union> set xs \<Longrightarrow> (j, p, h) \<in> R \<union> set xs \<Longrightarrow> i = j"
  shows "indexes (R \<union> set xs) (fold (\<lambda>(i, p, h). link i p h) xs s)"
  using assms
proof (induction xs arbitrary: R s)
  case (Cons x xs)
  obtain i p h where x: "x = (i, p, h)" by (cases x)
  have "indexes (insert (i, p, h) R) (link i p h s)"
    by (rule indexes_link [OF Cons.prems(1)]) (rule Cons.prems(2) [of _ p h], simp_all add: x)
  then have "indexes (insert (i, p, h) R \<union> set xs) (fold (\<lambda>(i, p, h). link i p h) xs (link i p h s))"
    by (rule Cons.IH) (rule Cons.prems(2), simp_all add: x insert_commute)
  then show ?case by (simp add: x)
qed simp

text \<open>Two entries never share a parent and a name hash.\<close>

definition links_inj :: "pqfs_inner \<Rightarrow> bool" where
  "links_inj s \<longleftrightarrow> (\<forall>i j p h. (i, p, h) \<in> links s \<longrightarrow> (j, p, h) \<in> links s \<longrightarrow> i = j)"

lemma index_ok_rebuild:
  assumes "keys_ok s" and "links_inj s"
  shows "index_ok (rebuild_indexes s)"
proof -
  let ?xs = "map (\<lambda>e. (e_ino e, e_parent e, e_name_hash e))
    (filter (\<lambda>e. e_ino e \<noteq> FUSE_ROOT_ID) (bt_values (entries s)))"
  have inv: "bt_inv (entries s)" using assms by (simp add: keys_ok_def)
  have ino: "e_ino e = k" if "bt_get k (entries s) = Some e" for k e
    using assms(1) that by (simp add: keys_ok_def)
  have v: "e \<in> set (bt_values (entries s)) \<longleftrightarrow> bt_get (e_ino e) (entries s) = Some e" for e
    unfolding bt_values_iff [OF inv] using ino by metis
  have x: "(i, p, h) \<in> set ?xs \<longleftrightarrow> (\<exists>e. bt_get (e_ino e) (entries s) = Some e \<and> e_ino e \<noteq> FUSE_ROOT_ID \<and>
      e_ino e = i \<and> e_parent e = p \<and> e_name_hash e = h)" for i p h
    by (auto simp: v)
  have L: "links s = set ?xs"
  proof (rule set_eqI, clarify)
    fix i p h
    show "(i, p, h) \<in> links s \<longleftrightarrow> (i, p, h) \<in> set ?xs"
      unfolding links_iff x using ino by metis
  qed
  have "links (rebuild_indexes s) = links s" by (simp add: links_def)
  moreover have "indexes ({} \<union> set ?xs) (rebuild_indexes s)"
    unfolding rebuild_indexes_def
    by (rule indexes_fold_link [OF indexes_empty])
      (use assms(2) in \<open>unfold links_inj_def L Un_empty_left, blast\<close>)
  ultimately show ?thesis
    using assms(1) L by (simp add: index_ok_def keys_ok_def)
qed

lemma index_ok_links_inj: "index_ok s \<Longrightarrow> links_inj s"
  using index_ok_unique by (auto simp: links_inj_def)

text \<open>Rebuilding indexes that are exact changes nothing.\<close>

lemma rebuild_indexes_id:
  assumes "index_ok s" and "entries s' = entries s"
  shows "children (rebuild_indexes s') = children s" and "by_parent (rebuild_indexes s') = by_parent s"
proof -
  have L: "links s' = links s" "links (rebuild_indexes s') = links s" using assms(2) by (simp_all add: links_def)
  have "keys_ok s'" "links_inj s'"
    using assms index_ok_links_inj [OF assms(1)] by (simp_all add: index_ok_def keys_ok_def links_inj_def L)
  then have "indexes (links s) (rebuild_indexes s')"
    using index_ok_rebuild [of s'] by (simp add: index_ok_def L)
  then show "children (rebuild_indexes s') = children s" "by_parent (rebuild_indexes s') = by_parent s"
    using assms(1) indexes_unique unfolding index_ok_def by blast+
qed

section \<open>Saving and loading\<close>

text \<open>
  The entries as Rust values: keys in order, 32-byte hashes, vectors of 64-bit length; and an
  inode is stored under its own number.
\<close>

definition entry_wf :: "entry \<Rightarrow> bool" where
  "entry_wf e \<longleftrightarrow> length (e_name_hash e) = 32 \<and> vec_ok (e_name_encrypted e) \<and>
     vec_ok (e_content_key e) \<and> vec_ok (e_link_target e)"

definition entries_wf :: "entry_map \<Rightarrow> bool" where
  "entries_wf m \<longleftrightarrow> bt_inv m \<and> vec_ok m \<and> (\<forall>(k, e) \<in> set m. e_ino e = k \<and> entry_wf e)"

text \<open>\<open>stored P C cr blob m\<close>: the index file \<open>blob\<close> decrypts and parses to \<open>m\<close>.\<close>

definition stored :: "prims \<Rightarrow> entry_map codec \<Rightarrow> crypto \<Rightarrow> bytes \<Rightarrow> entry_map \<Rightarrow> bool" where
  "stored P C cr blob m \<longleftrightarrow> (\<exists>pl. decrypt P cr blob = Inr pl \<and> de C pl = Some m)"

definition index_fits :: "entry_map codec \<Rightarrow> entry_map \<Rightarrow> bool" where
  "index_fits C m \<longleftrightarrow> (\<forall>b. ser C m = Some b \<longrightarrow> length b \<le> aead_max)"

lemma index_tmp [simp]: "with_extension (back @ [INDEX_FILE]) ''tmp'' = back @ [''pqfs.tmp'']"
  by (simp add: with_extension_def file_stem_def INDEX_FILE_def)

lemma index_tmp_neq [simp]: "''pqfs.tmp'' \<noteq> INDEX_FILE" "INDEX_FILE \<noteq> ''pqfs.tmp''"
  by (simp_all add: INDEX_FILE_def)

lemma save_index_eq:
  "save_index P C cr s =
     bindE (lift (bincode_serialize C (entries s))) (\<lambda>pl.
     bindE (encrypt P cr pl) (\<lambda>ct.
     bindE (replace_file (backend s @ [''pqfs.tmp'']) (backend s @ [INDEX_FILE]) (backend s) ct) (\<lambda>_.
     ret (s\<lparr>dirty := False\<rparr>))))"
  by (simp add: save_index_def replace_file_def bindE_assoc Let_def)

lemma decrypt_encrypt:
  assumes "aead_laws P" and "encrypt P cr pl w = (Inr ct, w')"
  shows "decrypt P cr ct = Inr pl" and "w' = draw_nonce w"
proof -
  obtain n where n: "random_nonce w = (Inr n, draw_nonce w)" "length n = 24"
    using random_nonce_run by blast
  with assms(2) obtain c where c: "aead_seal P (cipher cr) n [] pl = Some c" "ct = n @ c" "w' = draw_nonce w"
    by (auto simp: encrypt_def bindE_def lift_def ret_def of_option_def split: option.splits)
  with aead_open_seal [OF assms(1) c(1)] aead_seal_length [OF assms(1) c(1)] n(2)
  show "decrypt P cr ct = Inr pl" and "w' = draw_nonce w"
    by (simp_all add: decrypt_def)
qed

text \<open>
  Wherever saving stops, the index file holds either what it held or the complete new index,
  and the temporary file is the only other file touched; success means the new index.
\<close>

definition saved :: "prims \<Rightarrow> entry_map codec \<Rightarrow> crypto \<Rightarrow> path \<Rightarrow> entry_map \<Rightarrow> world \<Rightarrow> bool \<Rightarrow> world \<Rightarrow> bool" where
  "saved P C cr back m w ok w' \<longleftrightarrow>
     (\<forall>q. q \<noteq> back @ [''pqfs.tmp''] \<longrightarrow> q \<noteq> back @ [INDEX_FILE] \<longrightarrow> disk w' q = disk w q) \<and>
     (disk w' (back @ [INDEX_FILE]) = disk w (back @ [INDEX_FILE]) \<or>
      (\<exists>blob. disk w' (back @ [INDEX_FILE]) = Some blob \<and> stored P C cr blob m)) \<and>
     (ok \<longrightarrow> (\<exists>blob. disk w' (back @ [INDEX_FILE]) = Some blob \<and> stored P C cr blob m)) \<and>
     clock w' = clock w \<and> ids w' = ids w"

lemma encrypt_error: "encrypt P cr pl w = (Inl e, w') \<Longrightarrow> w' = draw_nonce w"
  using random_nonce_run [of w]
  by (auto simp: encrypt_def bindE_def lift_def ret_def of_option_def split: option.splits)

lemma draw_nonce_ids [simp]: "ids (draw_nonce w) = ids w"
  by (simp add: draw_nonce_def)

lemma save_index_outcome:
  assumes P: "aead_laws P" and C: "codec_laws entries_wf C" and m: "entries_wf (entries s)"
    and run: "save_index P C cr s w = (r, w')"
  shows "saved P C cr (backend s) (entries s) w (\<exists>s'. r = Inr s') w'"
    and "r = Inr s' \<Longrightarrow> s' = s\<lparr>dirty := False\<rparr>"
proof -
  obtain b where b: "ser C (entries s) = Some b" "de C b = Some (entries s)"
    using codec_lawsE [OF C m] by blast
  then have run': "bindE (encrypt P cr b) (\<lambda>ct.
     bindE (replace_file (backend s @ [''pqfs.tmp'']) (backend s @ [INDEX_FILE]) (backend s) ct) (\<lambda>_.
     ret (s\<lparr>dirty := False\<rparr>))) w = (r, w')"
    using run by (simp add: save_index_eq bincode_serialize_def)
  show "saved P C cr (backend s) (entries s) w (\<exists>s'. r = Inr s') w'"
    using run'
  proof (cases rule: bindE_cases)
    case (Err e)
    with encrypt_error [OF Err(1)] show ?thesis by (simp add: saved_def)
  next
    case (Ok ct w1)
    note ct = decrypt_encrypt [OF P Ok(1)]
    from ct(1) b(2) have st: "stored P C cr ct (entries s)" by (simp add: stored_def)
    let ?rep = "replaced (backend s @ [''pqfs.tmp'']) (backend s @ [INDEX_FILE]) ct"
    have "?rep w1 (\<exists>s'. r = Inr s') w'"
      using Ok(2) by (cases rule: bindE_cases) (auto dest!: replace_file_outcome simp: ret_def)
    then show ?thesis
      using st ct(2) by (fastforce simp: saved_def replaced_def only_ticks_def)
  qed
  show "s' = s\<lparr>dirty := False\<rparr>" if "r = Inr s'"
    using run' that by (auto elim!: bindE_InrE simp: ret_def)
qed

lemma save_index_ok:
  assumes P: "aead_laws P" and C: "codec_laws entries_wf C" and m: "entries_wf (entries s)"
    and fits: "index_fits C (entries s)" and w: "fault_free w"
  shows "\<exists>w'. save_index P C cr s w = (Inr (s\<lparr>dirty := False\<rparr>), w') \<and> fault_free w'"
proof -
  obtain b where b: "ser C (entries s) = Some b" using codec_lawsE [OF C m] by blast
  then have "length b \<le> aead_max" using fits by (simp add: index_fits_def)
  then obtain ct where ct: "encrypt P cr b w = (Inr ct, draw_nonce w)"
    using bulk.seal_total [of P b cr w] P by blast
  obtain w' where "replace_file (backend s @ [''pqfs.tmp'']) (backend s @ [INDEX_FILE]) (backend s) ct (draw_nonce w)
      = (Inr (), w')" "fault_free w'"
    using replace_file_ok [of "draw_nonce w" "backend s @ [''pqfs.tmp'']" "backend s @ [INDEX_FILE]" "backend s" ct] w
    by auto
  with b ct show ?thesis by (simp add: save_index_eq bincode_serialize_def bindE_def ret_def)
qed

definition reload_next :: "entry_map \<Rightarrow> u64" where
  "reload_next m = (case bt_last_key m of None \<Rightarrow> FUSE_ROOT_ID | Some k \<Rightarrow> k) + 1"

lemma load_stored:
  assumes w: "fault_free w" and f: "disk w (back @ [INDEX_FILE]) = Some blob" and st: "stored P C cr blob m"
  shows "\<exists>w'. load P C back cr w = (Inr (rebuild_indexes \<lparr>backend = back, entries = m,
      next_ino = reload_next m, children = Map.empty, by_parent = Map.empty, dirty = False\<rparr>), w') \<and> quiet w w'"
proof -
  obtain pl where pl: "decrypt P cr blob = Inr pl" "de C pl = Some m" using st by (auto simp: stored_def)
  have "load_entries P C back cr (tick (tick w)) = (Inr (m, reload_next m), tick (tick (tick w)))"
    using w f pl by (simp add: load_entries_def Let_def fs_exists_def bindE_def fs_ok_present
        bincode_deserialize_def ret_def lift_def reload_next_def)
  moreover have "quiet w (tick (tick (tick w)))"
    using w by (meson quiet_tick quiet_trans fault_free_tick)
  ultimately show ?thesis
    using w by (simp add: load_def bindE_def fs_ok ret_def)
qed

lemma reload_same:
  assumes ok: "index_ok s" and w: "fault_free w"
    and f: "disk w (backend s @ [INDEX_FILE]) = Some blob" and st: "stored P C cr blob (entries s)"
  shows "\<exists>w'. load P C (backend s) cr w =
    (Inr (s\<lparr>dirty := False, next_ino := reload_next (entries s)\<rparr>), w') \<and> quiet w w'"
proof -
  let ?r = "\<lparr>backend = backend s, entries = entries s, next_ino = reload_next (entries s),
    children = Map.empty, by_parent = Map.empty, dirty = False\<rparr>"
  have "rebuild_indexes ?r = s\<lparr>dirty := False, next_ino := reload_next (entries s)\<rparr>"
    using rebuild_indexes_id [OF ok, of ?r] by (intro pqfs_inner.equality) simp_all
  with load_stored [OF w f st] show ?thesis by simp
qed

section \<open>What rekeying keeps\<close>

lemma decrypt_filename_encrypt:
  assumes "aead_laws P" and "encrypt_filename P cr nm w = (Inr ct, w')" and "utf8_valid nm"
  shows "decrypt_filename P cr ct = Inr nm" and "w' = draw_nonce w"
proof -
  obtain n where n: "random_nonce w = (Inr n, draw_nonce w)" "length n = 24"
    using random_nonce_run by blast
  with assms(2) obtain c where c: "aead_seal P (filename_cipher cr) n [] nm = Some c" "ct = n @ c" "w' = draw_nonce w"
    by (auto simp: encrypt_filename_def bindE_def lift_def ret_def of_option_def split: option.splits)
  with aead_open_seal [OF assms(1) c(1)] aead_seal_length [OF assms(1) c(1)] n(2) assms(3)
  show "decrypt_filename P cr ct = Inr nm" and "w' = draw_nonce w"
    by (simp_all add: decrypt_filename_def from_utf8_def)
qed

lemma decrypt_filename_valid: "decrypt_filename P cr blob = Inr nm \<Longrightarrow> utf8_valid nm"
  by (auto simp: decrypt_filename_def from_utf8_def rbind_Inr_iff split: if_splits)

lemma decrypt_nonempty: "decrypt P cr blob = Inr pl \<Longrightarrow> blob \<noteq> []"
  by (auto simp: decrypt_def)

lemma decrypt_filename_nonempty: "decrypt_filename P cr blob = Inr nm \<Longrightarrow> blob \<noteq> []"
  by (auto simp: decrypt_filename_def)

text \<open>
  \<open>same_secret un un' x x'\<close>: an absent secret stays absent, a present one opens to the same
  plaintext under the new key as under the old.
\<close>

definition same_secret :: "(bytes \<Rightarrow> bytes result) \<Rightarrow> (bytes \<Rightarrow> bytes result) \<Rightarrow> bytes \<Rightarrow> bytes \<Rightarrow> bool" where
  "same_secret un un' x x' \<longleftrightarrow> (if x = [] then x' = [] else \<exists>pl. un x = Inr pl \<and> un' x' = Inr pl)"

definition rekeyed :: "prims \<Rightarrow> crypto \<Rightarrow> crypto \<Rightarrow> entry \<Rightarrow> entry \<Rightarrow> bool" where
  "rekeyed P old new e e' \<longleftrightarrow>
     same_secret (decrypt P old) (decrypt P new) (e_content_key e) (e_content_key e') \<and>
     same_secret (decrypt_filename P old) (decrypt_filename P new) (e_name_encrypted e) (e_name_encrypted e') \<and>
     same_secret (decrypt_filename P old) (decrypt_filename P new) (e_link_target e) (e_link_target e') \<and>
     (\<forall>nm. decrypt_filename P new (e_name_encrypted e') = Inr nm \<longrightarrow> e_name_hash e' = hash_filename P new nm) \<and>
     e' = e\<lparr>e_name_hash := e_name_hash e', e_name_encrypted := e_name_encrypted e',
       e_content_key := e_content_key e', e_link_target := e_link_target e'\<rparr>"

definition rekey_bulk :: "prims \<Rightarrow> crypto \<Rightarrow> crypto \<Rightarrow> bytes \<Rightarrow> bytes io" where
  "rekey_bulk P old new x =
     (if x = [] then ret [] else bindE (lift (decrypt P old x)) (encrypt P new))"

definition rekey_filename :: "prims \<Rightarrow> crypto \<Rightarrow> crypto \<Rightarrow> bytes \<Rightarrow> bytes io" where
  "rekey_filename P old new x =
     (if x = [] then ret [] else bindE (lift (decrypt_filename P old x)) (encrypt_filename P new))"

lemma rekey_bulk_outcome:
  "aead_laws P \<Longrightarrow> rekey_bulk P old new x w = (Inr x', w') \<Longrightarrow> same_secret (decrypt P old) (decrypt P new) x x'"
  by (auto simp: rekey_bulk_def same_secret_def ret_def lift_def dest: decrypt_encrypt(1)
      elim!: bindE_InrE split: if_splits)

lemma rekey_filename_outcome:
  "aead_laws P \<Longrightarrow> rekey_filename P old new x w = (Inr x', w') \<Longrightarrow>
   same_secret (decrypt_filename P old) (decrypt_filename P new) x x'"
  by (auto simp: rekey_filename_def same_secret_def ret_def lift_def
      intro: decrypt_filename_encrypt(1) [OF _ _ decrypt_filename_valid] elim!: bindE_InrE split: if_splits)

definition openable :: "(bytes \<Rightarrow> bytes result) \<Rightarrow> bytes \<Rightarrow> bool" where
  "openable un x \<longleftrightarrow> x = [] \<or> (\<exists>pl. un x = Inr pl \<and> length pl \<le> aead_max)"

lemma rekey_bulk_total:
  assumes "aead_laws P" and "openable (decrypt P old) x"
  shows "\<exists>x' w'. rekey_bulk P old new x w = (Inr x', w')"
  using assms bulk.seal_total [of P _ new w]
  by (fastforce simp: rekey_bulk_def openable_def ret_def lift_def bindE_def)

lemma rekey_filename_total:
  assumes "aead_laws P" and "openable (decrypt_filename P old) x"
  shows "\<exists>x' w'. rekey_filename P old new x w = (Inr x', w')"
  using assms filename.seal_total [of P _ new w] decrypt_filename_valid [of P old x]
  by (fastforce simp: rekey_filename_def openable_def ret_def lift_def bindE_def)

lemma rekey_entry_eq:
  "rekey_entry P old new e =
     bindE (rekey_bulk P old new (e_content_key e)) (\<lambda>k.
     bindE (rekey_filename P old new (e_name_encrypted e)) (\<lambda>n.
     bindE (rekey_filename P old new (e_link_target e)) (\<lambda>t.
     ret (e\<lparr>e_content_key := k, e_name_encrypted := n,
       e_name_hash := (if e_name_encrypted e = [] then e_name_hash e
         else hash_filename P new (projr (decrypt_filename P old (e_name_encrypted e)))),
       e_link_target := t\<rparr>))))"
  by (cases e; cases "e_content_key e = []"; cases "e_name_encrypted e = []"; cases "e_link_target e = []";
      cases "decrypt P old (e_content_key e)"; cases "decrypt_filename P old (e_name_encrypted e)";
      cases "decrypt_filename P old (e_link_target e)")
    (simp_all add: rekey_entry_def rekey_bulk_def rekey_filename_def bindE_assoc)

lemma rekey_entry_outcome:
  assumes "aead_laws P" and "rekey_entry P old new e w = (Inr e', w')"
  shows "rekeyed P old new e e'"
proof -
  from assms(2) obtain k w1 n w2 t where
    k: "rekey_bulk P old new (e_content_key e) w = (Inr k, w1)" and
    n: "rekey_filename P old new (e_name_encrypted e) w1 = (Inr n, w2)" and
    t: "rekey_filename P old new (e_link_target e) w2 = (Inr t, w')" and
    e': "e' = e\<lparr>e_content_key := k, e_name_encrypted := n,
       e_name_hash := (if e_name_encrypted e = [] then e_name_hash e
         else hash_filename P new (projr (decrypt_filename P old (e_name_encrypted e)))),
       e_link_target := t\<rparr>"
    by (auto simp: rekey_entry_eq ret_def elim!: bindE_InrE)
  note s = rekey_bulk_outcome [OF assms(1) k] rekey_filename_outcome [OF assms(1) n]
    rekey_filename_outcome [OF assms(1) t]
  moreover have "e_name_hash e' = hash_filename P new nm"
    if "decrypt_filename P new (e_name_encrypted e') = Inr nm" for nm
    using that s(2) decrypt_filename_nonempty [OF that] by (auto simp: e' same_secret_def split: if_splits)
  ultimately show ?thesis by (simp add: rekeyed_def e')
qed

lemma rekey_entry_total:
  assumes "aead_laws P" and "openable (decrypt P old) (e_content_key e)"
    and "openable (decrypt_filename P old) (e_name_encrypted e)"
    and "openable (decrypt_filename P old) (e_link_target e)"
  shows "\<exists>e' w'. rekey_entry P old new e w = (Inr e', w')"
proof -
  obtain k w1 where k: "rekey_bulk P old new (e_content_key e) w = (Inr k, w1)"
    using rekey_bulk_total assms(1,2) by blast
  obtain n w2 where n: "rekey_filename P old new (e_name_encrypted e) w1 = (Inr n, w2)"
    using rekey_filename_total assms(1,3) by blast
  obtain t w3 where "rekey_filename P old new (e_link_target e) w2 = (Inr t, w3)"
    using rekey_filename_total assms(1,4) by blast
  with k n show ?thesis by (simp add: rekey_entry_eq bindE_def ret_def)
qed

lemma rekey_entries_outcome:
  "aead_laws P \<Longrightarrow> rekey_entries P old new m w = (Inr m', w') \<Longrightarrow>
   list_all2 (\<lambda>(k, e) (k', e'). k' = k \<and> rekeyed P old new e e') m m'"
proof (induction m arbitrary: w m')
  case (Cons x m)
  obtain k e where x: "x = (k, e)" by (cases x)
  from Cons.prems(2) obtain e' w1 m1 where "rekey_entry P old new e w = (Inr e', w1)"
    "rekey_entries P old new m w1 = (Inr m1, w')" "m' = (k, e') # m1"
    by (auto simp: x ret_def elim!: bindE_InrE)
  with Cons show ?case by (auto simp: x intro: rekey_entry_outcome)
qed (simp add: ret_def)

text \<open>All secrets of an index open under a key.\<close>

definition entry_openable :: "prims \<Rightarrow> crypto \<Rightarrow> entry \<Rightarrow> bool" where
  "entry_openable P cr e \<longleftrightarrow> openable (decrypt P cr) (e_content_key e) \<and>
     openable (decrypt_filename P cr) (e_name_encrypted e) \<and> openable (decrypt_filename P cr) (e_link_target e)"

lemma rekey_entries_total:
  "aead_laws P \<Longrightarrow> (\<forall>(k, e) \<in> set m. entry_openable P old e) \<Longrightarrow>
   \<exists>m' w'. rekey_entries P old new m w = (Inr m', w')"
proof (induction m arbitrary: w)
  case (Cons x m)
  obtain k e where x: "x = (k, e)" by (cases x)
  with Cons.prems obtain e' w1 where e': "rekey_entry P old new e w = (Inr e', w1)"
    using rekey_entry_total [of P old e new w] by (auto simp: entry_openable_def)
  have "\<forall>(k, e) \<in> set m. entry_openable P old e" using Cons.prems(2) by simp
  from Cons.IH [OF Cons.prems(1) this, of w1] obtain m' w' where
    "rekey_entries P old new m w1 = (Inr m', w')" by blast
  with e' show ?case by (simp add: x bindE_def ret_def)
qed (simp add: ret_def)

lemma rekeyed_entries:
  assumes "list_all2 (\<lambda>(k, e) (k', e'). k' = k \<and> R e e') m m'"
  shows "map fst m' = map fst m" and "rel_option R (bt_get k m) (bt_get k m')"
  using assms by (induction rule: list_all2_induct) (auto simp: bt_get_def)

text \<open>A tag is 32 bytes.\<close>

definition mac_laws :: "prims \<Rightarrow> bool" where
  "mac_laws P \<longleftrightarrow> (\<forall>k m. length (hmac_sha256 P k m) = 32)"

lemma length_hash_filename: "mac_laws P \<Longrightarrow> length (hash_filename P cr nm) = 32"
  by (simp add: mac_laws_def hash_filename_def)

lemma rekeyed_fields:
  assumes "rekeyed P old new e e'"
  shows "e_ino e' = e_ino e" "e_parent e' = e_parent e" "e_kind e' = e_kind e" "e_size e' = e_size e"
    "e_perm e' = e_perm e" "e_uid e' = e_uid e" "e_gid e' = e_gid e" "e_times e' = e_times e"
proof -
  have e': "e' = e\<lparr>e_name_hash := e_name_hash e', e_name_encrypted := e_name_encrypted e',
       e_content_key := e_content_key e', e_link_target := e_link_target e'\<rparr>"
    using assms by (simp add: rekeyed_def)
  show "e_ino e' = e_ino e" "e_parent e' = e_parent e" "e_kind e' = e_kind e" "e_size e' = e_size e"
    "e_perm e' = e_perm e" "e_uid e' = e_uid e" "e_gid e' = e_gid e" "e_times e' = e_times e"
    by (subst e', simp)+
qed

lemma decrypt_length: "aead_laws P \<Longrightarrow> decrypt P cr x = Inr pl \<Longrightarrow> length x = length pl + 40"
  using aead_seal_length [OF _ aead_seal_open, of P "cipher cr" "take NONCE_LEN x" "[]" "drop NONCE_LEN x" pl]
  by (auto simp: decrypt_def split: if_splits)

lemma decrypt_filename_length: "aead_laws P \<Longrightarrow> decrypt_filename P cr x = Inr nm \<Longrightarrow> length x = length nm + 40"
  using aead_seal_length [OF _ aead_seal_open, of P "filename_cipher cr" "take NONCE_LEN x" "[]" "drop NONCE_LEN x" nm]
  by (auto simp: decrypt_filename_def rbind_Inr_iff from_utf8_def split: if_splits)

lemma same_secret_length:
  "aead_laws P \<Longrightarrow> same_secret (decrypt P old) (decrypt P new) x x' \<Longrightarrow> length x' = length x"
  "aead_laws P \<Longrightarrow> same_secret (decrypt_filename P old) (decrypt_filename P new) x x' \<Longrightarrow> length x' = length x"
  by (auto simp: same_secret_def decrypt_length decrypt_filename_length split: if_splits)

lemma rekeyed_entry_wf:
  assumes "rekeyed P old new e e'" and "aead_laws P" and "mac_laws P" and "e_name_encrypted e \<noteq> []" and "entry_wf e"
  shows "entry_wf e'"
proof -
  have "length (e_name_hash e') = 32"
    using assms(1,3,4) by (auto simp: rekeyed_def same_secret_def length_hash_filename)
  moreover have "length (e_name_encrypted e') = length (e_name_encrypted e)"
    "length (e_content_key e') = length (e_content_key e)" "length (e_link_target e') = length (e_link_target e)"
    using assms(1) same_secret_length [OF assms(2)] unfolding rekeyed_def by blast+
  ultimately show ?thesis
    using assms(5) by (simp add: entry_wf_def vec_ok_def)
qed

text \<open>Every entry of a volume has an encrypted name, the root too.\<close>

definition all_named :: "entry_map \<Rightarrow> bool" where
  "all_named m \<longleftrightarrow> (\<forall>(k, e) \<in> set m. e_name_encrypted e \<noteq> [])"

lemma entries_wf_rekeyed:
  assumes "list_all2 (\<lambda>(k, e) (k', e'). k' = k \<and> rekeyed P old new e e') m m'"
    and "entries_wf m" and "aead_laws P" "mac_laws P" and "all_named m"
  shows "entries_wf m'"
proof -
  have "e_ino e' = k \<and> entry_wf e'" if "(k, e') \<in> set m'" for k e'
  proof -
    from that obtain i where i: "i < length m'" "m' ! i = (k, e')" by (auto simp: in_set_conv_nth)
    then obtain e where "m ! i = (k, e)" "rekeyed P old new e e'" "i < length m"
      using assms(1) by (cases "m ! i") (auto simp: list_all2_conv_all_nth)
    moreover then have "(k, e) \<in> set m" by (metis nth_mem)
    ultimately show ?thesis
      using assms(2-5) by (auto simp: entries_wf_def all_named_def rekeyed_fields(1) intro: rekeyed_entry_wf)
  qed
  moreover have "bt_inv m'"
    using assms(2) rekeyed_entries(1) [OF assms(1)] by (simp add: entries_wf_def bt_inv_def)
  moreover have "vec_ok m'"
    using assms(2) list_all2_lengthD [OF assms(1)] by (simp add: entries_wf_def vec_ok_def)
  ultimately show ?thesis by (auto simp: entries_wf_def)
qed

lemma disk_encrypt [simp]:
  "disk (snd (encrypt P cr pl w)) = disk w" "disk (snd (encrypt_filename P cr pl w)) = disk w"
  using random_nonce_run [of w]
  by (auto simp: encrypt_def encrypt_filename_def bindE_def lift_def ret_def of_option_def split: option.splits)

lemma rekey_index_start:
  assumes "fault_free w" and "disk w (back @ [INDEX_FILE]) = Some blob" and "stored P C old blob m"
  shows "rekey_index P C back old new w =
    bindE (rekey_entries P old new m) (\<lambda>m'.
    bindE (lift (bincode_serialize C m')) (encrypt P new)) (tick w)"
  using assms by (auto simp: rekey_index_def Let_def fs_exists_def stored_def bindE_def [of "fs_read (back @ [INDEX_FILE])"]
      fs_ok_present lift_def ret_def bincode_deserialize_def bindE_def [of "bindE _ _"])

lemma rekey_index_outcome:
  assumes P: "aead_laws P" "mac_laws P" and C: "codec_laws entries_wf C"
    and w: "fault_free w" "disk w (back @ [INDEX_FILE]) = Some old_blob"
    and m: "stored P C old old_blob m" "entries_wf m" "all_named m"
    and run: "rekey_index P C back old new w = (Inr blob, w')"
  obtains m' where "stored P C new blob m'" and "entries_wf m'"
    and "list_all2 (\<lambda>(k, e) (k', e'). k' = k \<and> rekeyed P old new e e') m m'"
proof -
  from run obtain m' w1 b where m': "rekey_entries P old new m (tick w) = (Inr m', w1)"
    and b: "ser C m' = Some b" "encrypt P new b w1 = (Inr blob, w')"
    unfolding rekey_index_start [OF w m(1)]
    by (auto elim!: bindE_InrE simp: lift_def bincode_serialize_def)
  note l = rekey_entries_outcome [OF P(1) m']
  have wf: "entries_wf m'" by (rule entries_wf_rekeyed [OF l m(2) P m(3)])
  have "de C b = Some m'" using codec_lawsE [OF C wf] b(1) by auto
  with decrypt_encrypt(1) [OF P(1) b(2)] have "stored P C new blob m'" by (simp add: stored_def)
  with wf l that show thesis by blast
qed

lemma rekey_index_total:
  assumes P: "aead_laws P" "mac_laws P" and C: "codec_laws entries_wf C"
    and w: "fault_free w" "disk w (back @ [INDEX_FILE]) = Some old_blob"
    and m: "stored P C old old_blob m" "entries_wf m" "all_named m" "\<forall>(k, e) \<in> set m. entry_openable P old e"
    and fits: "\<And>m'. list_all2 (\<lambda>(k, e) (k', e'). k' = k \<and> rekeyed P old new e e') m m' \<Longrightarrow> index_fits C m'"
  shows "\<exists>blob w'. rekey_index P C back old new w = (Inr blob, w')"
proof -
  obtain m' w1 where m': "rekey_entries P old new m (tick w) = (Inr m', w1)"
    using rekey_entries_total [OF P(1) m(4)] by blast
  note l = rekey_entries_outcome [OF P(1) m']
  obtain b where b: "ser C m' = Some b"
    using codec_lawsE [OF C entries_wf_rekeyed [OF l m(2) P m(3)]] by blast
  with fits [OF l] have "length b \<le> aead_max" by (simp add: index_fits_def)
  then obtain blob where "encrypt P new b w1 = (Inr blob, draw_nonce w1)"
    using bulk.seal_total [of P b new w1] P(1) by blast
  with m' b show ?thesis
    unfolding rekey_index_start [OF w m(1)] by (simp add: bindE_def bincode_serialize_def ret_def)
qed

end
