(* ===== verification/Ops.thy ===== *)
theory Ops
  imports Inner
begin

text \<open>
  The file-system requests (\<open>src/fs/ops.rs\<close>).  A handler takes the metadata and the world
  and returns the reply it sends together with the new metadata and world; it replies exactly
  once on every branch, as the Rust handlers do.  Names arrive as raw bytes (\<open>OsStr\<close>).
\<close>

unbundle bit_operations_syntax

section \<open>Replies\<close>

definition TTL :: nat where "TTL = 1"

datatype errno = EEXIST | EINVAL | EIO | EISDIR | ENOENT | ENOTDIR | ENOTEMPTY

type_synonym dirent = "u64 \<times> i64 \<times> fuse_type \<times> bytes"

datatype reply =
    ReplyError errno
  | ReplyOk
  | ReplyEntry nat file_attr u64
  | ReplyAttr nat file_attr
  | ReplyData bytes
  | ReplyDirectory "dirent list"
  | ReplyCreated nat file_attr u64 u64 u32
  | ReplyOpened u64 u32
  | ReplyWritten u32
  | ReplyStatfs u64 u64 u64 u64 u64 u32 u32 u32

type_synonym handler = "pqfs_inner \<Rightarrow> world \<Rightarrow> reply \<times> pqfs_inner \<times> world"

section \<open>Looking up\<close>

definition lookup :: "prims \<Rightarrow> crypto \<Rightarrow> pqfs_inner \<Rightarrow> u64 \<Rightarrow> bytes \<Rightarrow> reply" where
  "lookup P cr s par name =
     (case find_child P cr s par name of
        Some e \<Rightarrow> ReplyEntry TTL (attr_for e) 0
      | None \<Rightarrow> ReplyError ENOENT)"

definition getattr :: "pqfs_inner \<Rightarrow> u64 \<Rightarrow> reply" where
  "getattr s ino =
     (case bt_get ino (entries s) of
        Some e \<Rightarrow> ReplyAttr TTL (attr_for e)
      | None \<Rightarrow> ReplyError ENOENT)"

section \<open>File contents\<close>

definition ensure_content_key :: "prims \<Rightarrow> crypto \<Rightarrow> entry \<Rightarrow> world \<Rightarrow> (errno + bytes) \<times> world" where
  "ensure_content_key P cr e w =
     (if e_content_key e \<noteq> [] then (Inr (e_content_key e), w)
      else case bindE random_key (encrypt P cr) w of
        (Inl _, w') \<Rightarrow> (Inl EIO, w')
      | (Inr k, w') \<Rightarrow> (Inr k, w'))"

definition decrypt_content_key :: "prims \<Rightarrow> crypto \<Rightarrow> bytes \<Rightarrow> errno + bytes" where
  "decrypt_content_key P cr content_key_enc =
     (case decrypt P cr content_key_enc of
        Inr v \<Rightarrow> if length v \<noteq> 32 then Inl EIO else Inr v
      | Inl _ \<Rightarrow> Inl EIO)"

definition offset_or_zero :: "i64 \<Rightarrow> u64" where
  "offset_or_zero offset = (if sint offset < 0 then 0 else offset)"

definition do_read :: "prims \<Rightarrow> crypto \<Rightarrow> entry \<Rightarrow> path \<Rightarrow> i64 \<Rightarrow> u32 \<Rightarrow> world \<Rightarrow> reply \<times> world" where
  "do_read P cr e file offset sz w =
     (if \<not> fs_exists file w then (ReplyData [], w)
      else case decrypt_content_key P cr (e_content_key e) of
        Inl code \<Rightarrow> (ReplyError code, w)
      | Inr content_key \<Rightarrow>
          (case read_range P content_key file (e_size e) (offset_or_zero offset) (ucast sz) w of
             (Inr data, w') \<Rightarrow> (ReplyData data, w')
           | (Inl _, w') \<Rightarrow> (ReplyError EIO, w')))"

definition do_write_data ::
  "prims \<Rightarrow> crypto \<Rightarrow> entry \<Rightarrow> path \<Rightarrow> i64 \<Rightarrow> bytes \<Rightarrow> world \<Rightarrow> (errno + bytes \<times> u64) \<times> world" where
  "do_write_data P cr e file offset data w =
     (case ensure_content_key P cr e w of
        (Inl code, w1) \<Rightarrow> (Inl code, w1)
      | (Inr content_key_enc, w1) \<Rightarrow>
          (case decrypt_content_key P cr content_key_enc of
             Inl code \<Rightarrow> (Inl code, w1)
           | Inr content_key \<Rightarrow>
               (case write_range P content_key file (e_size e) (offset_or_zero offset) data w1 of
                  (Inr sz, w2) \<Rightarrow> (Inr (content_key_enc, sz), w2)
                | (Inl _, w2) \<Rightarrow> (Inl EIO, w2))))"

definition do_truncate ::
  "prims \<Rightarrow> crypto \<Rightarrow> entry \<Rightarrow> path \<Rightarrow> u64 \<Rightarrow> world \<Rightarrow> (errno + bytes \<times> u64) \<times> world" where
  "do_truncate P cr e file sz w =
     (case ensure_content_key P cr e w of
        (Inl code, w1) \<Rightarrow> (Inl code, w1)
      | (Inr content_key_enc, w1) \<Rightarrow>
          (case decrypt_content_key P cr content_key_enc of
             Inl code \<Rightarrow> (Inl code, w1)
           | Inr content_key \<Rightarrow>
               (case Blocks.truncate P content_key file (e_size e) sz w1 of
                  (Inr (), w2) \<Rightarrow> (Inr (content_key_enc, sz), w2)
                | (Inl _, w2) \<Rightarrow> (Inl EIO, w2))))"

text \<open>\<open>get_mut\<close> on the entries followed by an assignment.\<close>

definition set_entry :: "u64 \<Rightarrow> entry \<Rightarrow> pqfs_inner \<Rightarrow> pqfs_inner" where
  "set_entry ino e s = s\<lparr>entries := bt_insert ino e (entries s)\<rparr>"

definition commit_write :: "u64 \<Rightarrow> bytes \<Rightarrow> u64 \<Rightarrow> u32 \<Rightarrow> handler" where
  "commit_write ino content_key_enc sz written s w =
     (case bt_get ino (entries s) of
        Some e \<Rightarrow>
          let (t, w') = touch_modified (e_times e) w in
          (ReplyWritten written,
           mark_dirty (set_entry ino
             (e\<lparr>e_content_key := content_key_enc, e_size := sz, e_times := t\<rparr>) s), w')
      | None \<Rightarrow> (ReplyWritten written, s, w))"

section \<open>Listing a directory\<close>

text \<open>
  \<open>full sent d\<close> is the answer of \<open>ReplyDirectory::add\<close>: the buffer that already holds
  \<open>sent\<close> has no room for \<open>d\<close>, which is then not added.
\<close>

fun child_names :: "prims \<Rightarrow> crypto \<Rightarrow> entry list \<Rightarrow> (u64 \<times> fuse_type \<times> bytes) list option" where
  "child_names P cr [] = Some []"
| "child_names P cr (e # es) =
     (case decrypt_filename P cr (e_name_encrypted e) of
        Inl _ \<Rightarrow> None
      | Inr name \<Rightarrow> map_option (\<lambda>l. (e_ino e, file_type (e_kind e), name) # l) (child_names P cr es))"

fun add_dirents :: "(dirent list \<Rightarrow> dirent \<Rightarrow> bool) \<Rightarrow> dirent list \<Rightarrow> dirent list \<Rightarrow> dirent list" where
  "add_dirents full sent [] = sent"
| "add_dirents full sent (d # ds) = (if full sent d then sent else add_dirents full (sent @ [d]) ds)"

definition numbered :: "(u64 \<times> fuse_type \<times> bytes) list \<Rightarrow> dirent list" where
  "numbered l = map (\<lambda>(i, ino, k, name). (ino, of_nat (i + 1), k, name)) (List.enumerate 0 l)"

definition readdir ::
  "prims \<Rightarrow> crypto \<Rightarrow> (dirent list \<Rightarrow> dirent \<Rightarrow> bool) \<Rightarrow> pqfs_inner \<Rightarrow> u64 \<Rightarrow> i64 \<Rightarrow> reply" where
  "readdir P cr full s ino offset =
     (case bt_get ino (entries s) of
        None \<Rightarrow> ReplyError ENOENT
      | Some parent \<Rightarrow>
          if e_kind parent \<noteq> Dir then ReplyError ENOTDIR
          else (case child_names P cr (child_inodes s ino) of
             None \<Rightarrow> ReplyError EIO
           | Some cs \<Rightarrow>
               let ents = (ino, Directory, ascii ''.'') # (e_parent parent, Directory, ascii ''..'') # cs in
               ReplyDirectory (add_dirents full [] (drop (unat offset) (numbered ents)))))"

section \<open>Creating entries\<close>

text \<open>The end of every changing handler: save the index, reply with \<open>EIO\<close> if that fails.\<close>

definition save_then :: "prims \<Rightarrow> entry_map codec \<Rightarrow> crypto \<Rightarrow> reply \<Rightarrow> handler" where
  "save_then P C cr rep s w =
     (case save_index P C cr s w of
        (Inl _, w') \<Rightarrow> (ReplyError EIO, s, w')
      | (Inr s', w') \<Rightarrow> (rep, s', w'))"

definition perm_of :: "u32 \<Rightarrow> u16" where
  "perm_of mode = ucast mode AND 511"

definition create :: "prims \<Rightarrow> entry_map codec \<Rightarrow> crypto \<Rightarrow> u64 \<Rightarrow> bytes \<Rightarrow> u32 \<Rightarrow> handler" where
  "create P C cr par os_name mode s w =
     (if find_child P cr s par os_name \<noteq> None then (ReplyError EEXIST, s, w)
      else
        let (ino, s1) = allocate_ino s;
            name = to_string_lossy os_name;
            name_hash = hash_filename P cr name
        in case encrypt_filename P cr name w of
          (Inl _, w1) \<Rightarrow> (ReplyError EIO, s1, w1)
        | (Inr name_encrypted, w1) \<Rightarrow>
            (case bindE random_key (encrypt P cr) w1 of
               (Inl _, w2) \<Rightarrow> (ReplyError EIO, s1, w2)
             | (Inr content_key, w2) \<Rightarrow>
                 let (t, w3) = timestamps_now w2;
                     e = \<lparr>e_ino = ino, e_parent = par, e_name_hash = name_hash,
                          e_name_encrypted = name_encrypted, e_content_key = content_key,
                          e_kind = File, e_size = 0, e_perm = perm_of mode,
                          e_uid = fst (ids w2), e_gid = snd (ids w2), e_times = t, e_link_target = []\<rparr>
                 in save_then P C cr (ReplyCreated TTL (attr_for e) 0 0 0) (insert_entry e s1) w3))"

definition mkdir :: "prims \<Rightarrow> entry_map codec \<Rightarrow> crypto \<Rightarrow> u64 \<Rightarrow> bytes \<Rightarrow> u32 \<Rightarrow> handler" where
  "mkdir P C cr par os_name mode s w =
     (if find_child P cr s par os_name \<noteq> None then (ReplyError EEXIST, s, w)
      else
        let (ino, s1) = allocate_ino s;
            name = to_string_lossy os_name;
            name_hash = hash_filename P cr name
        in case encrypt_filename P cr name w of
          (Inl _, w1) \<Rightarrow> (ReplyError EIO, s1, w1)
        | (Inr name_encrypted, w1) \<Rightarrow>
            let (t, w2) = timestamps_now w1;
                e = \<lparr>e_ino = ino, e_parent = par, e_name_hash = name_hash,
                     e_name_encrypted = name_encrypted, e_content_key = [],
                     e_kind = Dir, e_size = 0, e_perm = perm_of mode,
                     e_uid = fst (ids w1), e_gid = snd (ids w1), e_times = t, e_link_target = []\<rparr>
            in save_then P C cr (ReplyEntry TTL (attr_for e) 0) (insert_entry e s1) w2)"

definition symlink :: "prims \<Rightarrow> entry_map codec \<Rightarrow> crypto \<Rightarrow> u64 \<Rightarrow> bytes \<Rightarrow> bytes \<Rightarrow> handler" where
  "symlink P C cr par os_name os_target s w =
     (if find_child P cr s par os_name \<noteq> None then (ReplyError EEXIST, s, w)
      else
        let target = to_string_lossy os_target in
        case encrypt_filename P cr target w of
          (Inl _, w1) \<Rightarrow> (ReplyError EIO, s, w1)
        | (Inr link_target, w1) \<Rightarrow>
            let (ino, s1) = allocate_ino s;
                name = to_string_lossy os_name;
                name_hash = hash_filename P cr name
            in case encrypt_filename P cr name w1 of
              (Inl _, w2) \<Rightarrow> (ReplyError EIO, s1, w2)
            | (Inr name_encrypted, w2) \<Rightarrow>
                let (t, w3) = timestamps_now w2;
                    e = \<lparr>e_ino = ino, e_parent = par, e_name_hash = name_hash,
                         e_name_encrypted = name_encrypted, e_content_key = [],
                         e_kind = Symlink, e_size = of_nat (length target), e_perm = 511,
                         e_uid = fst (ids w2), e_gid = snd (ids w2), e_times = t, e_link_target = link_target\<rparr>
                in save_then P C cr (ReplyEntry TTL (attr_for e) 0) (insert_entry e s1) w3)"

definition readlink :: "prims \<Rightarrow> crypto \<Rightarrow> pqfs_inner \<Rightarrow> u64 \<Rightarrow> reply" where
  "readlink P cr s ino =
     (case bt_get ino (entries s) of
        None \<Rightarrow> ReplyError ENOENT
      | Some e \<Rightarrow>
          if e_kind e \<noteq> Symlink then ReplyError EINVAL
          else (case decrypt_filename P cr (e_link_target e) of
             Inr target \<Rightarrow> ReplyData target
           | Inl _ \<Rightarrow> ReplyError EIO))"

section \<open>Removing and renaming\<close>

text \<open>Remove the data file if there is one; a failure is only logged.\<close>

definition remove_data :: "path \<Rightarrow> world \<Rightarrow> world" where
  "remove_data file w = (if fs_exists file w then snd (fs_remove_file file w) else w)"

definition unlink :: "prims \<Rightarrow> entry_map codec \<Rightarrow> crypto \<Rightarrow> u64 \<Rightarrow> bytes \<Rightarrow> handler" where
  "unlink P C cr par name s w =
     (case find_child P cr s par name of
        None \<Rightarrow> (ReplyError ENOENT, s, w)
      | Some e \<Rightarrow>
          if e_kind e = Dir then (ReplyError EISDIR, s, w)
          else
            let s1 = snd (remove_entry (e_ino e) s);
                w1 = remove_data (data_path s1 (e_ino e)) w
            in save_then P C cr ReplyOk s1 w1)"

definition rmdir :: "prims \<Rightarrow> entry_map codec \<Rightarrow> crypto \<Rightarrow> u64 \<Rightarrow> bytes \<Rightarrow> handler" where
  "rmdir P C cr par name s w =
     (case find_child P cr s par name of
        None \<Rightarrow> (ReplyError ENOENT, s, w)
      | Some e \<Rightarrow>
          if e_kind e \<noteq> Dir then (ReplyError ENOTDIR, s, w)
          else if has_children s (e_ino e) then (ReplyError ENOTEMPTY, s, w)
          else save_then P C cr ReplyOk (snd (remove_entry (e_ino e) s)) w)"

datatype time_or_now = SpecificTime system_time | Now

definition time_or_now_nanos :: "time_or_now \<Rightarrow> world \<Rightarrow> u64 \<times> world" where
  "time_or_now_nanos v w = (case v of SpecificTime t \<Rightarrow> (since_epoch t, w) | Now \<Rightarrow> now_nanos w)"

definition apply_setattr ::
  "prims \<Rightarrow> entry_map codec \<Rightarrow> crypto \<Rightarrow> u64 \<Rightarrow> u32 option \<Rightarrow> u32 option \<Rightarrow> u32 option \<Rightarrow>
   time_or_now option \<Rightarrow> time_or_now option \<Rightarrow> (bytes \<times> u64) option \<Rightarrow> handler" where
  "apply_setattr P C cr ino mode uid gid at mt truncated s w =
     (case bt_get ino (entries s) of
        None \<Rightarrow> (ReplyError ENOENT, s, w)
      | Some e \<Rightarrow>
          let e1 = (case mode of None \<Rightarrow> e | Some m \<Rightarrow> e\<lparr>e_perm := perm_of m\<rparr>);
              e2 = (case uid of None \<Rightarrow> e1 | Some u \<Rightarrow> e1\<lparr>e_uid := u\<rparr>);
              e3 = (case gid of None \<Rightarrow> e2 | Some g \<Rightarrow> e2\<lparr>e_gid := g\<rparr>);
              (e4, w4) = (case at of None \<Rightarrow> (e3, w)
                | Some a \<Rightarrow> (case time_or_now_nanos a w of
                    (n, w') \<Rightarrow> (e3\<lparr>e_times := (e_times e3)\<lparr>atime := n\<rparr>\<rparr>, w')));
              (e5, w5) = (case mt of None \<Rightarrow> (e4, w4)
                | Some m \<Rightarrow> (case time_or_now_nanos m w4 of
                    (n, w') \<Rightarrow> (e4\<lparr>e_times := (e_times e4)\<lparr>mtime := n\<rparr>\<rparr>, w')));
              (e6, w6) = (case truncated of None \<Rightarrow> (e5, w5)
                | Some (content_key, sz) \<Rightarrow> (case touch_modified (e_times e5) w5 of
                    (t, w') \<Rightarrow> (e5\<lparr>e_content_key := content_key, e_size := sz, e_times := t\<rparr>, w')));
              (t, w7) = touch_changed (e_times e6) w6;
              e7 = e6\<lparr>e_times := t\<rparr>
          in save_then P C cr (ReplyAttr TTL (attr_for e7)) (set_entry ino e7 s) w7)"

fun descends :: "entry_map \<Rightarrow> u64 \<Rightarrow> nat \<Rightarrow> u64 \<Rightarrow> bool" where
  "descends m ancestor 0 ino = (ino = ancestor)"
| "descends m ancestor (Suc hops) ino =
     (if ino = FUSE_ROOT_ID then ino = ancestor
      else if ino = ancestor then True
      else case bt_get ino m of
        Some e \<Rightarrow> descends m ancestor hops (e_parent e)
      | None \<Rightarrow> False)"

definition is_descendant_of :: "pqfs_inner \<Rightarrow> u64 \<Rightarrow> u64 \<Rightarrow> bool" where
  "is_descendant_of s ino ancestor = descends (entries s) ancestor (length (entries s) + 1) ino"

definition rename :: "prims \<Rightarrow> entry_map codec \<Rightarrow> crypto \<Rightarrow> u64 \<Rightarrow> bytes \<Rightarrow> u64 \<Rightarrow> bytes \<Rightarrow> handler" where
  "rename P C cr par name newparent os_newname s w =
     (case find_child P cr s par name of
        None \<Rightarrow> (ReplyError ENOENT, s, w)
      | Some source \<Rightarrow>
     (case bt_get newparent (entries s) of
        None \<Rightarrow> (ReplyError ENOENT, s, w)
      | Some np \<Rightarrow>
     if e_kind np \<noteq> Dir then (ReplyError ENOTDIR, s, w)
     else if e_kind source = Dir \<and> is_descendant_of s newparent (e_ino source)
     then (ReplyError EINVAL, s, w)
     else
     let target = (case find_child P cr s newparent os_newname of
           None \<Rightarrow> Inr (s, w)
         | Some existing \<Rightarrow>
             if e_ino existing = e_ino source then Inr (s, w)
             else if e_kind source = Dir \<and> e_kind existing = Dir \<and> has_children s (e_ino existing)
             then Inl ENOTEMPTY
             else if e_kind source = Dir \<and> e_kind existing \<noteq> Dir then Inl ENOTDIR
             else if e_kind source \<noteq> Dir \<and> e_kind existing = Dir then Inl EISDIR
             else
               let s1 = snd (remove_entry (e_ino existing) s)
               in Inr (s1, remove_data (data_path s1 (e_ino existing)) w))
     in case target of
       Inl code \<Rightarrow> (ReplyError code, s, w)
     | Inr (s1, w1) \<Rightarrow>
         let newname = to_string_lossy os_newname;
             name_hash = hash_filename P cr newname
         in case encrypt_filename P cr newname w1 of
           (Inl _, w2) \<Rightarrow> (ReplyError EIO, s1, w2)
         | (Inr name_encrypted, w2) \<Rightarrow>
             let (s2, w3) = relink (e_ino source) newparent name_hash name_encrypted s1 w2
             in save_then P C cr ReplyOk s2 w3))"

section \<open>Opening and closing\<close>

definition open_file :: "pqfs_inner \<Rightarrow> u64 \<Rightarrow> reply" where
  "open_file s ino = (if bt_get ino (entries s) \<noteq> None then ReplyOpened 0 0 else ReplyError ENOENT)"

definition release :: reply where
  "release = ReplyOk"

end
