(* ===== verification/Namespace.thy ===== *)
theory Namespace
  imports Ops
begin

text \<open>
  The name space of a mounted volume.  An abstract specification (\<open>ns\<close>: directories as maps
  from names to inodes) is related to the metadata of \<open>Inner\<close> by \<open>ns_of\<close>; \<open>fs_ok\<close> is the
  invariant of the metadata.  The lemmas show that \<open>is_descendant_of\<close> decides reachability by
  parent links, and that adding, dropping and moving an entry keep the invariant and change the
  abstract name space as specified.
\<close>

section \<open>Ancestors\<close>

definition parent_rel :: "entry_map \<Rightarrow> (u64 \<times> u64) set" where
  "parent_rel m = {(i, p). i \<noteq> FUSE_ROOT_ID \<and> (\<exists>e. bt_get i m = Some e \<and> e_parent e = p)}"

lemma parent_rel_iff:
  "(i, p) \<in> parent_rel m \<longleftrightarrow> i \<noteq> FUSE_ROOT_ID \<and> (\<exists>e. bt_get i m = Some e \<and> e_parent e = p)"
  by (simp add: parent_rel_def)

lemma parent_rel_unique: "(i, p) \<in> parent_rel m \<Longrightarrow> (i, q) \<in> parent_rel m \<Longrightarrow> p = q"
  by (auto simp: parent_rel_iff)

lemma descends_steps:
  "descends m a hops i \<longleftrightarrow> (\<exists>k \<le> hops. (i, a) \<in> parent_rel m ^^ k)"
proof (induction hops arbitrary: i)
  case (Suc hops)
  show ?case
  proof (cases "i = a")
    case True
    then have "(i, a) \<in> parent_rel m ^^ 0" by simp
    with True show ?thesis by (auto intro!: exI [of _ 0])
  next
    case False
    have step: "(\<exists>k \<le> Suc hops. (i, a) \<in> parent_rel m ^^ k) \<longleftrightarrow>
        (\<exists>p. (i, p) \<in> parent_rel m \<and> (\<exists>k \<le> hops. (p, a) \<in> parent_rel m ^^ k))" (is "?l = ?r")
    proof
      assume ?l
      then obtain k where k: "k \<le> Suc hops" "(i, a) \<in> parent_rel m ^^ k" by blast
      with False obtain j where j: "k = Suc j" by (cases k) auto
      with k obtain p where "(i, p) \<in> parent_rel m" "(p, a) \<in> parent_rel m ^^ j"
        using relpow_Suc_D2 [of i a j "parent_rel m"] by blast
      with j k show ?r by auto
    next
      assume ?r
      then show ?l by (meson Suc_le_mono relpow_Suc_I2)
    qed
    have "(\<exists>p. (i, p) \<in> parent_rel m \<and> Q p) \<longleftrightarrow>
        i \<noteq> FUSE_ROOT_ID \<and> (\<exists>e. bt_get i m = Some e \<and> Q (e_parent e))" for Q
      by (auto simp: parent_rel_iff)
    with False step show ?thesis
      using Suc.IH by (auto split: option.splits)
  qed
qed simp

text \<open>A chain of parents that does not repeat an inode is no longer than the number of entries.\<close>

lemma shortest_chain:
  assumes "(i, a) \<in> parent_rel m ^^ k" and "bt_inv m" and min: "\<And>j. j < k \<Longrightarrow> (i, a) \<notin> parent_rel m ^^ j"
  shows "k \<le> length m"
proof -
  obtain f where f: "f 0 = i" "f k = a" "\<And>j. j < k \<Longrightarrow> (f j, f (Suc j)) \<in> parent_rel m"
    using assms(1) by (auto simp: relpow_fun_conv)
  have pow: "l \<le> r \<Longrightarrow> r \<le> k \<Longrightarrow> (f l, f r) \<in> parent_rel m ^^ (r - l)" for l r
  proof (induction r)
    case (Suc r)
    show ?case
    proof (cases "l = Suc r")
      case False
      with Suc have "(f l, f r) \<in> parent_rel m ^^ (r - l)" "(f r, f (Suc r)) \<in> parent_rel m" "Suc r - l = Suc (r - l)"
        using f(3) by auto
      then show ?thesis by auto
    qed simp
  qed simp
  have "inj_on f {..<k}"
  proof (rule linorder_inj_onI)
    fix l r assume lr: "l < r" "l \<in> {..<k}" "r \<in> {..<k}"
    show "f l \<noteq> f r"
    proof
      assume "f l = f r"
      then have "(i, a) \<in> parent_rel m ^^ (l + (k - r))"
        unfolding relpow_add using pow [of 0 l] pow [of r k] lr f by auto
      moreover have "l + (k - r) < k" using lr by auto
      ultimately show False using min by blast
    qed
  qed auto
  then have "k = card (f ` {..<k})" by (simp add: card_image)
  also have "\<dots> \<le> card {j. bt_get j m \<noteq> None}"
    by (rule card_mono [OF bt.finite_keys [OF assms(2)]]) (auto dest!: f(3) simp: parent_rel_iff)
  finally show ?thesis using bt.card_keys [OF assms(2)] by simp
qed

lemma is_descendant_of_iff:
  assumes "bt_inv (entries s)"
  shows "is_descendant_of s i a \<longleftrightarrow> (i, a) \<in> (parent_rel (entries s))\<^sup>*"
proof
  assume "(i, a) \<in> (parent_rel (entries s))\<^sup>*"
  then obtain k where "(i, a) \<in> parent_rel (entries s) ^^ k" by (auto simp: rtrancl_is_UN_relpow)
  then obtain k where k: "(i, a) \<in> parent_rel (entries s) ^^ k" "\<And>j. j < k \<Longrightarrow> (i, a) \<notin> parent_rel (entries s) ^^ j"
    using exists_least_iff [of "\<lambda>k. (i, a) \<in> parent_rel (entries s) ^^ k"] by blast
  show "is_descendant_of s i a"
    unfolding is_descendant_of_def descends_steps
  proof (intro exI conjI)
    show "(i, a) \<in> parent_rel (entries s) ^^ k" by (rule k(1))
    show "k \<le> length (entries s) + 1" using shortest_chain [OF k(1) assms k(2)] by linarith
  qed
next
  assume "is_descendant_of s i a"
  then show "(i, a) \<in> (parent_rel (entries s))\<^sup>*"
    by (auto simp: is_descendant_of_def descends_steps intro: relpow_imp_rtrancl)
qed

section \<open>The name space\<close>

text \<open>
  \<open>N\<close> is the set of names in use; HMAC-SHA-256 does not collide on it (\<open>name_space\<close>).
  \<open>fs_ok\<close> is the invariant of the metadata: the derived indexes are exact, names decrypt and
  hash as recorded, the root is a directory, every parent is a directory, every inode is below
  the next number to allocate and has the root as an ancestor.
\<close>

definition name_space :: "prims \<Rightarrow> crypto \<Rightarrow> bytes set \<Rightarrow> bool" where
  "name_space P cr N \<longleftrightarrow> aead_laws P \<and> mac_laws P \<and> inj_on (hash_filename P cr) N \<and>
     (\<forall>nm \<in> N. utf8_valid nm \<and> length nm \<le> aead_max)"

definition names_ok :: "prims \<Rightarrow> crypto \<Rightarrow> bytes set \<Rightarrow> entry_map \<Rightarrow> bool" where
  "names_ok P cr N m \<longleftrightarrow> (\<forall>i e. bt_get i m = Some e \<longrightarrow>
     (\<exists>nm \<in> N. decrypt_filename P cr (e_name_encrypted e) = Inr nm \<and> e_name_hash e = hash_filename P cr nm) \<and>
     vec_ok (e_content_key e) \<and> vec_ok (e_link_target e))"

definition tree_ok :: "entry_map \<Rightarrow> bool" where
  "tree_ok m \<longleftrightarrow>
     (\<exists>e. bt_get FUSE_ROOT_ID m = Some e \<and> e_kind e = Dir \<and> e_parent e = FUSE_ROOT_ID) \<and>
     (\<forall>i e. bt_get i m = Some e \<longrightarrow>
        (\<exists>p. bt_get (e_parent e) m = Some p \<and> e_kind p = Dir) \<and> (i, FUSE_ROOT_ID) \<in> (parent_rel m)\<^sup>*)"

definition fs_ok :: "prims \<Rightarrow> crypto \<Rightarrow> bytes set \<Rightarrow> pqfs_inner \<Rightarrow> bool" where
  "fs_ok P cr N s \<longleftrightarrow> index_ok s \<and> names_ok P cr N (entries s) \<and> tree_ok (entries s) \<and>
     (\<forall>i e. bt_get i (entries s) = Some e \<longrightarrow> i < next_ino s)"

definition named :: "prims \<Rightarrow> crypto \<Rightarrow> entry_map \<Rightarrow> u64 \<Rightarrow> u64 \<Rightarrow> bytes \<Rightarrow> bool" where
  "named P cr m i p nm \<longleftrightarrow> (\<exists>e. bt_get i m = Some e \<and> i \<noteq> FUSE_ROOT_ID \<and> e_parent e = p \<and>
     decrypt_filename P cr (e_name_encrypted e) = Inr nm)"

lemma fs_okD:
  assumes "fs_ok P cr N s"
  shows "index_ok s" "names_ok P cr N (entries s)" "tree_ok (entries s)" "bt_inv (entries s)"
    "bt_get i (entries s) = Some e \<Longrightarrow> e_ino e = i"
    "bt_get i (entries s) = Some e \<Longrightarrow> i < next_ino s"
  using assms by (auto simp: fs_ok_def index_ok_def keys_ok_def)

lemma find_child_iff:
  assumes ok: "index_ok s" "names_ok P cr N (entries s)"
  shows "find_child P cr s p os = Some e \<longleftrightarrow>
    bt_get (e_ino e) (entries s) = Some e \<and> e_ino e \<noteq> FUSE_ROOT_ID \<and> e_parent e = p \<and>
    decrypt_filename P cr (e_name_encrypted e) = Inr (to_string_lossy os)" (is "?l \<longleftrightarrow> ?r")
proof
  let ?h = "hash_filename P cr (to_string_lossy os)"
  have ino: "bt_get i (entries s) = Some x \<Longrightarrow> e_ino x = i" for i x
    using ok(1) by (simp add: index_ok_def keys_ok_def)
  show ?r if ?l
  proof -
    from that obtain i where "children s (p, ?h) = Some i" "bt_get i (entries s) = Some e"
      "decrypt_filename P cr (e_name_encrypted e) = Inr (to_string_lossy os)"
      by (auto simp: find_child_def Let_def split: option.splits sum.splits if_splits)
    then show ?thesis using ino by (auto simp: index_ok_children [OF ok(1)] links_iff)
  qed
  show ?l if r: ?r
  proof -
    from r ok(2) have "e_name_hash e = ?h" by (fastforce simp: names_ok_def)
    with r have "children s (p, ?h) = Some (e_ino e)"
      by (auto simp: index_ok_children [OF ok(1)] links_iff)
    with r show ?thesis by (simp add: find_child_def Let_def)
  qed
qed

lemma find_child_named:
  assumes ok: "index_ok s" "names_ok P cr N (entries s)"
  shows "map_option e_ino (find_child P cr s p os) = Some i \<longleftrightarrow> named P cr (entries s) i p (to_string_lossy os)"
proof -
  have "bt_get i (entries s) = Some e \<Longrightarrow> e_ino e = i" for e
    using ok(1) by (simp add: index_ok_def keys_ok_def)
  then show ?thesis
    by (auto simp: named_def find_child_iff [OF ok])
qed

lemma find_child_None:
  assumes ok: "index_ok s" "names_ok P cr N (entries s)" and N: "name_space P cr N"
    and nm: "to_string_lossy os \<in> N" and none: "find_child P cr s p os = None"
  shows "(j, p, hash_filename P cr (to_string_lossy os)) \<notin> links s"
proof
  assume "(j, p, hash_filename P cr (to_string_lossy os)) \<in> links s"
  then obtain e where e: "bt_get j (entries s) = Some e" "j \<noteq> FUSE_ROOT_ID" "e_parent e = p"
    "e_name_hash e = hash_filename P cr (to_string_lossy os)" by (auto simp: links_iff)
  moreover obtain nm where "nm \<in> N" "decrypt_filename P cr (e_name_encrypted e) = Inr nm"
    "e_name_hash e = hash_filename P cr nm" using ok(2) e(1) unfolding names_ok_def by blast
  moreover have "nm = to_string_lossy os"
    using N e calculation nm by (auto simp: name_space_def dest: inj_onD)
  ultimately have "find_child P cr s p os = Some e"
    using ok(1) by (auto simp: find_child_iff [OF ok] index_ok_def keys_ok_def)
  with none show False by simp
qed

lemma fs_ok_entry_wf:
  assumes N: "name_space P cr N" and ok: "fs_ok P cr N s" and e: "bt_get i (entries s) = Some e"
  shows "entry_wf e"
proof -
  obtain nm where nm: "nm \<in> N" "decrypt_filename P cr (e_name_encrypted e) = Inr nm" "e_name_hash e = hash_filename P cr nm"
    and v: "vec_ok (e_content_key e)" "vec_ok (e_link_target e)"
    using fs_okD(2) [OF ok] e unfolding names_ok_def by blast
  have "length (e_name_encrypted e) = length nm + 40" "length nm \<le> aead_max"
    using N nm decrypt_filename_length by (auto simp: name_space_def)
  then have "vec_ok (e_name_encrypted e)" by (simp add: vec_ok_def aead_max_def)
  with nm v N show ?thesis by (simp add: entry_wf_def name_space_def length_hash_filename)
qed

lemma fs_ok_entries_wf:
  assumes N: "name_space P cr N" and ok: "fs_ok P cr N s"
  shows "entries_wf (entries s)"
proof -
  note D = fs_okD [OF ok]
  have "{k. bt_get k (entries s) \<noteq> None} \<subseteq> of_nat ` {..<unat (next_ino s)}"
    using D(6) by (force simp: word_less_nat_alt image_iff intro: bexI [of _ "unat _"])
  then have "card {k. bt_get k (entries s) \<noteq> None} \<le> card {..<unat (next_ino s)}"
    by (meson card_image_le card_mono finite_imageI finite_lessThan le_trans)
  then have "vec_ok (entries s)"
    using u64_bound [of "next_ino s"] unfolding bt.card_keys [OF D(4)] by (simp add: vec_ok_def)
  moreover have "e_ino e = k \<and> entry_wf e" if "(k, e) \<in> set (entries s)" for k e
    using that D(5) fs_ok_entry_wf [OF N ok] bt.pairs_get [OF D(4)] by blast
  ultimately show ?thesis using D(4) by (auto simp: entries_wf_def)
qed

lemma fs_ok_all_named: "fs_ok P cr N s \<Longrightarrow> all_named (entries s)"
  using bt.pairs_get [of "entries s"]
  by (fastforce simp: fs_ok_def index_ok_def keys_ok_def names_ok_def all_named_def dest: decrypt_filename_nonempty)

section \<open>Keeping the tree\<close>

lemma tree_ok_root: "tree_ok m \<Longrightarrow> \<exists>e. bt_get FUSE_ROOT_ID m = Some e \<and> e_kind e = Dir \<and> e_parent e = FUSE_ROOT_ID"
  by (simp add: tree_ok_def)

lemma tree_ok_parent: "tree_ok m \<Longrightarrow> bt_get i m = Some e \<Longrightarrow> \<exists>p. bt_get (e_parent e) m = Some p \<and> e_kind p = Dir"
  by (auto simp: tree_ok_def)

lemma tree_ok_rooted: "tree_ok m \<Longrightarrow> bt_get i m = Some e \<Longrightarrow> (i, FUSE_ROOT_ID) \<in> (parent_rel m)\<^sup>*"
  by (auto simp: tree_ok_def)

lemma tree_okI:
  assumes "\<exists>e. bt_get FUSE_ROOT_ID m = Some e \<and> e_kind e = Dir \<and> e_parent e = FUSE_ROOT_ID"
    and "\<And>i e. bt_get i m = Some e \<Longrightarrow> \<exists>p. bt_get (e_parent e) m = Some p \<and> e_kind p = Dir"
    and "\<And>i e. bt_get i m = Some e \<Longrightarrow> (i, FUSE_ROOT_ID) \<in> (parent_rel m)\<^sup>*"
  shows "tree_ok m"
  using assms by (auto simp: tree_ok_def)

lemma tree_ok_insert:
  assumes t: "tree_ok m" and i: "bt_get i m = None" and p: "bt_get (e_parent e) m = Some p" "e_kind p = Dir"
  shows "tree_ok (bt_insert i e m)"
proof (rule tree_okI)
  let ?m = "bt_insert i e m"
  have root: "i \<noteq> FUSE_ROOT_ID" using tree_ok_root [OF t] i by auto
  have old: "bt_get j m = Some x \<Longrightarrow> bt_get j ?m = Some x" for j x
    using i by (auto simp: bt_get_insert)
  then have "parent_rel m \<subseteq> parent_rel ?m" by (auto simp: parent_rel_iff)
  then have mono: "(parent_rel m)\<^sup>* \<subseteq> (parent_rel ?m)\<^sup>*" by (rule rtrancl_mono)
  show "\<exists>x. bt_get FUSE_ROOT_ID ?m = Some x \<and> e_kind x = Dir \<and> e_parent x = FUSE_ROOT_ID"
    using tree_ok_root [OF t] old by blast
  fix j x assume j: "bt_get j ?m = Some x"
  show "\<exists>y. bt_get (e_parent x) ?m = Some y \<and> e_kind y = Dir"
  proof -
    have "\<exists>y. bt_get (e_parent x) m = Some y \<and> e_kind y = Dir"
      using j p tree_ok_parent [OF t, of j x] by (simp add: bt_get_insert split: if_splits)
    then show ?thesis using old by blast
  qed
  have "(i, e_parent e) \<in> parent_rel ?m" using root by (simp add: parent_rel_iff bt_get_insert)
  moreover have "(e_parent e, FUSE_ROOT_ID) \<in> (parent_rel ?m)\<^sup>*"
    using tree_ok_rooted [OF t p(1)] mono by blast
  ultimately have "(i, FUSE_ROOT_ID) \<in> (parent_rel ?m)\<^sup>*" by (rule converse_rtrancl_into_rtrancl)
  then show "(j, FUSE_ROOT_ID) \<in> (parent_rel ?m)\<^sup>*"
    using j tree_ok_rooted [OF t, of j x] mono by (cases "j = i") (auto simp: bt_get_insert)
qed

lemma tree_ok_remove:
  assumes t: "tree_ok m" and i: "i \<noteq> FUSE_ROOT_ID"
    and kids: "\<And>j e. bt_get j m = Some e \<Longrightarrow> j \<noteq> FUSE_ROOT_ID \<Longrightarrow> e_parent e \<noteq> i"
  shows "tree_ok (bt_remove i m)"
proof (rule tree_okI)
  let ?m = "bt_remove i m"
  show "\<exists>x. bt_get FUSE_ROOT_ID ?m = Some x \<and> e_kind x = Dir \<and> e_parent x = FUSE_ROOT_ID"
    using tree_ok_root [OF t] i by (simp add: bt_get_remove)
  have up: "e_parent x \<noteq> i" if "bt_get j m = Some x" for j x
    using kids [OF that] tree_ok_root [OF t] that i by (cases "j = FUSE_ROOT_ID") auto
  have path: "(j, FUSE_ROOT_ID) \<in> (parent_rel m)\<^sup>* \<Longrightarrow> j \<noteq> i \<Longrightarrow> (j, FUSE_ROOT_ID) \<in> (parent_rel ?m)\<^sup>*" for j
  proof (induction rule: converse_rtrancl_induct)
    case (step j k)
    then have "k \<noteq> i" "(j, k) \<in> parent_rel ?m"
      using up by (auto simp: parent_rel_iff bt_get_remove)
    with step.IH show ?case by (meson converse_rtrancl_into_rtrancl)
  qed simp
  fix j x assume "bt_get j ?m = Some x"
  then have j: "bt_get j m = Some x" "j \<noteq> i" by (simp_all add: bt_get_remove split: if_splits)
  show "\<exists>y. bt_get (e_parent x) ?m = Some y \<and> e_kind y = Dir"
    using tree_ok_parent [OF t j(1)] up [OF j(1)] by (simp add: bt_get_remove)
  show "(j, FUSE_ROOT_ID) \<in> (parent_rel ?m)\<^sup>*"
    using path [OF tree_ok_rooted [OF t j(1)] j(2)] .
qed

text \<open>Moving an inode below a directory that is not below the inode keeps every path to the root.\<close>

lemma tree_ok_move:
  assumes t: "tree_ok m" and i: "bt_get i m = Some e" "i \<noteq> FUSE_ROOT_ID" "e_kind e' = e_kind e"
    and p: "bt_get (e_parent e') m = Some pe" "e_kind pe = Dir"
    and below: "(e_parent e', i) \<notin> (parent_rel m)\<^sup>*"
  shows "tree_ok (bt_insert i e' m)"
proof (rule tree_okI)
  let ?m = "bt_insert i e' m" and ?R = "parent_rel m"
  have R': "j \<noteq> i \<Longrightarrow> (j, k) \<in> parent_rel ?m \<longleftrightarrow> (j, k) \<in> ?R" for j k
    by (simp add: parent_rel_iff bt_get_insert)
  have "(j, FUSE_ROOT_ID) \<in> ?R\<^sup>* \<Longrightarrow> (j, i) \<notin> ?R\<^sup>* \<Longrightarrow> (j, FUSE_ROOT_ID) \<in> (parent_rel ?m)\<^sup>*" for j
  proof (induction rule: converse_rtrancl_induct)
    case (step j k)
    then have "j \<noteq> i" "(k, i) \<notin> ?R\<^sup>*" by (auto intro: converse_rtrancl_into_rtrancl)
    with step R' show ?case by (meson converse_rtrancl_into_rtrancl)
  qed simp
  then have "(e_parent e', FUSE_ROOT_ID) \<in> (parent_rel ?m)\<^sup>*"
    using tree_ok_rooted [OF t p(1)] below by blast
  moreover have "(i, e_parent e') \<in> parent_rel ?m" using i by (simp add: parent_rel_iff bt_get_insert)
  ultimately have new: "(i, FUSE_ROOT_ID) \<in> (parent_rel ?m)\<^sup>*" by (meson converse_rtrancl_into_rtrancl)
  have path: "(j, FUSE_ROOT_ID) \<in> ?R\<^sup>* \<Longrightarrow> (j, FUSE_ROOT_ID) \<in> (parent_rel ?m)\<^sup>*" for j
  proof (induction rule: converse_rtrancl_induct)
    case (step j k)
    with new R' show ?case by (cases "j = i") (auto intro: converse_rtrancl_into_rtrancl)
  qed simp
  show "\<exists>x. bt_get FUSE_ROOT_ID ?m = Some x \<and> e_kind x = Dir \<and> e_parent x = FUSE_ROOT_ID"
    using tree_ok_root [OF t] i(2) by (simp add: bt_get_insert)
  fix j x assume j: "bt_get j ?m = Some x"
  have dir: "\<exists>y. bt_get k ?m = Some y \<and> e_kind y = Dir" if "bt_get k m = Some z" "e_kind z = Dir" for k z
    using that i by (auto simp: bt_get_insert)
  have "\<exists>y. bt_get (e_parent x) m = Some y \<and> e_kind y = Dir"
    using j p tree_ok_parent [OF t, of j x] by (simp add: bt_get_insert split: if_splits)
  then show "\<exists>y. bt_get (e_parent x) ?m = Some y \<and> e_kind y = Dir"
    using dir by blast
  show "(j, FUSE_ROOT_ID) \<in> (parent_rel ?m)\<^sup>*"
    using j new path tree_ok_rooted [OF t, of j x] by (cases "j = i") (auto simp: bt_get_insert)
qed

text \<open>Only directories have children.\<close>

lemma file_has_no_children:
  assumes "tree_ok m" and "bt_get i m = Some e" and "e_kind e \<noteq> Dir" and "bt_get j m = Some x"
  shows "e_parent x \<noteq> i"
  using tree_ok_parent [OF assms(1,4)] assms(2,3) by auto

lemma file_has_no_descendants:
  assumes "tree_ok m" and "bt_get i m = Some e" and "e_kind e \<noteq> Dir" and "(j, i) \<in> (parent_rel m)\<^sup>*"
  shows "j = i"
  using assms(4)
proof (cases rule: rtranclE)
  case (step k)
  then show ?thesis using file_has_no_children [OF assms(1-3)] by (auto simp: parent_rel_iff)
qed

section \<open>An abstract name space\<close>

text \<open>
  The specification of the name-space requests: a directory is a map from names to inodes,
  inodes have a kind, and the next inode number is a counter.
\<close>

record ns =
  ns_dir :: "u64 \<times> bytes \<rightharpoonup> u64"
  ns_kind :: "u64 \<rightharpoonup> entry_kind"
  ns_fresh :: u64

datatype outcome = Done | Fail errno

definition ns_empty :: "ns \<Rightarrow> u64 \<Rightarrow> bool" where
  "ns_empty \<sigma> i \<longleftrightarrow> (\<forall>nm. ns_dir \<sigma> (i, nm) = None)"

definition ns_up :: "ns \<Rightarrow> (u64 \<times> u64) set" where
  "ns_up \<sigma> = {(i, p). \<exists>nm. ns_dir \<sigma> (p, nm) = Some i}"

definition spec_add :: "entry_kind \<Rightarrow> u64 \<Rightarrow> bytes \<Rightarrow> ns \<Rightarrow> outcome \<times> ns" where
  "spec_add k p nm \<sigma> =
     (if ns_dir \<sigma> (p, nm) \<noteq> None then (Fail EEXIST, \<sigma>)
      else (Done, \<sigma>\<lparr>ns_dir := (ns_dir \<sigma>)((p, nm) \<mapsto> ns_fresh \<sigma>),
        ns_kind := (ns_kind \<sigma>)(ns_fresh \<sigma> \<mapsto> k), ns_fresh := ns_fresh \<sigma> + 1\<rparr>))"

definition ns_drop :: "u64 \<Rightarrow> bytes \<Rightarrow> u64 \<Rightarrow> ns \<Rightarrow> ns" where
  "ns_drop p nm i \<sigma> = \<sigma>\<lparr>ns_dir := (ns_dir \<sigma>)((p, nm) := None), ns_kind := (ns_kind \<sigma>)(i := None)\<rparr>"

definition spec_unlink :: "u64 \<Rightarrow> bytes \<Rightarrow> ns \<Rightarrow> outcome \<times> ns" where
  "spec_unlink p nm \<sigma> =
     (case ns_dir \<sigma> (p, nm) of
        None \<Rightarrow> (Fail ENOENT, \<sigma>)
      | Some i \<Rightarrow> if ns_kind \<sigma> i = Some Dir then (Fail EISDIR, \<sigma>) else (Done, ns_drop p nm i \<sigma>))"

definition spec_rmdir :: "u64 \<Rightarrow> bytes \<Rightarrow> ns \<Rightarrow> outcome \<times> ns" where
  "spec_rmdir p nm \<sigma> =
     (case ns_dir \<sigma> (p, nm) of
        None \<Rightarrow> (Fail ENOENT, \<sigma>)
      | Some i \<Rightarrow>
          if ns_kind \<sigma> i \<noteq> Some Dir then (Fail ENOTDIR, \<sigma>)
          else if \<not> ns_empty \<sigma> i then (Fail ENOTEMPTY, \<sigma>)
          else (Done, ns_drop p nm i \<sigma>))"

definition ns_move :: "u64 \<Rightarrow> bytes \<Rightarrow> u64 \<Rightarrow> bytes \<Rightarrow> u64 \<Rightarrow> ns \<Rightarrow> ns" where
  "ns_move p nm p' nm' i \<sigma> = \<sigma>\<lparr>ns_dir := ((ns_dir \<sigma>)((p, nm) := None))((p', nm') \<mapsto> i)\<rparr>"

definition spec_rename :: "u64 \<Rightarrow> bytes \<Rightarrow> u64 \<Rightarrow> bytes \<Rightarrow> ns \<Rightarrow> outcome \<times> ns" where
  "spec_rename p nm p' nm' \<sigma> =
     (case ns_dir \<sigma> (p, nm) of
        None \<Rightarrow> (Fail ENOENT, \<sigma>)
      | Some i \<Rightarrow>
          if ns_kind \<sigma> p' = None then (Fail ENOENT, \<sigma>)
          else if ns_kind \<sigma> p' \<noteq> Some Dir then (Fail ENOTDIR, \<sigma>)
          else if ns_kind \<sigma> i = Some Dir \<and> (p', i) \<in> (ns_up \<sigma>)\<^sup>* then (Fail EINVAL, \<sigma>)
          else (case ns_dir \<sigma> (p', nm') of
              None \<Rightarrow> (Done, ns_move p nm p' nm' i \<sigma>)
            | Some j \<Rightarrow>
                if j = i then (Done, ns_move p nm p' nm' i \<sigma>)
                else if ns_kind \<sigma> i = Some Dir \<and> ns_kind \<sigma> j = Some Dir \<and> \<not> ns_empty \<sigma> j then (Fail ENOTEMPTY, \<sigma>)
                else if ns_kind \<sigma> i = Some Dir \<and> ns_kind \<sigma> j \<noteq> Some Dir then (Fail ENOTDIR, \<sigma>)
                else if ns_kind \<sigma> i \<noteq> Some Dir \<and> ns_kind \<sigma> j = Some Dir then (Fail EISDIR, \<sigma>)
                else (Done, ns_move p nm p' nm' i (ns_drop p' nm' j \<sigma>))))"

section \<open>The name space a mounted volume implements\<close>

definition ns_of :: "prims \<Rightarrow> crypto \<Rightarrow> pqfs_inner \<Rightarrow> ns" where
  "ns_of P cr s = \<lparr>
     ns_dir = (\<lambda>(p, nm). if to_string_lossy nm = nm then map_option e_ino (find_child P cr s p nm) else None),
     ns_kind = (\<lambda>i. map_option e_kind (bt_get i (entries s))),
     ns_fresh = next_ino s\<rparr>"

lemma to_string_lossy_idem [simp]: "to_string_lossy (to_string_lossy x) = to_string_lossy x"
  by (simp add: to_string_lossy_valid utf8_valid_lossy)

lemma option_eqI: "(\<And>x. a = Some x \<longleftrightarrow> b = Some x) \<Longrightarrow> a = b"
  by (metis option.exhaust)

lemma ns_of_dir_iff:
  assumes "index_ok s" and "names_ok P cr N (entries s)"
  shows "ns_dir (ns_of P cr s) (p, nm) = Some i \<longleftrightarrow> named P cr (entries s) i p nm"
proof (cases "to_string_lossy nm = nm")
  case True
  then show ?thesis using find_child_named [OF assms, of p nm i] by (simp add: ns_of_def)
next
  case False
  then have "\<not> utf8_valid nm" using to_string_lossy_valid by blast
  then have "\<not> named P cr (entries s) i p nm" using decrypt_filename_valid by (auto simp: named_def)
  with False show ?thesis by (simp add: ns_of_def)
qed

lemma ns_of_lookup:
  "ns_dir (ns_of P cr s) (p, to_string_lossy os) = map_option e_ino (find_child P cr s p os)"
  by (simp add: ns_of_def find_child_def)

lemma ns_of_sel [simp]:
  "ns_kind (ns_of P cr s) i = map_option e_kind (bt_get i (entries s))"
  "ns_fresh (ns_of P cr s) = next_ino s"
  by (simp_all add: ns_of_def)

lemma ns_of_up:
  assumes "index_ok s" and "names_ok P cr N (entries s)"
  shows "ns_up (ns_of P cr s) = parent_rel (entries s)"
proof -
  have "(i, p) \<in> ns_up (ns_of P cr s) \<longleftrightarrow> (i, p) \<in> parent_rel (entries s)" for i p
    using assms(2) unfolding ns_up_def parent_rel_iff
    by (auto simp: ns_of_dir_iff [OF assms] named_def names_ok_def) blast
  then show ?thesis by auto
qed

lemma has_children_iff:
  assumes "index_ok s" and "names_ok P cr N (entries s)"
  shows "has_children s i \<longleftrightarrow> \<not> ns_empty (ns_of P cr s) i"
proof -
  have "has_children s i \<longleftrightarrow> kids s i \<noteq> []"
    by (simp add: has_children_def kids_def split: option.splits)
  also have "\<dots> \<longleftrightarrow> (\<exists>j. j \<in> set (kids s i))" by (cases "kids s i") auto
  also have "\<dots> \<longleftrightarrow> (\<exists>j. (j, i) \<in> parent_rel (entries s))"
    by (auto simp: index_ok_kids [OF assms(1)] links_iff parent_rel_iff)
  also have "\<dots> \<longleftrightarrow> \<not> ns_empty (ns_of P cr s) i"
    unfolding ns_of_up [OF assms, symmetric] by (auto simp: ns_up_def ns_empty_def)
  finally show ?thesis .
qed

lemma no_children_parent:
  assumes "index_ok s" and "\<not> has_children s i" and "bt_get j (entries s) = Some e" and "j \<noteq> FUSE_ROOT_ID"
  shows "e_parent e \<noteq> i"
proof
  assume "e_parent e = i"
  with assms have "j \<in> set (kids s i)" by (auto simp: index_ok_kids links_iff)
  with assms(2) show False by (auto simp: has_children_def kids_def split: option.splits)
qed

text \<open>Two states of the metadata with the entries given implement the same name space.\<close>

lemma ns_of_eqI:
  assumes "index_ok s" and "names_ok P cr N (entries s)"
    and "\<And>p nm i. named P cr (entries s) i p nm \<longleftrightarrow> ns_dir \<sigma> (p, nm) = Some i"
    and "\<And>i. map_option e_kind (bt_get i (entries s)) = ns_kind \<sigma> i"
    and "next_ino s = ns_fresh \<sigma>"
  shows "ns_of P cr s = \<sigma>"
proof (rule ns.equality)
  have "ns_dir (ns_of P cr s) pn = ns_dir \<sigma> pn" for pn
    by (cases pn, rule option_eqI) (simp add: ns_of_dir_iff [OF assms(1,2)] assms(3))
  then show "ns_dir (ns_of P cr s) = ns_dir \<sigma>" by blast
  show "ns_kind (ns_of P cr s) = ns_kind \<sigma>" using assms(4) by auto
qed (use assms(5) in \<open>simp_all add: ns_of_def\<close>)

section \<open>Adding, dropping and moving an entry\<close>

lemma names_ok_insert:
  "names_ok P cr N m \<Longrightarrow> decrypt_filename P cr (e_name_encrypted e) = Inr nm \<Longrightarrow> nm \<in> N \<Longrightarrow>
   e_name_hash e = hash_filename P cr nm \<Longrightarrow> vec_ok (e_content_key e) \<Longrightarrow> vec_ok (e_link_target e) \<Longrightarrow> names_ok P cr N (bt_insert i e m)"
  by (auto simp: names_ok_def bt_get_insert)

lemma names_ok_remove: "names_ok P cr N m \<Longrightarrow> names_ok P cr N (bt_remove i m)"
  by (auto simp: names_ok_def bt_get_remove)

lemma unat_next: "unat (x :: u64) + 1 < 2 ^ 64 \<Longrightarrow> unat (x + 1) = unat x + 1"
  by (subst unat_plus) simp_all

lemma insert_fresh:
  assumes ok: "fs_ok P cr N s" and N: "name_space P cr N"
    and none: "find_child P cr s (e_parent e) os = None" and nm: "nm = to_string_lossy os" "nm \<in> N"
    and e: "e_ino e = next_ino s" "e_name_hash e = hash_filename P cr nm"
      "decrypt_filename P cr (e_name_encrypted e) = Inr nm" "vec_ok (e_content_key e)" "vec_ok (e_link_target e)"
    and p: "bt_get (e_parent e) (entries s) = Some pe" "e_kind pe = Dir"
    and room: "unat (next_ino s) + 1 < 2 ^ 64"
  shows "fs_ok P cr N (insert_entry e (s\<lparr>next_ino := next_ino s + 1\<rparr>))"
    and "spec_add (e_kind e) (e_parent e) nm (ns_of P cr s) =
      (Done, ns_of P cr (insert_entry e (s\<lparr>next_ino := next_ino s + 1\<rparr>)))"
proof -
  let ?s = "insert_entry e (s\<lparr>next_ino := next_ino s + 1\<rparr>)"
  note D = fs_okD [OF ok]
  let ?m = "bt_insert (next_ino s) e (entries s)"
  have free: "bt_get (next_ino s) (entries s) = None"
    using D(6) [of "next_ino s"] by (cases "bt_get (next_ino s) (entries s)") auto
  have root: "next_ino s \<noteq> FUSE_ROOT_ID" using free tree_ok_root [OF D(3)] by auto
  have s0: "index_ok (s\<lparr>next_ino := next_ino s + 1\<rparr>)" "links (s\<lparr>next_ino := next_ino s + 1\<rparr>) = links s"
    using D(1) by (simp_all add: index_ok_frame [of "s\<lparr>next_ino := next_ino s + 1\<rparr>" s] links_def)
  have es: "entries ?s = ?m" "next_ino ?s = next_ino s + 1" by (simp_all add: e)
  have 1: "index_ok ?s"
    using find_child_None [OF D(1,2) N, of os "e_parent e"] none nm e(2)
    by (intro index_ok_insert_entry s0(1)) (auto simp: s0(2))
  have 2: "names_ok P cr N (entries ?s)"
    unfolding es by (rule names_ok_insert [OF D(2) e(3) nm(2) e(2,4,5)])
  have 3: "tree_ok (entries ?s)"
    unfolding es by (rule tree_ok_insert [OF D(3) free p])
  have "i < next_ino s + 1" if "i \<le> next_ino s" for i
    using that unat_next [OF room] by (simp add: word_le_nat_alt word_less_nat_alt)
  then have "\<forall>i x. bt_get i (entries ?s) = Some x \<longrightarrow> i < next_ino ?s"
    unfolding es using D(6) by (auto simp: bt_get_insert less_imp_le split: if_splits)
  with 1 2 3 show "fs_ok P cr N ?s" by (simp add: fs_ok_def)
  have none': "ns_dir (ns_of P cr s) (e_parent e, nm) = None"
    unfolding nm(1) ns_of_lookup by (simp add: none)
  have "ns_of P cr ?s = snd (spec_add (e_kind e) (e_parent e) nm (ns_of P cr s))"
  proof (rule ns_of_eqI [OF 1 2])
    fix q m j
    have old: "named P cr (entries s) j q m \<longleftrightarrow> ns_dir (ns_of P cr s) (q, m) = Some j"
      by (rule ns_of_dir_iff [OF D(1,2), symmetric])
    have "named P cr (entries ?s) j q m \<longleftrightarrow>
        (if j = next_ino s then q = e_parent e \<and> m = nm else named P cr (entries s) j q m)"
      unfolding es named_def using root e(3) by (auto simp: bt_get_insert)
    moreover have "\<not> named P cr (entries s) (next_ino s) q m" using free by (simp add: named_def)
    ultimately show "named P cr (entries ?s) j q m \<longleftrightarrow>
        ns_dir (snd (spec_add (e_kind e) (e_parent e) nm (ns_of P cr s))) (q, m) = Some j"
      using none' old by (auto simp: spec_add_def)
  qed (use none' in \<open>simp_all add: es e spec_add_def bt_get_insert\<close>)
  then show "spec_add (e_kind e) (e_parent e) nm (ns_of P cr s) = (Done, ns_of P cr ?s)"
    using none' by (simp add: spec_add_def)
qed

lemma named_unique:
  assumes "index_ok s" and "names_ok P cr N (entries s)"
    and "named P cr (entries s) i p nm" and "named P cr (entries s) j p nm"
  shows "i = j"
  using assms(3,4) unfolding ns_of_dir_iff [OF assms(1,2), symmetric] by simp

lemma named_name: "named P cr m i p nm \<Longrightarrow> named P cr m i q nm' \<Longrightarrow> q = p \<and> nm' = nm"
  by (auto simp: named_def)

lemma drop_entry:
  assumes ok: "fs_ok P cr N s" and i: "named P cr (entries s) i p nm"
    and kids: "\<And>j e. bt_get j (entries s) = Some e \<Longrightarrow> j \<noteq> FUSE_ROOT_ID \<Longrightarrow> e_parent e \<noteq> i"
  shows "fs_ok P cr N (snd (remove_entry i s))"
    and "ns_of P cr (snd (remove_entry i s)) = ns_drop p nm i (ns_of P cr s)"
proof -
  note D = fs_okD [OF ok]
  let ?s = "snd (remove_entry i s)"
  have root: "i \<noteq> FUSE_ROOT_ID" using i by (auto simp: named_def)
  have 1: "index_ok ?s" by (rule index_ok_remove_entry [OF D(1)])
  have 2: "names_ok P cr N (entries ?s)" using names_ok_remove [OF D(2)] by simp
  have "tree_ok (entries ?s)" using tree_ok_remove [OF D(3) root kids] by simp
  moreover have "j < next_ino ?s" if "bt_get j (entries ?s) = Some x" for j x
    using that D(6) [of j x] by (simp add: bt_get_remove split: if_splits)
  ultimately show "fs_ok P cr N ?s" using 1 2 by (simp add: fs_ok_def)
  show "ns_of P cr ?s = ns_drop p nm i (ns_of P cr s)"
  proof (rule ns_of_eqI [OF 1 2])
    fix q m j
    have "named P cr (entries ?s) j q m \<longleftrightarrow> j \<noteq> i \<and> named P cr (entries s) j q m"
      by (simp add: named_def bt_get_remove)
    also have "\<dots> \<longleftrightarrow> (q, m) \<noteq> (p, nm) \<and> named P cr (entries s) j q m"
    proof (cases "named P cr (entries s) j q m")
      case True
      have "(q, m) = (p, nm)" if "j = i" using named_name [OF i, of q m] True that by simp
      moreover have "j = i" if "(q, m) = (p, nm)" using named_unique [OF D(1,2) i, of j] True that by simp
      ultimately show ?thesis using True by blast
    qed simp
    finally show "named P cr (entries ?s) j q m \<longleftrightarrow> ns_dir (ns_drop p nm i (ns_of P cr s)) (q, m) = Some j"
      by (simp add: ns_drop_def ns_of_dir_iff [OF D(1,2)])
  qed (simp_all add: ns_drop_def bt_get_remove)
qed

lemma move_entry:
  assumes ok: "fs_ok P cr N s" and N: "name_space P cr N" and i: "named P cr (entries s) i p nm"
    and free: "\<And>j. named P cr (entries s) j p' nm' \<Longrightarrow> j = i"
    and p': "bt_get p' (entries s) = Some pe" "e_kind pe = Dir" "(p', i) \<notin> (parent_rel (entries s))\<^sup>*"
    and ne: "decrypt_filename P cr ne = Inr nm'" "nm' \<in> N"
  shows "fs_ok P cr N (fst (relink i p' (hash_filename P cr nm') ne s w))"
    and "ns_of P cr (fst (relink i p' (hash_filename P cr nm') ne s w)) = ns_move p nm p' nm' i (ns_of P cr s)"
proof -
  note D = fs_okD [OF ok]
  let ?s = "fst (relink i p' (hash_filename P cr nm') ne s w)"
  obtain e where e: "bt_get i (entries s) = Some e" and root: "i \<noteq> FUSE_ROOT_ID"
    using i by (auto simp: named_def)
  obtain t where r: "relink i p' (hash_filename P cr nm') ne s w =
    (link i p' (hash_filename P cr nm') ((unlink_index i (e_parent e) (e_name_hash e) s)
       \<lparr>entries := bt_insert i (e\<lparr>e_parent := p', e_name_hash := hash_filename P cr nm',
         e_name_encrypted := ne, e_times := t\<rparr>) (entries s)\<rparr>), drop_clock w)"
    using relink_run [OF e] by blast
  define e' where "e' = e\<lparr>e_parent := p', e_name_hash := hash_filename P cr nm',
    e_name_encrypted := ne, e_times := t\<rparr>"
  have es: "entries ?s = bt_insert i e' (entries s)" "next_ino ?s = next_ino s"
    by (simp_all add: r e'_def)
  have hash_free: "j = i" if "(j, p', hash_filename P cr nm') \<in> links s" for j
  proof -
    from that obtain x where x: "bt_get j (entries s) = Some x" "j \<noteq> FUSE_ROOT_ID" "e_parent x = p'"
      "e_name_hash x = hash_filename P cr nm'" by (auto simp: links_iff)
    then obtain m where "m \<in> N" "decrypt_filename P cr (e_name_encrypted x) = Inr m"
      "e_name_hash x = hash_filename P cr m" using D(2) unfolding names_ok_def by blast
    with x ne(2) N have "named P cr (entries s) j p' nm'"
      by (auto simp: named_def name_space_def dest: inj_onD)
    then show ?thesis by (rule free)
  qed
  have 1: "index_ok ?s" by (rule index_ok_relink [OF D(1) e root hash_free])
  have 2: "names_ok P cr N (entries ?s)"
    unfolding es by (rule names_ok_insert [OF D(2) _ ne(2)])
      (use D(2) e in \<open>auto simp: e'_def ne names_ok_def\<close>)
  have "tree_ok (entries ?s)"
    unfolding es by (rule tree_ok_move [OF D(3) e root]) (use p' in \<open>simp_all add: e'_def\<close>)
  with 1 2 D(6) e show "fs_ok P cr N ?s" by (auto simp: fs_ok_def es bt_get_insert)
  show "ns_of P cr ?s = ns_move p nm p' nm' i (ns_of P cr s)"
  proof (rule ns_of_eqI [OF 1 2])
    fix q m j
    have "named P cr (entries ?s) j q m \<longleftrightarrow>
        (if j = i then (q, m) = (p', nm') else named P cr (entries s) j q m)"
      unfolding es named_def using root ne(1) by (auto simp: bt_get_insert e'_def)
    also have "\<dots> \<longleftrightarrow> (if (q, m) = (p', nm') then j = i else (q, m) \<noteq> (p, nm) \<and> named P cr (entries s) j q m)"
    proof (cases "j = i")
      case True
      have "(q, m) = (p, nm)" if "named P cr (entries s) i q m" using named_name [OF i that] by simp
      with True show ?thesis by auto
    next
      case False
      have "(q, m) \<noteq> (p', nm')" if "named P cr (entries s) j q m" using that free False by auto
      moreover have "(q, m) \<noteq> (p, nm)" if "named P cr (entries s) j q m"
        using that named_unique [OF D(1,2) i, of j] False by auto
      ultimately show ?thesis using False by auto
    qed
    finally show "named P cr (entries ?s) j q m \<longleftrightarrow> ns_dir (ns_move p nm p' nm' i (ns_of P cr s)) (q, m) = Some j"
      by (auto simp: ns_move_def ns_of_dir_iff [OF D(1,2)])
  qed (use e in \<open>simp_all add: ns_move_def es bt_get_insert e'_def\<close>)
qed

end
