(* ===== verification/Bincode.thy ===== *)
theory Bincode
  imports Sample Inner
begin

text \<open>
  A concrete codec for the serialised types: the format of \<open>bincode::serialize\<close> (little-endian
  fixed-width integers, 64-bit lengths, 32-bit variant tags, fields in order).  It shows that
  the round-trip law the development assumes of the codec can be met, and the witnesses run on it.
  The locale \<open>format\<close> is the contract of one encoder/decoder pair; the combinators keep it.
\<close>

section \<open>Encoders and decoders\<close>

type_synonym 'a decoder = "bytes \<Rightarrow> ('a \<times> bytes) option"

fun nat_le :: "nat \<Rightarrow> nat \<Rightarrow> bytes" where
  "nat_le 0 n = []"
| "nat_le (Suc k) n = of_nat (n mod 256) # nat_le k (n div 256)"

fun of_le :: "bytes \<Rightarrow> nat" where
  "of_le [] = 0"
| "of_le (b # bs) = unat b + 256 * of_le bs"

definition get_raw :: "nat \<Rightarrow> bytes decoder" where
  "get_raw n bs = (if length bs < n then None else Some (take n bs, drop n bs))"

definition then_dec :: "'a decoder \<Rightarrow> ('a \<Rightarrow> 'b decoder) \<Rightarrow> 'b decoder" where
  "then_dec d f bs = (case d bs of None \<Rightarrow> None | Some (x, r) \<Rightarrow> f x r)"

definition done_dec :: "'a \<Rightarrow> 'a decoder" where
  "done_dec x bs = Some (x, bs)"

definition get_nat :: "nat \<Rightarrow> nat decoder" where
  "get_nat k = then_dec (get_raw k) (\<lambda>b. done_dec (of_le b))"

definition put_word :: "nat \<Rightarrow> 'a::len word \<Rightarrow> bytes" where
  "put_word k x = nat_le k (unat x)"

definition get_word :: "nat \<Rightarrow> 'a::len word decoder" where
  "get_word k = then_dec (get_nat k) (\<lambda>n. done_dec (of_nat n))"

definition put_vec :: "bytes \<Rightarrow> bytes" where
  "put_vec xs = nat_le 8 (length xs) @ xs"

definition get_vec :: "bytes decoder" where
  "get_vec = then_dec (get_nat 8) get_raw"

fun get_many :: "'a decoder \<Rightarrow> nat \<Rightarrow> 'a list decoder" where
  "get_many d 0 = done_dec []"
| "get_many d (Suc n) = then_dec d (\<lambda>x. then_dec (get_many d n) (\<lambda>xs. done_dec (x # xs)))"

definition put_list :: "('a \<Rightarrow> bytes) \<Rightarrow> 'a list \<Rightarrow> bytes" where
  "put_list e xs = nat_le 8 (length xs) @ concat (map e xs)"

definition get_list :: "'a decoder \<Rightarrow> 'a list decoder" where
  "get_list d = then_dec (get_nat 8) (get_many d)"

section \<open>The contract\<close>

locale format =
  fixes enc :: "'a \<Rightarrow> bytes"
    and dcd :: "'a decoder"
    and ok :: "'a \<Rightarrow> bool"
  assumes dcd_enc: "ok x \<Longrightarrow> dcd (enc x @ rest) = Some (x, rest)"
begin

lemma whole: "ok x \<Longrightarrow> dcd (enc x) = Some (x, [])"
  using dcd_enc [of x "[]"] by simp

lemma prefix_free: "ok x \<Longrightarrow> ok y \<Longrightarrow> enc x @ r = enc y @ r' \<Longrightarrow> x = y \<and> r = r'"
  by (metis dcd_enc option.inject prod.inject)

lemma many: "list_all ok xs \<Longrightarrow> get_many dcd (length xs) (concat (map enc xs) @ rest) = Some (xs, rest)"
  by (induction xs) (simp_all add: done_dec_def then_dec_def dcd_enc)

end

lemma length_nat_le [simp]: "length (nat_le k n) = k"
  by (induction k arbitrary: n) simp_all

lemma of_le_nat_le: "n < 256 ^ k \<Longrightarrow> of_le (nat_le k n) = n"
proof (induction k arbitrary: n)
  case (Suc k)
  then have "n div 256 < 256 ^ k" by (simp add: less_mult_imp_div_less mult.commute)
  with Suc.IH show ?case by (simp add: unat_of_nat)
qed simp

lemma get_raw_ok [simp]: "get_raw (length xs) (xs @ rest) = Some (xs, rest)"
  by (simp add: get_raw_def)

interpretation fixed: format "\<lambda>xs. xs" "get_raw n" "\<lambda>xs. length xs = n" for n
  by unfold_locales auto

interpretation natural: format "nat_le k" "get_nat k" "\<lambda>n. n < 256 ^ k" for k
proof
  fix n :: nat and rest assume "n < 256 ^ k"
  then show "get_nat k (nat_le k n @ rest) = Some (n, rest)"
    using fixed.dcd_enc [of "nat_le k n" k rest] by (simp add: get_nat_def then_dec_def done_dec_def of_le_nat_le)
qed

interpretation vec: format put_vec get_vec vec_ok
proof
  fix xs rest :: bytes assume "vec_ok xs"
  then have "length xs < 256 ^ 8" by (simp add: vec_ok_def)
  then show "get_vec (put_vec xs @ rest) = Some (xs, rest)"
    by (simp add: get_vec_def put_vec_def then_dec_def natural.dcd_enc)
qed

lemma format_word:
  assumes "2 ^ LENGTH('a::len) \<le> (256 :: nat) ^ k"
  shows "format (put_word k :: 'a word \<Rightarrow> bytes) (get_word k) (\<lambda>_. True)"
proof
  fix x :: "'a word" and rest
  have "unat x < 256 ^ k" using assms unsigned_less [of x, where ?'a = nat] by linarith
  then show "get_word k (put_word k x @ rest) = Some (x, rest)"
    by (simp add: get_word_def put_word_def then_dec_def done_dec_def natural.dcd_enc)
qed

interpretation w16: format "put_word 2 :: u16 \<Rightarrow> bytes" "get_word 2" "\<lambda>_. True"
  by (rule format_word) simp

interpretation w32: format "put_word 4 :: u32 \<Rightarrow> bytes" "get_word 4" "\<lambda>_. True"
  by (rule format_word) simp

interpretation w64: format "put_word 8 :: u64 \<Rightarrow> bytes" "get_word 8" "\<lambda>_. True"
  by (rule format_word) simp

lemma format_list:
  assumes "format enc dcd ok"
  shows "format (put_list enc) (get_list dcd) (\<lambda>xs. vec_ok xs \<and> list_all ok xs)"
proof
  fix xs rest assume xs: "vec_ok xs \<and> list_all ok xs"
  then have "length xs < 256 ^ 8" by (simp add: vec_ok_def)
  then show "get_list dcd (put_list enc xs @ rest) = Some (xs, rest)"
    using format.many [OF assms, of xs rest] xs
    by (simp add: get_list_def put_list_def then_dec_def natural.dcd_enc)
qed

lemmas format_rules = then_dec_def done_dec_def fixed.dcd_enc vec.dcd_enc w16.dcd_enc w32.dcd_enc w64.dcd_enc

definition codec_of :: "('a \<Rightarrow> bytes) \<Rightarrow> 'a decoder \<Rightarrow> 'a codec" where
  "codec_of enc dcd = \<lparr>ser = (\<lambda>x. Some (enc x)), de = (\<lambda>b. map_option fst (dcd b))\<rparr>"

lemma codec_of_laws: "format enc dcd ok \<Longrightarrow> codec_laws ok (codec_of enc dcd)"
  by (simp add: codec_laws_def codec_of_def format.whole)

section \<open>The index\<close>

definition put_times :: "timestamps \<Rightarrow> bytes" where
  "put_times t = put_word 8 (atime t) @ put_word 8 (mtime t) @ put_word 8 (ctime t) @ put_word 8 (crtime t)"

definition get_times :: "timestamps decoder" where
  "get_times = then_dec (get_word 8) (\<lambda>a. then_dec (get_word 8) (\<lambda>m. then_dec (get_word 8) (\<lambda>c.
     then_dec (get_word 8) (\<lambda>cr. done_dec \<lparr>atime = a, mtime = m, ctime = c, crtime = cr\<rparr>))))"

interpretation times: format put_times get_times "\<lambda>_. True"
  by unfold_locales (simp add: put_times_def get_times_def format_rules)

definition put_kind :: "entry_kind \<Rightarrow> bytes" where
  "put_kind k = nat_le 4 (case k of File \<Rightarrow> 0 | Dir \<Rightarrow> 1 | Symlink \<Rightarrow> 2)"

definition get_kind :: "entry_kind decoder" where
  "get_kind = then_dec (get_nat 4) (\<lambda>n bs.
     if n = 0 then Some (File, bs) else if n = 1 then Some (Dir, bs)
     else if n = 2 then Some (Symlink, bs) else None)"

interpretation kind: format put_kind get_kind "\<lambda>_. True"
  by unfold_locales (simp add: put_kind_def get_kind_def then_dec_def natural.dcd_enc split: entry_kind.split)

definition put_entry :: "entry \<Rightarrow> bytes" where
  "put_entry e = put_word 8 (e_ino e) @ put_word 8 (e_parent e) @ e_name_hash e @ put_vec (e_name_encrypted e) @
     put_vec (e_content_key e) @ put_kind (e_kind e) @ put_word 8 (e_size e) @ put_word 2 (e_perm e) @
     put_word 4 (e_uid e) @ put_word 4 (e_gid e) @ put_times (e_times e) @ put_vec (e_link_target e)"

definition get_entry :: "entry decoder" where
  "get_entry =
     then_dec (get_word 8) (\<lambda>i. then_dec (get_word 8) (\<lambda>p. then_dec (get_raw 32) (\<lambda>h.
     then_dec get_vec (\<lambda>n. then_dec get_vec (\<lambda>c. then_dec get_kind (\<lambda>k.
     then_dec (get_word 8) (\<lambda>s. then_dec (get_word 2) (\<lambda>m. then_dec (get_word 4) (\<lambda>u.
     then_dec (get_word 4) (\<lambda>g. then_dec get_times (\<lambda>t. then_dec get_vec (\<lambda>l.
     done_dec \<lparr>e_ino = i, e_parent = p, e_name_hash = h, e_name_encrypted = n, e_content_key = c, e_kind = k,
       e_size = s, e_perm = m, e_uid = u, e_gid = g, e_times = t, e_link_target = l\<rparr>))))))))))))"

interpretation entry: format put_entry get_entry entry_wf
  by unfold_locales
    (simp add: put_entry_def get_entry_def entry_wf_def format_rules kind.dcd_enc times.dcd_enc)

definition put_binding :: "u64 \<times> entry \<Rightarrow> bytes" where
  "put_binding ke = put_word 8 (fst ke) @ put_entry (snd ke)"

definition get_binding :: "(u64 \<times> entry) decoder" where
  "get_binding = then_dec (get_word 8) (\<lambda>k. then_dec get_entry (\<lambda>e. done_dec (k, e)))"

interpretation binding: format put_binding get_binding "\<lambda>ke. entry_wf (snd ke)"
  by unfold_locales (auto simp: put_binding_def get_binding_def format_rules entry.dcd_enc)

definition bincode_index :: "entry_map codec" where
  "bincode_index = codec_of (put_list put_binding) (get_list get_binding)"

lemma bincode_index_laws [simp]: "codec_laws entries_wf bincode_index"
proof -
  have "codec_laws (\<lambda>m. vec_ok m \<and> list_all (\<lambda>ke. entry_wf (snd ke)) m) bincode_index"
    unfolding bincode_index_def by (rule codec_of_laws [OF format_list [OF binding.format_axioms]])
  moreover have "vec_ok m \<and> list_all (\<lambda>ke. entry_wf (snd ke)) m" if "entries_wf m" for m
    using that by (auto simp: entries_wf_def list_all_iff)
  ultimately show ?thesis by (simp add: codec_laws_def)
qed

lemma mac_laws_sample [simp]: "mac_laws sample_prims"
  by (simp add: mac_laws_def)

end
