(* ===== verification/Requests.thy ===== *)
theory Requests
  imports Namespace Bincode
begin

text \<open>
  The changing requests of \<open>Ops\<close> against the specification of \<open>Namespace\<close>: every handler
  refuses with the specified error or ends in saving an index that implements the specified
  name space, whichever file operations fail.
\<close>

section \<open>The handlers implement the specification\<close>

text \<open>
  A handler implements a specification at a state if it either refuses with the error the
  specification gives, changing nothing, or ends in saving the index with metadata that
  implements the specified name space; the only files it has touched by then are the data
  files of inodes that are gone.
\<close>

definition implements ::
  "prims \<Rightarrow> entry_map codec \<Rightarrow> crypto \<Rightarrow> bytes set \<Rightarrow> handler \<Rightarrow> (ns \<Rightarrow> outcome \<times> ns) \<Rightarrow> pqfs_inner \<Rightarrow> world \<Rightarrow> bool" where
  "implements P C cr N h spec s w \<longleftrightarrow>
     (\<exists>e. spec (ns_of P cr s) = (Fail e, ns_of P cr s) \<and> h s w = (ReplyError e, s, w)) \<or>
     (\<exists>rep s1 w1. h s w = save_then P C cr rep s1 w1 \<and> (\<forall>e. rep \<noteq> ReplyError e) \<and>
        spec (ns_of P cr s) = (Done, ns_of P cr s1) \<and> fs_ok P cr N s1 \<and> backend s1 = backend s \<and>
        (\<forall>q. disk w1 q \<noteq> disk w q \<longrightarrow> (\<exists>i. q = data_path s i \<and> bt_get i (entries s) \<noteq> None \<and>
           bt_get i (entries s1) = None)) \<and>
        (fault_free w \<longrightarrow> fault_free w1))"

lemma implements_refuse:
  "spec (ns_of P cr s) = (Fail e, ns_of P cr s) \<Longrightarrow> h s w = (ReplyError e, s, w) \<Longrightarrow> implements P C cr N h spec s w"
  by (auto simp: implements_def)

lemma implements_save:
  assumes "h s w = save_then P C cr rep s' w'" and "\<And>e. rep \<noteq> ReplyError e"
    and "spec (ns_of P cr s) = (Done, ns_of P cr s')" and "fs_ok P cr N s'" and "backend s' = backend s"
    and "\<And>q. disk w' q \<noteq> disk w q \<Longrightarrow> \<exists>i. q = data_path s i \<and> bt_get i (entries s) \<noteq> None \<and> bt_get i (entries s') = None"
    and "fault_free w \<Longrightarrow> fault_free w'"
  shows "implements P C cr N h spec s w"
  using assms unfolding implements_def by blast

lemma encrypt_nameE:
  assumes "name_space P cr N" and "nm \<in> N"
  obtains ne where "encrypt_filename P cr nm w = (Inr ne, draw_nonce w)" and "decrypt_filename P cr ne = Inr nm"
  using filename.sealE [of P nm cr w] assms by (auto simp: name_space_def)

lemma random_sealedE:
  assumes "aead_laws P"
  obtains ck w' where "bindE random_key (encrypt P cr) w = (Inr ck, w')" and "disk w' = disk w"
    and "faults w' = faults w" and "ids w' = ids w" and "clock w' = clock w"
    and "\<exists>k. decrypt P cr ck = Inr k \<and> length k = 32"
proof -
  obtain k w1 where k: "random_key w = (Inr k, w1)" "length k = 32" "w1 = w\<lparr>tape := drop 32 (tape w)\<rparr>"
    by (simp add: random_key_def fill_bytes_def)
  have ok: "aead_laws P \<and> length k \<le> aead_max" using assms k(2) by (simp add: aead_max_def)
  obtain ck where ck: "encrypt P cr k w1 = (Inr ck, draw_nonce w1)" "decrypt P cr ck = Inr k"
    using bulk.sealE [OF ok] by blast
  show thesis
    by (rule that [of ck "draw_nonce w1"]) (use ck k in \<open>simp_all add: bindE_def\<close>)
qed

definition adds_ok :: "bytes set \<Rightarrow> u64 \<Rightarrow> bytes \<Rightarrow> pqfs_inner \<Rightarrow> bool" where
  "adds_ok N p os s \<longleftrightarrow> to_string_lossy os \<in> N \<and>
     (\<exists>pe. bt_get p (entries s) = Some pe \<and> e_kind pe = Dir) \<and> unat (next_ino s) + 1 < 2 ^ 64"

lemma add_exists:
  "find_child P cr s p os = Some x \<Longrightarrow>
   spec_add k p (to_string_lossy os) (ns_of P cr s) = (Fail EEXIST, ns_of P cr s)"
  by (simp add: spec_add_def ns_of_lookup)

text \<open>The entry a creating request makes.\<close>

definition entry_for :: "prims \<Rightarrow> crypto \<Rightarrow> pqfs_inner \<Rightarrow> u64 \<Rightarrow> bytes \<Rightarrow> entry \<Rightarrow> bool" where
  "entry_for P cr s p nm e \<longleftrightarrow> e_ino e = next_ino s \<and> e_parent e = p \<and> e_name_hash e = hash_filename P cr nm \<and>
     decrypt_filename P cr (e_name_encrypted e) = Inr nm \<and> vec_ok (e_content_key e) \<and> vec_ok (e_link_target e)"

definition with_new :: "entry \<Rightarrow> pqfs_inner \<Rightarrow> pqfs_inner" where
  "with_new e s = insert_entry e (s\<lparr>next_ino := next_ino s + 1\<rparr>)"

lemma add_implements:
  assumes ok: "fs_ok P cr N s" and N: "name_space P cr N" and p: "adds_ok N p os s"
    and e: "entry_for P cr s p (to_string_lossy os) e"
    and none: "find_child P cr s p os = None" and rep: "\<And>e. rep \<noteq> ReplyError e"
    and run: "h s w = save_then P C cr rep (with_new e s) w'"
    and w': "disk w' = disk w" "faults w' = faults w"
  shows "implements P C cr N h (spec_add (e_kind e) p (to_string_lossy os)) s w"
proof -
  from p obtain pe where p': "to_string_lossy os \<in> N" "bt_get p (entries s) = Some pe" "e_kind pe = Dir"
    "unat (next_ino s) + 1 < 2 ^ 64" by (auto simp: adds_ok_def)
  from e have e': "e_parent e = p" "e_ino e = next_ino s" "e_name_hash e = hash_filename P cr (to_string_lossy os)"
    "decrypt_filename P cr (e_name_encrypted e) = Inr (to_string_lossy os)"
    "vec_ok (e_content_key e)" "vec_ok (e_link_target e)"
    by (simp_all add: entry_for_def)
  note ins = insert_fresh [OF ok N, of e os "to_string_lossy os" pe, unfolded e'(1), OF none refl p'(1) e'(2-6) p'(2-4)]
  show ?thesis
    by (rule implements_save [where h = h and s = s and w = w, OF run rep])
      (use ins w' in \<open>simp_all add: fault_free_def with_new_def\<close>)
qed

lemma create_run:
  assumes N: "name_space P cr N" "to_string_lossy os \<in> N" and none: "find_child P cr s p os = None"
  obtains e w' where "create P C cr p os mode s w = save_then P C cr (ReplyCreated TTL (attr_for e) 0 0 0) (with_new e s) w'"
    and "entry_for P cr s p (to_string_lossy os) e" and "e_kind e = File" and "e_size e = 0" and "e_perm e = perm_of mode"
    and "\<exists>k. decrypt_content_key P cr (e_content_key e) = Inr k \<and> length k = 32" and "e_link_target e = []"
    and "disk w' = disk w" and "faults w' = faults w"
proof -
  obtain ne where ne: "encrypt_filename P cr (to_string_lossy os) w = (Inr ne, draw_nonce w)"
    "decrypt_filename P cr ne = Inr (to_string_lossy os)"
    using encrypt_nameE [OF N] by blast
  have P: "aead_laws P" using N by (simp add: name_space_def)
  obtain ck w2 k where ck: "bindE random_key (encrypt P cr) (draw_nonce w) = (Inr ck, w2)"
    "disk w2 = disk w" "faults w2 = faults w" "decrypt P cr ck = Inr k" "length k = 32"
    by (rule random_sealedE [OF P, of cr "draw_nonce w"]) auto
  then have v: "vec_ok ck" using decrypt_length [OF P ck(4)] by (simp add: vec_ok_def)
  obtain t where t: "timestamps_now w2 = (t, drop_clock w2)" by (metis prod.collapse touch_run(2))
  define e where "e = \<lparr>e_ino = next_ino s, e_parent = p, e_name_hash = hash_filename P cr (to_string_lossy os),
      e_name_encrypted = ne, e_content_key = ck, e_kind = File, e_size = 0, e_perm = perm_of mode,
      e_uid = fst (ids w2), e_gid = snd (ids w2), e_times = t, e_link_target = []\<rparr>"
  have "create P C cr p os mode s w = save_then P C cr (ReplyCreated TTL (attr_for e) 0 0 0) (with_new e s) (drop_clock w2)"
    by (simp add: create_def none allocate_ino_def ne ck t e_def [symmetric] Let_def with_new_def)
  then show thesis
    by (rule that) (simp_all add: e_def entry_for_def ne ck v decrypt_content_key_def)
qed

lemma mkdir_run:
  assumes N: "name_space P cr N" "to_string_lossy os \<in> N" and none: "find_child P cr s p os = None"
  obtains e w' where "mkdir P C cr p os mode s w = save_then P C cr (ReplyEntry TTL (attr_for e) 0) (with_new e s) w'"
    and "entry_for P cr s p (to_string_lossy os) e" and "e_kind e = Dir" and "e_perm e = perm_of mode"
    and "e_content_key e = []" and "e_link_target e = []"
    and "disk w' = disk w" and "faults w' = faults w"
proof -
  obtain ne where ne: "encrypt_filename P cr (to_string_lossy os) w = (Inr ne, draw_nonce w)"
    "decrypt_filename P cr ne = Inr (to_string_lossy os)"
    using encrypt_nameE [OF N] by blast
  obtain t where t: "timestamps_now (draw_nonce w) = (t, drop_clock (draw_nonce w))"
    by (metis prod.collapse touch_run(2))
  define e where "e = \<lparr>e_ino = next_ino s, e_parent = p, e_name_hash = hash_filename P cr (to_string_lossy os),
      e_name_encrypted = ne, e_content_key = [], e_kind = Dir, e_size = 0, e_perm = perm_of mode,
      e_uid = fst (ids w), e_gid = snd (ids w), e_times = t, e_link_target = []\<rparr>"
  have "mkdir P C cr p os mode s w = save_then P C cr (ReplyEntry TTL (attr_for e) 0) (with_new e s) (drop_clock (draw_nonce w))"
    by (simp add: mkdir_def none allocate_ino_def ne t e_def [symmetric] Let_def with_new_def)
  then show thesis by (rule that) (simp_all add: e_def entry_for_def ne)
qed

lemma symlink_run:
  assumes N: "name_space P cr N" "to_string_lossy os \<in> N" and none: "find_child P cr s p os = None"
    and target: "length (to_string_lossy os_target) \<le> aead_max"
  obtains e w' where "symlink P C cr p os os_target s w = save_then P C cr (ReplyEntry TTL (attr_for e) 0) (with_new e s) w'"
    and "entry_for P cr s p (to_string_lossy os) e" and "e_kind e = Symlink"
    and "decrypt_filename P cr (e_link_target e) = Inr (to_string_lossy os_target)"
    and "disk w' = disk w" and "faults w' = faults w"
proof -
  have "aead_laws P \<and> length (to_string_lossy os_target) \<le> aead_max \<and> utf8_valid (to_string_lossy os_target)"
    using N target by (simp add: name_space_def utf8_valid_lossy)
  then obtain lt where lt: "encrypt_filename P cr (to_string_lossy os_target) w = (Inr lt, draw_nonce w)"
    "decrypt_filename P cr lt = Inr (to_string_lossy os_target)"
    "length lt = length (to_string_lossy os_target) + 40"
    by (meson filename.sealE)
  then have v: "vec_ok lt" using target by (simp add: vec_ok_def aead_max_def)
  let ?w = "draw_nonce (draw_nonce w)"
  obtain ne where ne: "encrypt_filename P cr (to_string_lossy os) (draw_nonce w) = (Inr ne, ?w)"
    "decrypt_filename P cr ne = Inr (to_string_lossy os)"
    using encrypt_nameE [OF N] by blast
  obtain t where t: "timestamps_now ?w = (t, drop_clock ?w)" by (metis prod.collapse touch_run(2))
  define e where "e = \<lparr>e_ino = next_ino s, e_parent = p, e_name_hash = hash_filename P cr (to_string_lossy os),
      e_name_encrypted = ne, e_content_key = [], e_kind = Symlink, e_size = of_nat (length (to_string_lossy os_target)),
      e_perm = 511, e_uid = fst (ids w), e_gid = snd (ids w), e_times = t, e_link_target = lt\<rparr>"
  have "symlink P C cr p os os_target s w = save_then P C cr (ReplyEntry TTL (attr_for e) 0) (with_new e s) (drop_clock ?w)"
    by (simp add: symlink_def none allocate_ino_def lt ne t e_def [symmetric] Let_def with_new_def)
  then show thesis by (rule that) (simp_all add: e_def entry_for_def ne lt v)
qed

lemma adds_okD: "adds_ok N p os s \<Longrightarrow> to_string_lossy os \<in> N"
  by (simp add: adds_ok_def)

lemma create_implements:
  assumes ok: "fs_ok P cr N s" and N: "name_space P cr N" and p: "adds_ok N p os s"
  shows "implements P C cr N (create P C cr p os mode) (spec_add File p (to_string_lossy os)) s w"
proof (cases "find_child P cr s p os")
  case (Some x)
  then show ?thesis by (intro implements_refuse [where e = EEXIST] add_exists) (auto simp: create_def)
next
  case None
  obtain e w' where "create P C cr p os mode s w = save_then P C cr (ReplyCreated TTL (attr_for e) 0 0 0) (with_new e s) w'"
    "entry_for P cr s p (to_string_lossy os) e" "e_kind e = File" "disk w' = disk w" "faults w' = faults w"
    by (rule create_run [OF N adds_okD [OF p] None])
  then show ?thesis using add_implements [OF ok N p _ None, of e] by fastforce
qed

lemma mkdir_implements:
  assumes ok: "fs_ok P cr N s" and N: "name_space P cr N" and p: "adds_ok N p os s"
  shows "implements P C cr N (mkdir P C cr p os mode) (spec_add Dir p (to_string_lossy os)) s w"
proof (cases "find_child P cr s p os")
  case (Some x)
  then show ?thesis by (intro implements_refuse [where e = EEXIST] add_exists) (auto simp: mkdir_def)
next
  case None
  obtain e w' where "mkdir P C cr p os mode s w = save_then P C cr (ReplyEntry TTL (attr_for e) 0) (with_new e s) w'"
    "entry_for P cr s p (to_string_lossy os) e" "e_kind e = Dir" "disk w' = disk w" "faults w' = faults w"
    by (rule mkdir_run [OF N adds_okD [OF p] None])
  then show ?thesis using add_implements [OF ok N p _ None, of e] by fastforce
qed

lemma symlink_implements:
  assumes ok: "fs_ok P cr N s" and N: "name_space P cr N" and p: "adds_ok N p os s"
    and target: "length (to_string_lossy os_target) \<le> aead_max"
  shows "implements P C cr N (symlink P C cr p os os_target) (spec_add Symlink p (to_string_lossy os)) s w"
proof (cases "find_child P cr s p os")
  case (Some x)
  then show ?thesis by (intro implements_refuse [where e = EEXIST] add_exists) (auto simp: symlink_def)
next
  case None
  obtain e w' where "symlink P C cr p os os_target s w = save_then P C cr (ReplyEntry TTL (attr_for e) 0) (with_new e s) w'"
    "entry_for P cr s p (to_string_lossy os) e" "e_kind e = Symlink" "disk w' = disk w" "faults w' = faults w"
    by (rule symlink_run [OF N adds_okD [OF p] None target])
  then show ?thesis using add_implements [OF ok N p _ None, of e] by fastforce
qed

lemma remove_data_effect:
  "disk (remove_data f w) q \<noteq> disk w q \<Longrightarrow> q = f" "fault_free w \<Longrightarrow> fault_free (remove_data f w)"
proof -
  obtain r w' where r: "fs_remove_file f w = (r, w')" by fastforce
  show "disk (remove_data f w) q \<noteq> disk w q \<Longrightarrow> q = f"
    using fs_remove_file_outcome [OF r] r by (auto simp: remove_data_def only_ticks_def split: if_splits)
  show "fault_free w \<Longrightarrow> fault_free (remove_data f w)"
    by (auto simp: remove_data_def fs_exists_def fs_ok_present)
qed

lemma data_path_frame: "backend s' = backend s \<Longrightarrow> data_path s' = data_path s"
  by (simp add: data_path_def fun_eq_iff)

text \<open>What a successful lookup says about the abstract name space.\<close>

lemma find_child_SomeD:
  assumes ok: "fs_ok P cr N s" and f: "find_child P cr s p os = Some e"
  shows "named P cr (entries s) (e_ino e) p (to_string_lossy os)"
    and "ns_dir (ns_of P cr s) (p, to_string_lossy os) = Some (e_ino e)"
    and "ns_kind (ns_of P cr s) (e_ino e) = Some (e_kind e)"
    and "bt_get (e_ino e) (entries s) = Some e"
  using f find_child_iff [OF fs_okD(1,2) [OF ok], of p os e]
  by (auto simp: named_def ns_of_lookup)

lemma find_child_NoneD:
  "find_child P cr s p os = None \<Longrightarrow> ns_dir (ns_of P cr s) (p, to_string_lossy os) = None"
  by (simp add: ns_of_lookup)

lemma unlink_implements:
  assumes ok: "fs_ok P cr N s"
  shows "implements P C cr N (unlink P C cr p os) (spec_unlink p (to_string_lossy os)) s w"
proof (cases "find_child P cr s p os")
  case None
  then show ?thesis
    by (intro implements_refuse [where e = ENOENT]) (simp_all add: unlink_def spec_unlink_def find_child_NoneD)
next
  case (Some e)
  note f = find_child_SomeD [OF ok Some]
  show ?thesis
  proof (cases "e_kind e = Dir")
    case True
    with Some f show ?thesis
      by (intro implements_refuse [where e = EISDIR]) (simp_all add: unlink_def spec_unlink_def)
  next
    case False
    note d = drop_entry [OF ok f(1) file_has_no_children [OF fs_okD(3) [OF ok] f(4) False]]
    let ?s = "snd (remove_entry (e_ino e) s)"
    show ?thesis
      by (rule implements_save [where s' = ?s and w' = "remove_data (data_path ?s (e_ino e)) w" and rep = ReplyOk])
        (use Some False f d in \<open>auto simp: unlink_def spec_unlink_def Let_def bt_get_remove data_path_frame [of ?s s]
          dest!: remove_data_effect(1) intro: remove_data_effect(2)\<close>)
  qed
qed

lemma rmdir_implements:
  assumes ok: "fs_ok P cr N s"
  shows "implements P C cr N (rmdir P C cr p os) (spec_rmdir p (to_string_lossy os)) s w"
proof (cases "find_child P cr s p os")
  case None
  then show ?thesis
    by (intro implements_refuse [where e = ENOENT]) (simp_all add: rmdir_def spec_rmdir_def find_child_NoneD)
next
  case (Some e)
  note f = find_child_SomeD [OF ok Some]
  note kids = has_children_iff [OF fs_okD(1,2) [OF ok], of "e_ino e"]
  consider "e_kind e \<noteq> Dir" | "e_kind e = Dir" "has_children s (e_ino e)" | "e_kind e = Dir" "\<not> has_children s (e_ino e)"
    by blast
  then show ?thesis
  proof cases
    case 1
    with Some f show ?thesis
      by (intro implements_refuse [where e = ENOTDIR]) (simp_all add: rmdir_def spec_rmdir_def)
  next
    case 2
    with Some f kids show ?thesis
      by (intro implements_refuse [where e = ENOTEMPTY]) (simp_all add: rmdir_def spec_rmdir_def)
  next
    case 3
    note d = drop_entry [OF ok f(1) no_children_parent [OF fs_okD(1) [OF ok] 3(2)]]
    show ?thesis
      by (rule implements_save [where s' = "snd (remove_entry (e_ino e) s)" and w' = w and rep = ReplyOk])
        (use Some 3 f d kids in \<open>auto simp: rmdir_def spec_rmdir_def\<close>)
  qed
qed

subsection \<open>Renaming\<close>

text \<open>The last part of \<open>rename\<close>, once an existing target is out of the way.\<close>

definition rename_tail ::
  "prims \<Rightarrow> entry_map codec \<Rightarrow> crypto \<Rightarrow> u64 \<Rightarrow> u64 \<Rightarrow> bytes \<Rightarrow> handler" where
  "rename_tail P C cr i p' nm' s w =
     (case encrypt_filename P cr nm' w of
        (Inl _, w2) \<Rightarrow> (ReplyError EIO, s, w2)
      | (Inr ne, w2) \<Rightarrow> (case relink i p' (hash_filename P cr nm') ne s w2 of
          (s2, w3) \<Rightarrow> save_then P C cr ReplyOk s2 w3))"

lemma relink_frame:
  "backend (fst (relink i p h n s w)) = backend s"
  "bt_get i (entries s) = Some e \<Longrightarrow> snd (relink i p h n s w) = drop_clock w"
  by (simp_all add: relink_def Let_def case_prod_beta split: option.splits)

lemma relink_dom: "bt_get j (entries (fst (relink i p h n s w))) = None \<longleftrightarrow> bt_get j (entries s) = None"
  by (auto simp: relink_def Let_def case_prod_beta bt_get_insert split: option.splits)

lemma rename_tail_run:
  assumes ok: "fs_ok P cr N s" and N: "name_space P cr N" and i: "named P cr (entries s) i p nm"
    and free: "\<And>j. named P cr (entries s) j p' nm' \<Longrightarrow> j = i"
    and p': "bt_get p' (entries s) = Some pe" "e_kind pe = Dir" "(p', i) \<notin> (parent_rel (entries s))\<^sup>*"
    and nm': "nm' \<in> N"
  obtains s' where "rename_tail P C cr i p' nm' s w = save_then P C cr ReplyOk s' (drop_clock (draw_nonce w))"
    and "fs_ok P cr N s'" and "ns_of P cr s' = ns_move p nm p' nm' i (ns_of P cr s)"
    and "backend s' = backend s" and "\<And>j. bt_get j (entries s') = None \<longleftrightarrow> bt_get j (entries s) = None"
proof -
  obtain ne where ne: "encrypt_filename P cr nm' w = (Inr ne, draw_nonce w)" "decrypt_filename P cr ne = Inr nm'"
    using encrypt_nameE [OF N nm'] by blast
  let ?r = "relink i p' (hash_filename P cr nm') ne s (draw_nonce w)"
  obtain e where e: "bt_get i (entries s) = Some e" using i by (auto simp: named_def)
  show thesis
    using that [of "fst ?r"] move_entry [OF ok N i free p' ne(2) nm', of "draw_nonce w"]
    by (simp add: rename_tail_def ne case_prod_beta relink_frame relink_dom e)
qed

lemma rename_eq:
  assumes "find_child P cr s p os = Some src" and "bt_get p' (entries s) = Some np" and "e_kind np = Dir"
    and "\<not> (e_kind src = Dir \<and> is_descendant_of s p' (e_ino src))"
  shows "find_child P cr s p' os' = None \<Longrightarrow>
      rename P C cr p os p' os' s w = rename_tail P C cr (e_ino src) p' (to_string_lossy os') s w"
    and "find_child P cr s p' os' = Some ex \<Longrightarrow> e_ino ex = e_ino src \<Longrightarrow>
      rename P C cr p os p' os' s w = rename_tail P C cr (e_ino src) p' (to_string_lossy os') s w"
    and "find_child P cr s p' os' = Some ex \<Longrightarrow> e_ino ex \<noteq> e_ino src \<Longrightarrow>
      e_kind ex = Dir \<longleftrightarrow> e_kind src = Dir \<Longrightarrow> \<not> (e_kind ex = Dir \<and> has_children s (e_ino ex)) \<Longrightarrow>
      rename P C cr p os p' os' s w = rename_tail P C cr (e_ino src) p' (to_string_lossy os')
        (snd (remove_entry (e_ino ex) s)) (remove_data (data_path s (e_ino ex)) w)"
  using assms
  by (auto simp: rename_def rename_tail_def Let_def data_path_frame [of "snd (remove_entry (e_ino ex) s)" s]
      split: prod.split sum.split)

lemma rename_errors:
  assumes ok: "fs_ok P cr N s"
  shows "find_child P cr s p os = None \<Longrightarrow> implements P C cr N (rename P C cr p os p' os')
      (spec_rename p (to_string_lossy os) p' (to_string_lossy os')) s w"
    and "find_child P cr s p os = Some src \<Longrightarrow> bt_get p' (entries s) = None \<Longrightarrow>
      implements P C cr N (rename P C cr p os p' os') (spec_rename p (to_string_lossy os) p' (to_string_lossy os')) s w"
    and "find_child P cr s p os = Some src \<Longrightarrow> bt_get p' (entries s) = Some np \<Longrightarrow> e_kind np \<noteq> Dir \<Longrightarrow>
      implements P C cr N (rename P C cr p os p' os') (spec_rename p (to_string_lossy os) p' (to_string_lossy os')) s w"
    and "find_child P cr s p os = Some src \<Longrightarrow> bt_get p' (entries s) = Some np \<Longrightarrow> e_kind np = Dir \<Longrightarrow>
      e_kind src = Dir \<Longrightarrow> is_descendant_of s p' (e_ino src) \<Longrightarrow>
      implements P C cr N (rename P C cr p os p' os') (spec_rename p (to_string_lossy os) p' (to_string_lossy os')) s w"
proof -
  note D = fs_okD [OF ok]
  note f = find_child_SomeD [OF ok, of p os src]
  show "find_child P cr s p os = None \<Longrightarrow> implements P C cr N (rename P C cr p os p' os')
      (spec_rename p (to_string_lossy os) p' (to_string_lossy os')) s w"
    by (rule implements_refuse [where e = ENOENT]) (simp_all add: rename_def spec_rename_def find_child_NoneD)
  show "implements P C cr N (rename P C cr p os p' os') (spec_rename p (to_string_lossy os) p' (to_string_lossy os')) s w"
    if "find_child P cr s p os = Some src" "bt_get p' (entries s) = None"
    using that f by (intro implements_refuse [where e = ENOENT]) (simp_all add: rename_def spec_rename_def)
  show "implements P C cr N (rename P C cr p os p' os') (spec_rename p (to_string_lossy os) p' (to_string_lossy os')) s w"
    if "find_child P cr s p os = Some src" "bt_get p' (entries s) = Some np" "e_kind np \<noteq> Dir"
    using that f by (intro implements_refuse [where e = ENOTDIR]) (simp_all add: rename_def spec_rename_def)
  show "implements P C cr N (rename P C cr p os p' os') (spec_rename p (to_string_lossy os) p' (to_string_lossy os')) s w"
    if "find_child P cr s p os = Some src" "bt_get p' (entries s) = Some np" "e_kind np = Dir"
      "e_kind src = Dir" "is_descendant_of s p' (e_ino src)"
    using that f is_descendant_of_iff [OF D(4)] ns_of_up [OF D(1,2)]
    by (intro implements_refuse [where e = EINVAL]) (simp_all add: rename_def spec_rename_def)
qed

lemma rename_replace_errors:
  assumes ok: "fs_ok P cr N s" and src: "find_child P cr s p os = Some src"
    and p': "bt_get p' (entries s) = Some np" "e_kind np = Dir"
    and below: "\<not> (e_kind src = Dir \<and> is_descendant_of s p' (e_ino src))"
    and ex: "find_child P cr s p' os' = Some ex" "e_ino ex \<noteq> e_ino src"
    and bad: "\<not> (e_kind ex = Dir \<longleftrightarrow> e_kind src = Dir) \<or> e_kind ex = Dir \<and> has_children s (e_ino ex)"
  shows "implements P C cr N (rename P C cr p os p' os') (spec_rename p (to_string_lossy os) p' (to_string_lossy os')) s w"
proof -
  note D = fs_okD [OF ok]
  note f = find_child_SomeD [OF ok src] and g = find_child_SomeD [OF ok ex(1)]
  have b: "\<not> (e_kind src = Dir \<and> (p', e_ino src) \<in> (ns_up (ns_of P cr s))\<^sup>*)"
    using below is_descendant_of_iff [OF D(4)] ns_of_up [OF D(1,2)] by simp
  note kids = has_children_iff [OF D(1,2), of "e_ino ex"]
  consider (a) "e_kind src = Dir" "e_kind ex = Dir" "has_children s (e_ino ex)"
    | (b) "e_kind src = Dir" "e_kind ex \<noteq> Dir" | (c) "e_kind src \<noteq> Dir" "e_kind ex = Dir"
    using bad by blast
  then show ?thesis
  proof cases
    case a
    with b below src p' ex f g kids show ?thesis
      by (intro implements_refuse [where e = ENOTEMPTY]) (simp_all add: rename_def spec_rename_def)
  next
    case b': b
    with b below src p' ex f g show ?thesis
      by (intro implements_refuse [where e = ENOTDIR]) (simp_all add: rename_def spec_rename_def)
  next
    case c
    with b below src p' ex f g show ?thesis
      by (intro implements_refuse [where e = EISDIR]) (simp_all add: rename_def spec_rename_def)
  qed
qed

lemma not_below:
  assumes ok: "fs_ok P cr N s" and src: "bt_get (e_ino src) (entries s) = Some src"
    and p': "bt_get p' (entries s) = Some np" "e_kind np = Dir"
    and below: "\<not> (e_kind src = Dir \<and> is_descendant_of s p' (e_ino src))"
  shows "(p', e_ino src) \<notin> (parent_rel (entries s))\<^sup>*"
proof (cases "e_kind src = Dir")
  case True
  then show ?thesis using below is_descendant_of_iff [OF fs_okD(4) [OF ok]] by simp
next
  case False
  have "p' \<noteq> e_ino src" using src p' False by auto
  then show ?thesis using file_has_no_descendants [OF fs_okD(3) [OF ok] src False] by blast
qed

lemma parent_rel_remove: "parent_rel (bt_remove j m) \<subseteq> parent_rel m"
  by (auto simp: parent_rel_iff bt_get_remove split: if_splits)

lemma named_remove: "named P cr (bt_remove j m) i p nm \<longleftrightarrow> i \<noteq> j \<and> named P cr m i p nm"
  by (simp add: named_def bt_get_remove)

lemma rename_plain:
  assumes ok: "fs_ok P cr N s" and N: "name_space P cr N" and nm': "to_string_lossy os' \<in> N"
    and src: "find_child P cr s p os = Some src"
    and p': "bt_get p' (entries s) = Some np" "e_kind np = Dir"
    and below: "\<not> (e_kind src = Dir \<and> is_descendant_of s p' (e_ino src))"
    and ex: "find_child P cr s p' os' = None \<or> (\<exists>ex. find_child P cr s p' os' = Some ex \<and> e_ino ex = e_ino src)"
  shows "implements P C cr N (rename P C cr p os p' os') (spec_rename p (to_string_lossy os) p' (to_string_lossy os')) s w"
proof -
  note D = fs_okD [OF ok] and f = find_child_SomeD [OF ok src]
  note nb = not_below [OF ok f(4) p' below]
  have free: "j = e_ino src" if "named P cr (entries s) j p' (to_string_lossy os')" for j
    using that ex unfolding find_child_named [OF D(1,2), symmetric] by auto
  obtain s' where s': "rename_tail P C cr (e_ino src) p' (to_string_lossy os') s w =
      save_then P C cr ReplyOk s' (drop_clock (draw_nonce w))"
    "fs_ok P cr N s'" "ns_of P cr s' = ns_move p (to_string_lossy os) p' (to_string_lossy os') (e_ino src) (ns_of P cr s)"
    "backend s' = backend s"
    using rename_tail_run [OF ok N f(1) free p' nb nm'] by blast
  have "rename P C cr p os p' os' s w = save_then P C cr ReplyOk s' (drop_clock (draw_nonce w))"
    using rename_eq(1,2) [OF src p' below] ex s'(1) by fastforce
  moreover have "spec_rename p (to_string_lossy os) p' (to_string_lossy os') (ns_of P cr s) = (Done, ns_of P cr s')"
    using ex f p' nb ns_of_up [OF D(1,2)] s'(3)
    by (auto simp: spec_rename_def find_child_NoneD dest!: find_child_SomeD(2) [OF ok])
  ultimately show ?thesis
    by (intro implements_save [where s' = s' and w' = "drop_clock (draw_nonce w)" and rep = ReplyOk]) (use s' in simp_all)
qed

lemma rename_replace:
  assumes ok: "fs_ok P cr N s" and N: "name_space P cr N" and nm': "to_string_lossy os' \<in> N"
    and src: "find_child P cr s p os = Some src"
    and p': "bt_get p' (entries s) = Some np" "e_kind np = Dir"
    and below: "\<not> (e_kind src = Dir \<and> is_descendant_of s p' (e_ino src))"
    and ex: "find_child P cr s p' os' = Some ex" "e_ino ex \<noteq> e_ino src"
    and good: "e_kind ex = Dir \<longleftrightarrow> e_kind src = Dir" "\<not> (e_kind ex = Dir \<and> has_children s (e_ino ex))"
  shows "implements P C cr N (rename P C cr p os p' os') (spec_rename p (to_string_lossy os) p' (to_string_lossy os')) s w"
proof -
  note D = fs_okD [OF ok] and f = find_child_SomeD [OF ok src] and g = find_child_SomeD [OF ok ex(1)]
  note nb = not_below [OF ok f(4) p' below]
  let ?j = "e_ino ex" and ?s = "snd (remove_entry (e_ino ex) s)" and ?w = "remove_data (data_path s (e_ino ex)) w"
  have kids: "e_parent x \<noteq> ?j" if "bt_get k (entries s) = Some x" "k \<noteq> FUSE_ROOT_ID" for k x
    using good(2) no_children_parent [OF D(1) _ that] file_has_no_children [OF D(3) g(4) _ that(1)] by blast
  have d: "fs_ok P cr N ?s" "ns_of P cr ?s = ns_drop p' (to_string_lossy os') ?j (ns_of P cr s)"
    using drop_entry [OF ok g(1)] kids by blast+
  have "p' \<noteq> ?j" using g(1,4) kids by (auto simp: named_def)
  then have p1: "bt_get p' (entries ?s) = Some np" using p'(1) by (simp add: bt_get_remove)
  have i1: "named P cr (entries ?s) (e_ino src) p (to_string_lossy os)"
    using f(1) ex(2) by (simp add: named_remove)
  have free: "k = e_ino src" if "named P cr (entries ?s) k p' (to_string_lossy os')" for k
    using that named_unique [OF D(1,2) g(1), of k] by (simp add: named_remove)
  have nb1: "(p', e_ino src) \<notin> (parent_rel (entries ?s))\<^sup>*"
    using nb rtrancl_mono [OF parent_rel_remove] by (auto simp: subset_iff)
  obtain s' where s': "rename_tail P C cr (e_ino src) p' (to_string_lossy os') ?s ?w =
      save_then P C cr ReplyOk s' (drop_clock (draw_nonce ?w))"
    "fs_ok P cr N s'" "ns_of P cr s' = ns_move p (to_string_lossy os) p' (to_string_lossy os') (e_ino src) (ns_of P cr ?s)"
    "backend s' = backend ?s" "\<And>k. bt_get k (entries s') = None \<longleftrightarrow> bt_get k (entries ?s) = None"
    using rename_tail_run [OF d(1) N i1 free p1 p'(2) nb1 nm'] by blast
  show ?thesis
  proof (rule implements_save [where s' = s' and w' = "drop_clock (draw_nonce ?w)" and rep = ReplyOk])
    show "rename P C cr p os p' os' s w = save_then P C cr ReplyOk s' (drop_clock (draw_nonce ?w))"
      using rename_eq(3) [OF src p' below ex good] s'(1) by simp
    show "spec_rename p (to_string_lossy os) p' (to_string_lossy os') (ns_of P cr s) = (Done, ns_of P cr s')"
      using f g p' nb ns_of_up [OF D(1,2)] s'(3) ex(2) good d(2) has_children_iff [OF D(1,2), of ?j]
      by (auto simp: spec_rename_def)
    show "\<exists>i. q = data_path s i \<and> bt_get i (entries s) \<noteq> None \<and> bt_get i (entries s') = None"
      if "disk (drop_clock (draw_nonce ?w)) q \<noteq> disk w q" for q
      using remove_data_effect(1) [of "data_path s ?j" w q] that g(4) s'(5) [of ?j]
      by (auto simp: bt_get_remove)
  qed (use s' in \<open>simp_all add: remove_data_effect(2)\<close>)
qed

lemma rename_implements:
  assumes ok: "fs_ok P cr N s" and N: "name_space P cr N" and nm': "to_string_lossy os' \<in> N"
  shows "implements P C cr N (rename P C cr p os p' os') (spec_rename p (to_string_lossy os) p' (to_string_lossy os')) s w"
proof (cases "find_child P cr s p os")
  case None
  then show ?thesis by (rule rename_errors(1) [OF ok])
next
  case src: (Some src)
  show ?thesis
  proof (cases "bt_get p' (entries s)")
    case None
    with src show ?thesis by (rule rename_errors(2) [OF ok])
  next
    case p': (Some np)
    consider (dir) "e_kind np \<noteq> Dir" | (below) "e_kind np = Dir" "e_kind src = Dir" "is_descendant_of s p' (e_ino src)"
      | (ok) "e_kind np = Dir" "\<not> (e_kind src = Dir \<and> is_descendant_of s p' (e_ino src))" by blast
    then show ?thesis
    proof cases
      case dir
      with src p' show ?thesis by (rule rename_errors(3) [OF ok])
    next
      case below
      with src p' show ?thesis by (intro rename_errors(4) [OF ok])
    next
      case ok': ok
      show ?thesis
        using rename_plain [OF ok N nm' src p' ok'] rename_replace [OF ok N nm' src p' ok']
          rename_replace_errors [OF ok src p' ok'] by (cases "find_child P cr s p' os'") blast+
    qed
  qed
qed

section \<open>Serving a sequence of requests\<close>

datatype request =
    Create u64 bytes u32
  | Mkdir u64 bytes u32
  | MakeSymlink u64 bytes bytes
  | Unlink u64 bytes
  | Rmdir u64 bytes
  | Rename u64 bytes u64 bytes

fun serve :: "prims \<Rightarrow> entry_map codec \<Rightarrow> crypto \<Rightarrow> request \<Rightarrow> handler" where
  "serve P C cr (Create p nm mode) = create P C cr p nm mode"
| "serve P C cr (Mkdir p nm mode) = mkdir P C cr p nm mode"
| "serve P C cr (MakeSymlink p nm target) = symlink P C cr p nm target"
| "serve P C cr (Unlink p nm) = unlink P C cr p nm"
| "serve P C cr (Rmdir p nm) = rmdir P C cr p nm"
| "serve P C cr (Rename p nm p' nm') = rename P C cr p nm p' nm'"

fun specified :: "request \<Rightarrow> ns \<Rightarrow> outcome \<times> ns" where
  "specified (Create p nm mode) = spec_add File p (to_string_lossy nm)"
| "specified (Mkdir p nm mode) = spec_add Dir p (to_string_lossy nm)"
| "specified (MakeSymlink p nm target) = spec_add Symlink p (to_string_lossy nm)"
| "specified (Unlink p nm) = spec_unlink p (to_string_lossy nm)"
| "specified (Rmdir p nm) = spec_rmdir p (to_string_lossy nm)"
| "specified (Rename p nm p' nm') = spec_rename p (to_string_lossy nm) p' (to_string_lossy nm')"

text \<open>
  What the kernel guarantees of a request: a new entry is made in a directory.  New names are
  among those considered, and inode numbers have not run out.
\<close>

definition may_add :: "bytes set \<Rightarrow> u64 \<Rightarrow> bytes \<Rightarrow> ns \<Rightarrow> bool" where
  "may_add N p nm \<sigma> \<longleftrightarrow> to_string_lossy nm \<in> N \<and> ns_kind \<sigma> p = Some Dir \<and> unat (ns_fresh \<sigma>) + 1 < 2 ^ 64"

fun admissible :: "bytes set \<Rightarrow> request \<Rightarrow> ns \<Rightarrow> bool" where
  "admissible N (Create p nm mode) \<sigma> = may_add N p nm \<sigma>"
| "admissible N (Mkdir p nm mode) \<sigma> = may_add N p nm \<sigma>"
| "admissible N (MakeSymlink p nm target) \<sigma> = (may_add N p nm \<sigma> \<and> length (to_string_lossy target) \<le> aead_max)"
| "admissible N (Unlink p nm) \<sigma> = True"
| "admissible N (Rmdir p nm) \<sigma> = True"
| "admissible N (Rename p nm p' nm') \<sigma> = (to_string_lossy nm' \<in> N)"

text \<open>The reply an outcome calls for; a request may also fail because the index cannot be saved.\<close>

fun answers :: "reply \<Rightarrow> outcome \<Rightarrow> bool" where
  "answers rep (Fail e) = (rep = ReplyError e)"
| "answers rep Done = (\<forall>e. rep = ReplyError e \<longrightarrow> e = EIO)"

lemma serve_implements:
  assumes "fs_ok P cr N s" and "name_space P cr N" and "admissible N r (ns_of P cr s)"
  shows "implements P C cr N (serve P C cr r) (specified r) s w"
proof -
  have add: "adds_ok N p nm s" if "may_add N p nm (ns_of P cr s)" for p nm
    using that by (auto simp: may_add_def adds_ok_def)
  show ?thesis
    using assms(3) create_implements [OF assms(1,2)] mkdir_implements [OF assms(1,2)] symlink_implements [OF assms(1,2)]
      unlink_implements [OF assms(1)] rmdir_implements [OF assms(1)] rename_implements [OF assms(1,2)]
    by (cases r) (simp_all add: add)
qed

lemma fs_ok_dirty [simp]: "fs_ok P cr N (s\<lparr>dirty := b\<rparr>) = fs_ok P cr N s"
  by (simp add: fs_ok_def index_ok_frame [of "s\<lparr>dirty := b\<rparr>" s])

lemma ns_of_dirty [simp]: "ns_of P cr (s\<lparr>dirty := b\<rparr>) = ns_of P cr s"
proof -
  have fc: "find_child P cr (s\<lparr>dirty := b\<rparr>) p nm = find_child P cr s p nm" for p nm
    by (simp add: find_child_def Let_def cong: option.case_cong)
  show ?thesis unfolding ns_of_def fc by simp
qed

text \<open>\<open>on_disk P C cr back w m\<close>: the index file decrypts to the entries \<open>m\<close>.\<close>

definition on_disk :: "prims \<Rightarrow> entry_map codec \<Rightarrow> crypto \<Rightarrow> path \<Rightarrow> world \<Rightarrow> entry_map \<Rightarrow> bool" where
  "on_disk P C cr back w m \<longleftrightarrow> (\<exists>blob. disk w (back @ [INDEX_FILE]) = Some blob \<and> stored P C cr blob m)"

lemma on_disk_frame:
  "disk w' (back @ [INDEX_FILE]) = disk w (back @ [INDEX_FILE]) \<Longrightarrow> on_disk P C cr back w' m = on_disk P C cr back w m"
  by (simp add: on_disk_def)

subsection \<open>Decimal names of data files\<close>

lemma char_of_digit_inj: "a < 10 \<Longrightarrow> b < 10 \<Longrightarrow> char_of (48 + a :: nat) = char_of (48 + b) \<longleftrightarrow> a = b"
  by (simp add: char_of_eq_iff take_bit_nat_eq_self)

lemma dec_nonempty: "dec n \<noteq> []"
  by (subst dec.simps) simp

lemma dec_inj: "dec m = dec n \<longleftrightarrow> m = n"
proof
  show "dec m = dec n \<Longrightarrow> m = n"
  proof (induction m arbitrary: n rule: dec.induct)
    case (1 m)
    note d = dec.simps [of m] dec.simps [of n]
    show ?case
    proof (cases "m < 10")
      case True
      then show ?thesis using 1(2) d dec_nonempty [of "n div 10"] char_of_digit_inj [of m n]
        by (auto split: if_splits)
    next
      case False
      then have n: "\<not> n < 10" using 1(2) d dec_nonempty [of "m div 10"] by (auto split: if_splits)
      with False 1(2) d have "dec (m div 10) = dec (n div 10)" "m mod 10 = n mod 10"
        using char_of_digit_inj [of "m mod 10" "n mod 10"] by auto
      with 1(1) [OF False] have "m div 10 = n div 10" "m mod 10 = n mod 10" by blast+
      then show ?thesis by (metis div_mult_mod_eq)
    qed
  qed
qed simp

lemma data_path_inj: "data_path s i = data_path s j \<longleftrightarrow> i = j"
  using word_unat_eq_iff [of i j] by (simp add: data_path_def dec_inj)

lemma data_path_other [simp]: "data_path s i \<noteq> backend s @ [x]" "backend s @ [x] \<noteq> data_path s i"
  by (simp_all add: data_path_def)

subsection \<open>One request\<close>

text \<open>
  What one request does, whichever file operations fail: the invariant and the backend are
  kept, the new metadata implements the specified name space, the reply is the specified one
  (or \<open>EIO\<close>), the index on disk is the old one or the complete new one, and a request that
  is not refused has stored the new one; data files of inodes that remain are untouched.
\<close>

definition served ::
  "prims \<Rightarrow> entry_map codec \<Rightarrow> crypto \<Rightarrow> bytes set \<Rightarrow> (ns \<Rightarrow> outcome \<times> ns) \<Rightarrow> pqfs_inner \<Rightarrow> world \<Rightarrow>
   reply \<Rightarrow> pqfs_inner \<Rightarrow> world \<Rightarrow> bool" where
  "served P C cr N spec s w rep s' w' \<longleftrightarrow>
     fs_ok P cr N s' \<and> backend s' = backend s \<and> ns_of P cr s' = snd (spec (ns_of P cr s)) \<and>
     answers rep (fst (spec (ns_of P cr s))) \<and>
     (\<forall>m. on_disk P C cr (backend s) w m \<longrightarrow>
        on_disk P C cr (backend s) w' m \<or> on_disk P C cr (backend s) w' (entries s')) \<and>
     ((\<forall>e. rep \<noteq> ReplyError e) \<longrightarrow> on_disk P C cr (backend s) w' (entries s')) \<and>
     (\<forall>i. bt_get i (entries s') \<noteq> None \<longrightarrow> disk w' (data_path s i) = disk w (data_path s i)) \<and>
     (fault_free w \<longrightarrow> index_fits C (entries s') \<longrightarrow> fault_free w' \<and>
        (rep = ReplyError EIO \<longrightarrow> fst (spec (ns_of P cr s)) = Fail EIO))"

lemma implements_served:
  assumes imp: "implements P C cr N h spec s w" and ok: "fs_ok P cr N s" and N: "name_space P cr N"
    and C: "codec_laws entries_wf C" and run: "h s w = (rep, s', w')"
  shows "served P C cr N spec s w rep s' w'"
  using imp unfolding implements_def
proof (elim disjE exE conjE)
  fix e assume "spec (ns_of P cr s) = (Fail e, ns_of P cr s)" "h s w = (ReplyError e, s, w)"
  with run ok show ?thesis by (auto simp: served_def)
next
  fix r s1 w1
  assume h: "h s w = save_then P C cr r s1 w1" and r: "\<forall>e. r \<noteq> ReplyError e"
    and sp: "spec (ns_of P cr s) = (Done, ns_of P cr s1)" and ok1: "fs_ok P cr N s1"
    and bk: "backend s1 = backend s"
    and touched: "\<forall>q. disk w1 q \<noteq> disk w q \<longrightarrow> (\<exists>i. q = data_path s i \<and> bt_get i (entries s) \<noteq> None \<and> bt_get i (entries s1) = None)"
    and flt: "fault_free w \<longrightarrow> fault_free w1"
  have P: "aead_laws P" using N by (simp add: name_space_def)
  have wf: "entries_wf (entries s1)" by (rule fs_ok_entries_wf [OF N ok1])
  obtain x where sv: "save_index P C cr s1 w1 = (x, w')"
    and out: "rep = (case x of Inl _ \<Rightarrow> ReplyError EIO | Inr _ \<Rightarrow> r)" "s' = (case x of Inl _ \<Rightarrow> s1 | Inr s2 \<Rightarrow> s2)"
    using run unfolding h by (auto simp: save_then_def split: prod.splits sum.splits)
  note sv_out = save_index_outcome [OF P C wf sv]
  have s': "s' = s1 \<or> s' = s1\<lparr>dirty := False\<rparr>" using out(2) sv_out(2) by (cases x) auto
  then have es: "entries s' = entries s1" "backend s' = backend s" "ns_of P cr s' = ns_of P cr s1" "fs_ok P cr N s'"
    using bk ok1 by auto
  have idx: "disk w1 (backend s @ [INDEX_FILE]) = disk w (backend s @ [INDEX_FILE])"
    using touched by (metis data_path_other(2))
  have 1: "on_disk P C cr (backend s) w' m \<or> on_disk P C cr (backend s) w' (entries s')"
    if "on_disk P C cr (backend s) w m" for m
    using sv_out(1) that idx by (auto simp: saved_def on_disk_def es(1) bk)
  have 2: "on_disk P C cr (backend s) w' (entries s')" if "\<forall>e. rep \<noteq> ReplyError e"
    using sv_out(1) that out(1) by (cases x) (auto simp: saved_def on_disk_def es(1) bk)
  have 3: "disk w' (data_path s i) = disk w (data_path s i)" if "bt_get i (entries s') \<noteq> None" for i
  proof -
    have "disk w' (data_path s i) = disk w1 (data_path s i)" using sv_out(1) by (simp add: saved_def bk)
    also have "\<dots> = disk w (data_path s i)" using touched that es(1) by (metis data_path_inj)
    finally show ?thesis .
  qed
  have 4: "fault_free w' \<and> rep \<noteq> ReplyError EIO" if "fault_free w" "index_fits C (entries s')"
    using save_index_ok [OF P C wf _, of w1 cr] that flt r sv out(1) es(1) by auto
  show ?thesis
    unfolding served_def using es sp out(1) r 1 2 3 4 by (auto split: sum.splits)
qed

lemma serve_served:
  assumes "fs_ok P cr N s" and "name_space P cr N" and "codec_laws entries_wf C"
    and "admissible N r (ns_of P cr s)" and "serve P C cr r s w = (rep, s', w')"
  shows "served P C cr N (specified r) s w rep s' w'"
  using implements_served [OF serve_implements [OF assms(1,2,4)] assms(1-3,5)] .

end
