(* ===== verification/Identity.thy ===== *)
theory Identity
  imports Crypto
begin

text \<open>
  ML-KEM identities (\<open>src/crypto/identity.rs\<close>): a private identity is a 64-byte seed, its public
  half the encapsulation key with the parameter set it belongs to (\<open>src/crypto/kem.rs\<close>).
  Access rights of the written file are not modelled.
\<close>

section \<open>Operations\<close>

record public_identity =
  kem_param :: u16
  kem_public_key :: bytes

record identity =
  seed :: bytes

definition generate :: "prims \<Rightarrow> identity io" where
  "generate P =
     bindE (fill_bytes SEED_LEN) (\<lambda>r.
     bindE (lift (of_option SeedExtraction (kem_keygen P r))) (\<lambda>s.
     ret \<lparr>seed = s\<rparr>))"

definition decapsulation_key :: "identity \<Rightarrow> bytes result" where
  "decapsulation_key i = (if length (seed i) = SEED_LEN then Inr (seed i) else Inl InvalidSeed)"

definition public :: "prims \<Rightarrow> identity \<Rightarrow> public_identity result" where
  "public P i =
     rbind (decapsulation_key i) (\<lambda>dk.
     Inr \<lparr>kem_param = selected_kem_param P, kem_public_key = kem_public P dk\<rparr>)"

definition recover_kek :: "prims \<Rightarrow> identity \<Rightarrow> bytes \<Rightarrow> bytes result" where
  "recover_kek P i kem_ciphertext =
     (if length kem_ciphertext \<noteq> kem_ciphertext_len P then Inl InvalidKemCiphertext
      else
        rbind (decapsulation_key i) (\<lambda>dk.
        derive_recipient_kek P (kem_decapsulate P dk kem_ciphertext)))"

definition write_private :: "path \<Rightarrow> bytes \<Rightarrow> unit io" where
  "write_private p data =
     bindE (fs_create p) (\<lambda>_.
     bindE (fs_write_all_at p 0 data) (\<lambda>_.
     fs_sync_all p))"

definition identity_save :: "identity \<Rightarrow> path \<Rightarrow> unit io" where
  "identity_save i p = write_private p (seed i)"

definition identity_load :: "path \<Rightarrow> identity io" where
  "identity_load p =
     bindE (fs_read p) (\<lambda>s.
     if length s \<noteq> SEED_LEN then throw NotAnIdentity else ret \<lparr>seed = s\<rparr>)"

definition encapsulate :: "prims \<Rightarrow> public_identity \<Rightarrow> (bytes \<times> bytes) io" where
  "encapsulate P pub =
     (if kem_param pub \<noteq> selected_kem_param P then throw (WrongKemParam (kem_param pub))
      else if length (kem_public_key pub) \<noteq> kem_public_len P then throw InvalidKemPublicKeyLength
      else if \<not> kem_public_ok P (kem_public_key pub) then throw InvalidKemPublicKey
      else
        bindE (fill_bytes 32) (\<lambda>r.
        case kem_encapsulate P (kem_public_key pub) r of (ct, shared_secret) \<Rightarrow>
        bindE (lift (derive_recipient_kek P shared_secret)) (\<lambda>kek.
        ret (ct, kek))))"

definition public_identity_save :: "public_identity codec \<Rightarrow> public_identity \<Rightarrow> path \<Rightarrow> unit io" where
  "public_identity_save C pub p =
     bindE (lift (bincode_serialize C pub)) (\<lambda>data. fs_write p data)"

definition public_identity_load :: "public_identity codec \<Rightarrow> path \<Rightarrow> public_identity io" where
  "public_identity_load C p =
     bindE (fs_read p) (\<lambda>data. lift (bincode_deserialize C data))"

section \<open>Laws of the primitives\<close>

text \<open>
  Decapsulation inverts encapsulation for the matching key (ML-KEM up to its negligible failure
  rate), ciphertexts and public keys have the length of the parameter set, and key derivation
  delivers keys of the length asked for.
\<close>

definition kem_laws :: "prims \<Rightarrow> bool" where
  "kem_laws P \<longleftrightarrow> (\<forall>s r. length s = SEED_LEN \<longrightarrow>
     length (kem_public P s) = kem_public_len P \<and> kem_public_ok P (kem_public P s) \<and>
     (length r = 32 \<longrightarrow> (case kem_encapsulate P (kem_public P s) r of (ct, ss) \<Rightarrow>
        length ct = kem_ciphertext_len P \<and> kem_decapsulate P s ct = ss)))"

definition kdf_laws :: "prims \<Rightarrow> bool" where
  "kdf_laws P \<longleftrightarrow>
     (\<forall>ikm info. \<exists>k. hkdf_sha256 P ikm info KEY_LEN = Some k \<and> length k = KEY_LEN) \<and>
     (\<forall>m t p pw salt k. argon2id P m t p pw salt KEY_LEN = Some k \<longrightarrow> length k = KEY_LEN) \<and>
     (\<forall>m t p pw salt. argon2_params_ok P m t p KEY_LEN \<longrightarrow> length salt = SALT_LEN \<longrightarrow> length pw < 2 ^ 32 \<longrightarrow>
        argon2id P m t p pw salt KEY_LEN \<noteq> None)"

lemma kem_lawsD:
  assumes "kem_laws P" and "length s = SEED_LEN" and "length r = 32" and "kem_encapsulate P (kem_public P s) r = (ct, ss)"
  shows "length (kem_public P s) = kem_public_len P" and "kem_public_ok P (kem_public P s)"
    and "length ct = kem_ciphertext_len P" and "kem_decapsulate P s ct = ss"
  using assms(1) [unfolded kem_laws_def, rule_format, of s r] assms(2-4) by simp_all

lemma hkdfE:
  assumes "kdf_laws P"
  obtains k where "hkdf_sha256 P ikm info KEY_LEN = Some k" and "length k = KEY_LEN"
  using assms unfolding kdf_laws_def by meson

lemma derive_recipient_kekE:
  assumes "kdf_laws P"
  obtains k where "derive_recipient_kek P ss = Inr k" and "length k = 32"
  by (rule hkdfE [OF assms, of ss "ascii ''pqfs-recipient-kek''"]) (simp add: that derive_recipient_kek_def)

lemma derive_password_key_length: "kdf_laws P \<Longrightarrow> derive_password_key P pw salt kdf = Inr k \<Longrightarrow> length k = 32"
  by (auto simp: kdf_laws_def derive_password_key_def split: if_splits)

lemma derive_password_keyE:
  assumes "kdf_laws P" and "argon2_params_ok P (m_cost kdf) (t_cost kdf) (p_cost kdf) KEY_LEN"
    and "length salt = SALT_LEN" and "length pw < 2 ^ 32"
  obtains k where "derive_password_key P pw salt kdf = Inr k" and "length k = 32"
proof -
  obtain k where k: "argon2id P (m_cost kdf) (t_cost kdf) (p_cost kdf) pw salt KEY_LEN = Some k"
    using assms unfolding kdf_laws_def by (metis option.exhaust)
  then have "derive_password_key P pw salt kdf = Inr k" using assms by (simp add: derive_password_key_def)
  then show thesis using that derive_password_key_length [OF assms(1)] by blast
qed

lemma derive_header_mac_keyE:
  assumes "kdf_laws P"
  obtains k where "derive_header_mac_key P mk = Inr k"
  by (rule hkdfE [OF assms, of mk "ascii ''pqfs-header-mac-key''"]) (simp add: that derive_header_mac_key_def)

lemma from_master_keyE:
  assumes "kdf_laws P" and "length mk = 32"
  obtains cr where "from_master_key P mk h = Inr cr" and "header cr = h" and "cipher cr = mk"
proof -
  obtain a b where "hkdf_sha256 P mk (ascii ''pqfs-filename-key'') KEY_LEN = Some a" "length a = KEY_LEN"
    "hkdf_sha256 P mk (ascii ''pqfs-filename-hash-key'') KEY_LEN = Some b"
    using hkdfE [OF assms(1)] by metis
  with assms(2) that show thesis
    by (auto simp: from_master_key_def derive_filename_keys_def build_cipher_def)
qed

text \<open>
  The contract between the two halves of an identity: a key encapsulated to the public half is
  recovered by the private half.
\<close>

locale key_transport =
  fixes send :: "'pub \<Rightarrow> (bytes \<times> bytes) io"
    and receive :: "'priv \<Rightarrow> bytes \<Rightarrow> bytes result"
    and pub_of :: "'priv \<Rightarrow> 'pub result"
    and ok :: "'priv \<Rightarrow> bool"
  assumes pub_total: "ok i \<Longrightarrow> \<exists>pub. pub_of i = Inr pub"
    and send_receive: "ok i \<Longrightarrow> pub_of i = Inr pub \<Longrightarrow>
      \<exists>ct k w'. send pub w = (Inr (ct, k), w') \<and> disk w' = disk w \<and> faults w' = faults w \<and>
        receive i ct = Inr k \<and> length k = 32"
begin

lemma transport:
  assumes "ok i"
  obtains pub ct k w' where "pub_of i = Inr pub" and "send pub w = (Inr (ct, k), w')" and "receive i ct = Inr k"
  using pub_total [OF assms] send_receive [OF assms] by blast

end

interpretation kem: key_transport "encapsulate P" "recover_kek P" "public P"
  "\<lambda>i. kem_laws P \<and> kdf_laws P \<and> length (seed i) = SEED_LEN" for P
proof
  fix i :: identity
  assume i: "kem_laws P \<and> kdf_laws P \<and> length (seed i) = SEED_LEN"
  then show "\<exists>pub. public P i = Inr pub" by (simp add: public_def decapsulation_key_def)
  fix pub :: public_identity and w :: world
  assume pub: "public P i = Inr pub"
  let ?r = "take 32 (tape w @ replicate 32 0)"
  obtain ct ss where e: "kem_encapsulate P (kem_public P (seed i)) ?r = (ct, ss)" by fastforce
  have l: "length (kem_public P (seed i)) = kem_public_len P" "kem_public_ok P (kem_public P (seed i))"
    "length ct = kem_ciphertext_len P" "kem_decapsulate P (seed i) ct = ss"
    using kem_lawsD [OF _ _ _ e] i by simp_all
  obtain k where k: "derive_recipient_kek P ss = Inr k" "length k = 32"
    using derive_recipient_kekE i by blast
  show "\<exists>ct k w'. encapsulate P pub w = (Inr (ct, k), w') \<and> disk w' = disk w \<and> faults w' = faults w \<and>
        recover_kek P i ct = Inr k \<and> length k = 32"
    using pub i e l k
    by (auto simp: public_def decapsulation_key_def encapsulate_def recover_kek_def bindE_def fill_bytes_def ret_def)
qed

end
