(* ===== verification/Header_Format.thy ===== *)
theory Header_Format
  imports Identity Bincode
begin

text \<open>
  The \<open>bincode\<close> format of the volume header and of a public identity, and the laws of key
  derivation and key transport for the sample primitives: the witnesses about volumes run on these.
\<close>

section \<open>Encoders and decoders\<close>

definition put_kdf :: "kdf_params \<Rightarrow> bytes" where
  "put_kdf k = put_word 4 (m_cost k) @ put_word 4 (t_cost k) @ put_word 4 (p_cost k)"

definition get_kdf :: "kdf_params decoder" where
  "get_kdf = then_dec (get_word 4) (\<lambda>m. then_dec (get_word 4) (\<lambda>t. then_dec (get_word 4) (\<lambda>p.
     done_dec \<lparr>m_cost = m, t_cost = t, p_cost = p\<rparr>)))"

definition put_slot :: "key_slot \<Rightarrow> bytes" where
  "put_slot s = (case s of
      PasswordSlot salt kdf wrapped \<Rightarrow> nat_le 4 0 @ salt @ put_kdf kdf @ put_vec wrapped
    | RecipientSlot l param pk ct wrapped \<Rightarrow>
        nat_le 4 1 @ put_vec l @ put_word 2 param @ put_vec pk @ put_vec ct @ put_vec wrapped)"

definition get_slot :: "key_slot decoder" where
  "get_slot = then_dec (get_nat 4) (\<lambda>n.
     if n = 0 then
       then_dec (get_raw SALT_LEN) (\<lambda>salt. then_dec get_kdf (\<lambda>kdf. then_dec get_vec (\<lambda>wrapped.
       done_dec (PasswordSlot salt kdf wrapped))))
     else if n = 1 then
       then_dec get_vec (\<lambda>l. then_dec (get_word 2) (\<lambda>param. then_dec get_vec (\<lambda>pk.
       then_dec get_vec (\<lambda>ct. then_dec get_vec (\<lambda>wrapped bs.
       if utf8_valid l then Some (RecipientSlot l param pk ct wrapped, bs) else None)))))
     else (\<lambda>_. None))"

definition put_header :: "volume_header \<Rightarrow> bytes" where
  "put_header h = put_word 4 (version h) @ volume_id h @ put_list put_slot (slots h) @ mac h"

definition get_header :: "volume_header decoder" where
  "get_header = then_dec (get_word 4) (\<lambda>v. then_dec (get_raw VOLUME_ID_LEN) (\<lambda>i.
     then_dec (get_list get_slot) (\<lambda>ss. then_dec (get_raw MAC_LEN) (\<lambda>m.
     done_dec \<lparr>version = v, volume_id = i, slots = ss, mac = m\<rparr>))))"

definition put_public :: "public_identity \<Rightarrow> bytes" where
  "put_public p = put_word 2 (kem_param p) @ put_vec (kem_public_key p)"

definition get_public :: "public_identity decoder" where
  "get_public = then_dec (get_word 2) (\<lambda>k. then_dec get_vec (\<lambda>pk.
     done_dec \<lparr>kem_param = k, kem_public_key = pk\<rparr>))"

definition bincode_header :: "volume_header codec" where
  "bincode_header = codec_of put_header get_header"

definition bincode_public :: "public_identity codec" where
  "bincode_public = codec_of put_public get_public"

section \<open>They meet the contract\<close>

interpretation kdf: format put_kdf get_kdf "\<lambda>_. True"
  by unfold_locales (simp add: put_kdf_def get_kdf_def format_rules)

interpretation slot: format put_slot get_slot slot_wf
proof
  fix s rest assume "slot_wf s"
  then show "get_slot (put_slot s @ rest) = Some (s, rest)"
    by (cases s) (simp_all add: put_slot_def get_slot_def slot_wf_def format_rules natural.dcd_enc kdf.dcd_enc)
qed

interpretation slot_list: format "put_list put_slot" "get_list get_slot" "\<lambda>xs. vec_ok xs \<and> list_all slot_wf xs"
  by (rule format_list) (rule slot.format_axioms)

interpretation header: format put_header get_header header_wf
  by unfold_locales (simp add: put_header_def get_header_def header_wf_def format_rules slot_list.dcd_enc)

interpretation public_identity: format put_public get_public "\<lambda>p. vec_ok (kem_public_key p)"
  by unfold_locales (simp add: put_public_def get_public_def format_rules)

lemma bincode_header_laws [simp]: "codec_laws header_wf bincode_header"
  unfolding bincode_header_def by (rule codec_of_laws [OF header.format_axioms])

lemma bincode_public_laws [simp]: "codec_laws (\<lambda>p. vec_ok (kem_public_key p)) bincode_public"
  unfolding bincode_public_def by (rule codec_of_laws [OF public_identity.format_axioms])

section \<open>Sizes\<close>

text \<open>The length of a serialised header, field by field.\<close>

definition slot_size :: "key_slot \<Rightarrow> nat" where
  "slot_size s = (case s of
      PasswordSlot salt _ wrapped \<Rightarrow> 4 + SALT_LEN + 12 + (8 + length wrapped)
    | RecipientSlot l _ pk ct wrapped \<Rightarrow> 4 + (8 + length l) + 2 + (8 + length pk) + (8 + length ct) + (8 + length wrapped))"

definition header_size :: "volume_header \<Rightarrow> nat" where
  "header_size h = 4 + VOLUME_ID_LEN + (8 + sum_list (map slot_size (slots h))) + MAC_LEN"

definition header_sized :: "volume_header codec \<Rightarrow> bool" where
  "header_sized C \<longleftrightarrow> (\<forall>h b. header_wf h \<longrightarrow> ser C h = Some b \<longrightarrow> length b = header_size h)"

lemma length_put_word [simp]: "length (put_word k x) = k"
  by (simp add: put_word_def)

lemma length_put_vec [simp]: "length (put_vec xs) = 8 + length xs"
  by (simp add: put_vec_def)

lemma length_put_slot: "slot_wf s \<Longrightarrow> length (put_slot s) = slot_size s"
  by (cases s) (simp_all add: put_slot_def slot_size_def slot_wf_def put_kdf_def)

lemma bincode_header_sized [simp]: "header_sized bincode_header"
proof -
  have "length (concat (map put_slot xs)) = sum_list (map slot_size xs)" if "list_all slot_wf xs" for xs
    using that by (induction xs) (simp_all add: length_put_slot)
  then show ?thesis
    by (auto simp: header_sized_def bincode_header_def codec_of_def put_header_def put_list_def header_size_def header_wf_def)
qed

section \<open>The sample primitives\<close>

lemma kdf_laws_sample [simp]: "kdf_laws sample_prims"
  by (auto simp: kdf_laws_def sample_hkdf_def sample_argon2id_def)

lemma kem_laws_sample [simp]: "kem_laws sample_prims"
  by (auto simp: kem_laws_def sample_prims_def)

end
