(* ===== verification/Disk_Wp.thy ===== *)
theory Disk_Wp
  imports World
begin

text \<open>
  Weakest preconditions for fallible code, seen from the disk: \<open>dwp m Q E d\<close> says that \<open>m\<close>
  started on the files \<open>d\<close>, whatever the randomness, the clock and the I/O errors to come, either
  returns a value and files that satisfy \<open>Q\<close> or stops with an error and files that satisfy \<open>E\<close>.
  A crash between two file operations leaves the files of a run in which the next one fails, so
  \<open>E\<close> is also what holds after a crash.
\<close>

definition dwp :: "'a io \<Rightarrow> ('a \<Rightarrow> (path \<rightharpoonup> bytes) \<Rightarrow> bool) \<Rightarrow> ((path \<rightharpoonup> bytes) \<Rightarrow> bool) \<Rightarrow> (path \<rightharpoonup> bytes) \<Rightarrow> bool" where
  "dwp m Q E d \<longleftrightarrow> (\<forall>w. disk w = d \<longrightarrow>
     (case m w of (Inr x, w') \<Rightarrow> Q x (disk w') | (Inl e, w') \<Rightarrow> E (disk w')))"

named_theorems dwp_rules

lemma dwpD:
  assumes "dwp m Q E (disk w)" and "m w = (r, w')"
  shows "case r of Inr x \<Rightarrow> Q x (disk w') | Inl _ \<Rightarrow> E (disk w')"
  using assms by (auto simp: dwp_def split: sum.splits)

lemma dwp_weaken:
  assumes "dwp m Q E d" and "\<And>x d'. Q x d' \<Longrightarrow> Q' x d'" and "\<And>d'. E d' \<Longrightarrow> E' d'"
  shows "dwp m Q' E' d"
  using assms unfolding dwp_def by (fastforce split: prod.splits sum.splits)

lemma dwpI:
  assumes "\<And>w x w'. disk w = d \<Longrightarrow> m w = (Inr x, w') \<Longrightarrow> Q x (disk w')"
    and "\<And>w e w'. disk w = d \<Longrightarrow> m w = (Inl e, w') \<Longrightarrow> E (disk w')"
  shows "dwp m Q E d"
  using assms by (simp add: dwp_def split: prod.split sum.split)

lemma dwp_bindE [dwp_rules]:
  assumes "dwp m (\<lambda>x. dwp (f x) Q E) E d"
  shows "dwp (bindE m f) Q E d"
proof (rule dwpI)
  fix w y w'' assume w: "disk w = d" and "bindE m f w = (Inr y, w'')"
  then obtain x w' where "m w = (Inr x, w')" "f x w' = (Inr y, w'')" by (elim bindE_InrE)
  then show "Q y (disk w'')"
    using dwpD [of m _ E w] dwpD [of "f x" Q E w'] assms w by fastforce
next
  fix w e w'' assume w: "disk w = d" and run: "bindE m f w = (Inl e, w'')"
  from run show "E (disk w'')"
  proof (cases rule: bindE_cases)
    case (Err e')
    then show ?thesis using dwpD [of m _ E w] assms w by fastforce
  next
    case (Ok x w')
    then show ?thesis using dwpD [of m _ E w] dwpD [of "f x" Q E w'] assms w by fastforce
  qed
qed

lemma dwp_ret [dwp_rules]: "Q x d \<Longrightarrow> dwp (ret x) Q E d"
  by (simp add: dwp_def ret_def)

lemma dwp_throw [dwp_rules]: "E d \<Longrightarrow> dwp (throw e) Q E d"
  by (simp add: dwp_def throw_def)

lemma dwp_lift [dwp_rules]: "(\<And>x. r = Inr x \<Longrightarrow> Q x d) \<Longrightarrow> E d \<Longrightarrow> dwp (lift r) Q E d"
  by (simp add: dwp_def lift_def split: sum.split)

lemma dwp_if [dwp_rules]: "(b \<Longrightarrow> dwp m Q E d) \<Longrightarrow> (\<not> b \<Longrightarrow> dwp m' Q E d) \<Longrightarrow> dwp (if b then m else m') Q E d"
  by simp

lemma dwp_let [dwp_rules]: "dwp (f x) Q E d \<Longrightarrow> dwp (Let x f) Q E d"
  by simp

lemma dwp_fill_bytes [dwp_rules]: "(\<And>x. length x = n \<Longrightarrow> Q x d) \<Longrightarrow> dwp (fill_bytes n) Q E d"
  by (simp add: dwp_def fill_bytes_def)

lemma dwp_fs_exists [dwp_rules]:
  assumes "d p \<noteq> None \<Longrightarrow> dwp m Q E d" and "d p = None \<Longrightarrow> dwp m' Q E d"
  shows "dwp (\<lambda>w. if fs_exists p w then m w else m' w) Q E d"
  using assms by (auto simp: dwp_def fs_exists_def)

lemma dwp_fs_op:
  assumes "\<And>flt. dwp (f flt) Q E d"
  shows "dwp (fs_op f) Q E d"
  using assms by (simp add: dwp_def fs_op_def)

lemma dwp_fs_sync_all [dwp_rules]: "Q () d \<Longrightarrow> E d \<Longrightarrow> dwp (fs_sync_all p) Q E d"
  by (simp add: fs_sync_all_def dwp_fs_op dwp_ret dwp_throw)

lemma dwp_fs_sync_dir [dwp_rules]: "Q () d \<Longrightarrow> E d \<Longrightarrow> dwp (fs_sync_dir p) Q E d"
  unfolding fs_sync_dir_def by (intro dwp_rules)

lemma dwp_fs_create_dir_all [dwp_rules]: "Q () d \<Longrightarrow> E d \<Longrightarrow> dwp (fs_create_dir_all p) Q E d"
  by (simp add: fs_create_dir_all_def dwp_fs_op dwp_ret dwp_throw)

lemma dwp_fs_create [dwp_rules]: "Q () (d(p \<mapsto> [])) \<Longrightarrow> E d \<Longrightarrow> dwp (fs_create p) Q E d"
  unfolding fs_create_def by (rule dwp_fs_op) (simp add: dwp_def split: option.split)

lemma dwp_fs_read [dwp_rules]: "(\<And>b. d p = Some b \<Longrightarrow> Q b d) \<Longrightarrow> E d \<Longrightarrow> dwp (fs_read p) Q E d"
  unfolding fs_read_def by (rule dwp_fs_op) (simp add: dwp_def split: option.split)

lemma dwp_fs_write_all_at [dwp_rules]:
  assumes "\<And>b. d p = Some b \<Longrightarrow> Q () (d(p \<mapsto> put_at (unat off) ys b))" and "E d" and "\<And>b. E (d(p \<mapsto> b))"
  shows "dwp (fs_write_all_at p off ys) Q E d"
  unfolding fs_write_all_at_def by (rule dwp_fs_op) (use assms in \<open>simp add: dwp_def split: option.split\<close>)

lemma dwp_fs_write [dwp_rules]:
  assumes "Q () (d(p \<mapsto> ys))" and "E d" and "\<And>b. E (d(p \<mapsto> b))"
  shows "dwp (fs_write p ys) Q E d"
  unfolding fs_write_def by (intro dwp_rules; simp add: assms)

lemma dwp_fs_rename [dwp_rules]:
  assumes "\<And>x. d a = Some x \<Longrightarrow> Q () ((d(a := None))(b \<mapsto> x))" and "E d"
  shows "dwp (fs_rename a b) Q E d"
  unfolding fs_rename_def by (rule dwp_fs_op) (use assms in \<open>simp add: dwp_def split: option.split\<close>)

lemma dwp_fs_remove_file [dwp_rules]:
  assumes "Q () (d(p := None))" and "E d"
  shows "dwp (fs_remove_file p) Q E d"
  unfolding fs_remove_file_def by (rule dwp_fs_op) (use assms in \<open>simp add: dwp_def split: option.split\<close>)

text \<open>Creating a file, writing it whole and syncing it.\<close>

lemma dwp_write_synced:
  assumes "Q () (d(p \<mapsto> data))" and "E d" and "\<And>b. E (d(p \<mapsto> b))"
  shows "dwp (bindE (fs_create p) (\<lambda>_. bindE (fs_write_all_at p 0 data) (\<lambda>_. fs_sync_all p))) Q E d"
  by (intro dwp_rules; simp add: assms)

end
