(* ===== verification/Volume.thy ===== *)
theory Volume
  imports Header_Format Disk_Wp
begin

text \<open>
  The life of a volume (\<open>src/crypto/volume.rs\<close>): creating it, opening its master key from a key
  slot, checking and sealing the header, and swapping in a new header and index together.
\<close>

section \<open>Operations\<close>

datatype unlock_credential = UnlockPassword bytes | UnlockIdentity identity

definition HEADER_FILE :: string where "HEADER_FILE = ''pqfs.header''"
definition REKEY_MARKER :: string where "REKEY_MARKER = ''pqfs.rekey''"
definition HEADER_STAGING :: string where "HEADER_STAGING = ''pqfs.header.new''"
definition INDEX_STAGING :: string where "INDEX_STAGING = ''pqfs.index.new''"

definition sync_dir :: "path \<Rightarrow> unit io" where
  "sync_dir back = fs_sync_dir back"

definition write_synced :: "path \<Rightarrow> bytes \<Rightarrow> unit io" where
  "write_synced p data =
     bindE (fs_create p) (\<lambda>_.
     bindE (fs_write_all_at p 0 data) (\<lambda>_.
     fs_sync_all p))"

definition seal_header :: "prims \<Rightarrow> volume_header codec \<Rightarrow> volume_header \<Rightarrow> bytes \<Rightarrow> volume_header result" where
  "seal_header P C h master_key =
     (let h0 = h\<lparr>mac := replicate MAC_LEN 0\<rparr> in
      rbind (derive_header_mac_key P master_key) (\<lambda>mac_key.
      rbind (header_mac P C mac_key h0) (\<lambda>m.
      Inr (h0\<lparr>mac := m\<rparr>))))"

definition random_master_key :: "bytes io" where
  "random_master_key = fill_bytes KEY_LEN"

definition password_slot :: "prims \<Rightarrow> bytes \<Rightarrow> bytes \<Rightarrow> bytes \<Rightarrow> kdf_params \<Rightarrow> key_slot io" where
  "password_slot P password vid master_key kdf =
     bindE (fill_bytes SALT_LEN) (\<lambda>salt.
     bindE (lift (derive_password_key P password salt kdf)) (\<lambda>kek.
     bindE (wrap_master_key P kek vid master_key) (\<lambda>wrapped.
     ret (PasswordSlot salt kdf wrapped))))"

definition recipient_slot :: "prims \<Rightarrow> public_identity \<Rightarrow> bytes \<Rightarrow> bytes \<Rightarrow> bytes \<Rightarrow> key_slot io" where
  "recipient_slot P recipient lbl vid master_key =
     bindE (encapsulate P recipient) (\<lambda>(kem_ciphertext, kek).
     bindE (wrap_master_key P kek vid master_key) (\<lambda>wrapped.
     ret (RecipientSlot lbl (kem_param recipient) (kem_public_key recipient) kem_ciphertext wrapped)))"

definition ok_option :: "'a result \<Rightarrow> 'a option" where
  "ok_option r = (case r of Inl _ \<Rightarrow> None | Inr x \<Rightarrow> Some x)"

definition try_slot :: "prims \<Rightarrow> volume_header \<Rightarrow> key_slot \<Rightarrow> unlock_credential \<Rightarrow> bytes option result" where
  "try_slot P h slot credential =
     (case (slot, credential) of
        (PasswordSlot salt kdf wrapped, UnlockPassword password) \<Rightarrow>
          rbind (derive_password_key P password salt kdf) (\<lambda>kek.
          Inr (ok_option (unwrap_master_key P kek (volume_id h) wrapped)))
      | (RecipientSlot _ _ _ kem_ciphertext wrapped, UnlockIdentity i) \<Rightarrow>
          (case recover_kek P i kem_ciphertext of
             Inl _ \<Rightarrow> Inr None
           | Inr kek \<Rightarrow> Inr (ok_option (unwrap_master_key P kek (volume_id h) wrapped)))
      | _ \<Rightarrow> Inr None)"

fun try_slots :: "prims \<Rightarrow> volume_header \<Rightarrow> key_slot list \<Rightarrow> unlock_credential \<Rightarrow> bytes result" where
  "try_slots P h [] credential = Inl NoSlotAccepted"
| "try_slots P h (slot # rest) credential =
     rbind (try_slot P h slot credential) (\<lambda>r.
     case r of Some master_key \<Rightarrow> Inr master_key | None \<Rightarrow> try_slots P h rest credential)"

definition open_master_key :: "prims \<Rightarrow> volume_header \<Rightarrow> unlock_credential \<Rightarrow> bytes result" where
  "open_master_key P h credential = try_slots P h (slots h) credential"

definition recover :: "path \<Rightarrow> unit io" where
  "recover back w =
     (if \<not> fs_exists (back @ [REKEY_MARKER]) w then ret () w
      else if \<not> fs_exists (back @ [HEADER_STAGING]) w \<or> \<not> fs_exists (back @ [INDEX_STAGING]) w
      then throw IncompleteRekey w
      else
        bindE (fs_rename (back @ [INDEX_STAGING]) (back @ [INDEX_FILE])) (\<lambda>_.
        bindE (fs_rename (back @ [HEADER_STAGING]) (back @ [HEADER_FILE])) (\<lambda>_.
        bindE (sync_dir back) (\<lambda>_.
        bindE (fs_remove_file (back @ [REKEY_MARKER])) (\<lambda>_.
        sync_dir back)))) w)"

definition read_header :: "volume_header codec \<Rightarrow> path \<Rightarrow> volume_header io" where
  "read_header C back =
     bindE (recover back) (\<lambda>_.
     bindE (fs_read (back @ [HEADER_FILE])) (\<lambda>data.
     if length data > MAX_HEADER_BYTES then throw HeaderTooLarge
     else
       bindE (lift (bincode_deserialize C data)) (\<lambda>h.
       if version h \<noteq> HEADER_VERSION then throw (HeaderVersion (version h)) else ret h)))"

definition save :: "volume_header codec \<Rightarrow> crypto \<Rightarrow> path \<Rightarrow> unit io" where
  "save C cr back =
     bindE (lift (bincode_serialize C (header cr))) (\<lambda>data.
     fs_write (back @ [HEADER_FILE]) data)"

definition init_with_params ::
  "prims \<Rightarrow> volume_header codec \<Rightarrow> bytes \<Rightarrow> path \<Rightarrow> kdf_params \<Rightarrow> crypto io" where
  "init_with_params P C password back kdf =
     bindE (fs_create_dir_all back) (\<lambda>_ w.
     if fs_exists (back @ [HEADER_FILE]) w then throw VolumeExists w
     else
       bindE random_master_key (\<lambda>master_key.
       bindE (fill_bytes VOLUME_ID_LEN) (\<lambda>vid.
       bindE (password_slot P password vid master_key kdf) (\<lambda>slot.
       bindE (lift (seal_header P C
         \<lparr>version = HEADER_VERSION, volume_id = vid, slots = [slot], mac = replicate MAC_LEN 0\<rparr> master_key)) (\<lambda>h.
       bindE (lift (from_master_key P master_key h)) (\<lambda>this.
       bindE (save C this back) (\<lambda>_.
       ret this)))))) w)"

definition init :: "prims \<Rightarrow> volume_header codec \<Rightarrow> bytes \<Rightarrow> path \<Rightarrow> crypto io" where
  "init P C password back = init_with_params P C password back kdf_default"

definition unlock :: "prims \<Rightarrow> volume_header codec \<Rightarrow> path \<Rightarrow> unlock_credential \<Rightarrow> crypto io" where
  "unlock P C back credential =
     bindE (read_header C back) (\<lambda>h.
     bindE (lift (open_master_key P h credential)) (\<lambda>master_key.
     bindE (lift (derive_header_mac_key P master_key)) (\<lambda>mac_key.
     bindE (lift (verify_header_mac P C mac_key h)) (\<lambda>_.
     lift (from_master_key P master_key h)))))"

definition commit_rekey ::
  "prims \<Rightarrow> volume_header codec \<Rightarrow> path \<Rightarrow> volume_header \<Rightarrow> bytes \<Rightarrow> bytes \<Rightarrow> volume_header io" where
  "commit_rekey P C back h master_key index =
     bindE (lift (seal_header P C h master_key)) (\<lambda>h'.
     bindE (write_synced (back @ [INDEX_STAGING]) index) (\<lambda>_.
     bindE (lift (bincode_serialize C h')) (\<lambda>data.
     bindE (write_synced (back @ [HEADER_STAGING]) data) (\<lambda>_.
     bindE (sync_dir back) (\<lambda>_.
     bindE (write_synced (back @ [REKEY_MARKER]) (ascii ''1'')) (\<lambda>_.
     bindE (sync_dir back) (\<lambda>_.
     bindE (recover back) (\<lambda>_.
     ret h'))))))))"

definition write_header ::
  "prims \<Rightarrow> volume_header codec \<Rightarrow> path \<Rightarrow> volume_header \<Rightarrow> bytes \<Rightarrow> volume_header io" where
  "write_header P C back h master_key =
     bindE (lift (seal_header P C h master_key)) (\<lambda>h'.
     let p = back @ [HEADER_FILE]; tmp = with_extension p ''tmp'' in
     bindE (lift (bincode_serialize C h')) (\<lambda>data.
     bindE (fs_create tmp) (\<lambda>_.
     bindE (fs_write_all_at tmp 0 data) (\<lambda>_.
     bindE (fs_sync_all tmp) (\<lambda>_.
     bindE (fs_rename tmp p) (\<lambda>_.
     bindE (fs_sync_dir back) (\<lambda>_.
     ret h')))))))"

section \<open>Slots\<close>

lemma fill_bytes_length: "fill_bytes n w = (Inr x, w') \<Longrightarrow> length x = n \<and> w' = w\<lparr>tape := drop n (tape w)\<rparr>"
  by (auto simp: fill_bytes_def)

lemma unwrap_wrap:
  assumes "aead_laws P" and "length kek = 32" and "length mk = 32" and "wrap_master_key P kek vid mk w = (Inr x, w')"
  shows "unwrap_master_key P kek vid x = Inr mk" and "length x = 72" and "w' = draw_nonce w"
proof -
  have ok: "aead_laws P \<and> length kek = 32 \<and> length mk = 32" using assms by simp
  show "unwrap_master_key P kek vid x = Inr mk" "length x = 72"
    using wrapped.unseal_seal [OF ok assms(4)] wrapped.seal_length [OF ok assms(4)] assms(3) by simp_all
  show "w' = draw_nonce w" using wrapped.seal_total [OF ok, of vid w] assms(4) by auto
qed

text \<open>A slot made for a credential opens with it and yields the master key it was made with.\<close>

lemma password_slot_opens:
  assumes P: "aead_laws P" "kdf_laws P" and mk: "length mk = 32" and vid: "volume_id h = vid"
    and run: "password_slot P pw vid mk kdf w = (Inr slot, w')"
  shows "try_slot P h slot (UnlockPassword pw) = Inr (Some mk)" and "slot_wf slot"
    and "\<exists>salt wrapped. slot = PasswordSlot salt kdf wrapped \<and> length wrapped = 72" and "disk w' = disk w" and "faults w' = faults w"
proof -
  from run obtain salt w1 kek wrapped where 1: "fill_bytes SALT_LEN w = (Inr salt, w1)"
    "derive_password_key P pw salt kdf = Inr kek" "wrap_master_key P kek vid mk w1 = (Inr wrapped, w')"
    "slot = PasswordSlot salt kdf wrapped"
    by (auto simp: password_slot_def lift_def ret_def elim!: bindE_InrE)
  note u = unwrap_wrap [OF P(1) derive_password_key_length [OF P(2) 1(2)] mk 1(3)]
  show "try_slot P h slot (UnlockPassword pw) = Inr (Some mk)"
    using 1 u vid by (simp add: try_slot_def ok_option_def)
  show "slot_wf slot" using 1 u fill_bytes_length [OF 1(1)] by (simp add: slot_wf_def vec_ok_def)
  show "\<exists>salt wrapped. slot = PasswordSlot salt kdf wrapped \<and> length wrapped = 72" using 1 u by blast
  show "disk w' = disk w" "faults w' = faults w" using u(3) fill_bytes_length [OF 1(1)] by simp_all
qed

lemma password_slot_total:
  assumes "aead_laws P" and "kdf_laws P" and "length mk = 32" and "length pw < 2 ^ 32"
    and "argon2_params_ok P (m_cost kdf) (t_cost kdf) (p_cost kdf) KEY_LEN"
  shows "\<exists>slot w'. password_slot P pw vid mk kdf w = (Inr slot, w')"
proof -
  obtain salt w1 where s: "fill_bytes SALT_LEN w = (Inr salt, w1)" "length salt = SALT_LEN"
    by (simp add: fill_bytes_def)
  obtain kek where k: "derive_password_key P pw salt kdf = Inr kek" "length kek = 32"
    using derive_password_keyE [OF assms(2,5) s(2) assms(4)] by blast
  obtain x where "wrap_master_key P kek vid mk w1 = (Inr x, draw_nonce w1)"
    using wrapped.seal_total [of P kek mk vid w1] assms k by blast
  with s k show ?thesis by (simp add: password_slot_def bindE_def ret_def)
qed

lemma recipient_slot_opens:
  assumes P: "aead_laws P" "kdf_laws P" "kem_laws P" and mk: "length mk = 32" and vid: "volume_id h = vid"
    and i: "length (seed i) = SEED_LEN" "public P i = Inr pub"
    and run: "recipient_slot P pub lbl vid mk w = (Inr slot, w')"
  shows "try_slot P h slot (UnlockIdentity i) = Inr (Some mk)"
    and "\<exists>ct wrapped. slot = RecipientSlot lbl (kem_param pub) (kem_public_key pub) ct wrapped \<and> length wrapped = 72 \<and>
      length ct = kem_ciphertext_len P"
    and "disk w' = disk w" and "faults w' = faults w"
proof -
  obtain ct k w1 where 1: "encapsulate P pub w = (Inr (ct, k), w1)" "disk w1 = disk w" "faults w1 = faults w"
    "recover_kek P i ct = Inr k" "length k = 32"
    using kem.send_receive [of P i pub w] P i by blast
  from run 1 obtain wrapped where 2: "wrap_master_key P k vid mk w1 = (Inr wrapped, w')"
    "slot = RecipientSlot lbl (kem_param pub) (kem_public_key pub) ct wrapped"
    by (auto simp: recipient_slot_def ret_def elim!: bindE_InrE)
  note u = unwrap_wrap [OF P(1) 1(5) mk 2(1)]
  have "length ct = kem_ciphertext_len P" using 1(4) by (simp add: recover_kek_def split: if_splits)
  then show "try_slot P h slot (UnlockIdentity i) = Inr (Some mk)"
    "\<exists>ct wrapped. slot = RecipientSlot lbl (kem_param pub) (kem_public_key pub) ct wrapped \<and> length wrapped = 72 \<and>
      length ct = kem_ciphertext_len P"
    "disk w' = disk w" "faults w' = faults w"
    using 1 2 u vid by (simp_all add: try_slot_def ok_option_def)
qed

text \<open>The first slot that accepts the credential decides.\<close>

lemma try_slots_append:
  "try_slots P h (xs @ ys) c = (case try_slots P h xs c of Inl NoSlotAccepted \<Rightarrow> try_slots P h ys c | r \<Rightarrow> r)"
proof (induction xs)
  case (Cons x xs)
  have "try_slot P h x c \<noteq> Inl NoSlotAccepted"
    by (auto simp: try_slot_def derive_password_key_def rbind_def of_option_def split: key_slot.splits unlock_credential.splits sum.splits option.splits if_splits)
  then show ?case
    using Cons by (cases "try_slot P h x c") (auto simp: rbind_def split: option.splits error.splits sum.splits)
qed simp

lemma try_slots_skip: "list_all (\<lambda>s. try_slot P h s c = Inr None) xs \<Longrightarrow> try_slots P h (xs @ ys) c = try_slots P h ys c"
  by (induction xs) simp_all

lemma try_slot_cong: "volume_id h' = volume_id h \<Longrightarrow> try_slot P h' s c = try_slot P h s c"
  by (cases s; cases c) (simp_all add: try_slot_def split: sum.split)

lemma try_slots_cong: "volume_id h' = volume_id h \<Longrightarrow> try_slots P h' xs c = try_slots P h xs c"
  by (induction xs) (simp_all add: try_slot_cong [of h' h])

lemma unwrap_length: "unwrap_master_key P kek vid x = Inr mk \<Longrightarrow> length mk = 32"
  by (auto simp: unwrap_master_key_def rbind_Inr_iff split: if_splits)

lemma try_slot_length:
  assumes "try_slot P h x c = Inr (Some k)"
  shows "length k = 32"
proof -
  obtain kek wrapped where "ok_option (unwrap_master_key P kek (volume_id h) wrapped) = Some k"
    using assms by (cases x; cases c) (auto simp: try_slot_def rbind_Inr_iff split: sum.splits)
  then show ?thesis using unwrap_length by (auto simp: ok_option_def split: sum.splits)
qed

lemma try_slots_length: "try_slots P h xs c = Inr mk \<Longrightarrow> length mk = 32"
  by (induction xs) (auto simp: rbind_Inr_iff try_slot_length split: option.splits)

section \<open>Sealing\<close>

lemma seal_headerE:
  assumes "seal_header P C h mk = Inr h'"
  obtains k b where "derive_header_mac_key P mk = Inr k" and "verify_header_mac P C k h' = Inr ()"
    and "version h' = version h" and "volume_id h' = volume_id h" and "slots h' = slots h"
    and "mac h' = hmac_sha256 P k b"
proof -
  from assms obtain k m where 1: "derive_header_mac_key P mk = Inr k"
    "header_mac P C k (h\<lparr>mac := replicate MAC_LEN 0\<rparr>) = Inr m" "h' = h\<lparr>mac := m\<rparr>"
    by (auto simp: seal_header_def Let_def rbind_Inr_iff)
  from 1(2) obtain b where b: "authenticated_bytes C (h\<lparr>mac := replicate MAC_LEN 0\<rparr>) = Inr b" "m = hmac_sha256 P k b"
    by (auto simp: header_mac_def rbind_Inr_iff)
  then have "authenticated_bytes C h' = Inr b" using 1 by (simp add: authenticated_bytes_def)
  with 1 b have "verify_header_mac P C k h' = Inr ()" by (simp add: verify_header_mac_def)
  with 1 b that show ?thesis by simp
qed

lemma seal_header_wf: "mac_laws P \<Longrightarrow> header_wf h \<Longrightarrow> seal_header P C h mk = Inr h' \<Longrightarrow> header_wf h'"
  by (erule seal_headerE) (auto simp: header_wf_def mac_laws_def)

lemma seal_header_total:
  assumes "kdf_laws P" and "codec_laws header_wf C" and "header_wf h"
  shows "\<exists>h'. seal_header P C h mk = Inr h'"
proof -
  have "header_wf (h\<lparr>mac := replicate MAC_LEN 0\<rparr>)" using assms(3) by (simp add: header_wf_def)
  then obtain b where b: "ser C (h\<lparr>mac := replicate MAC_LEN 0\<rparr>) = Some b" using codec_lawsE [OF assms(2)] by blast
  obtain k where "derive_header_mac_key P mk = Inr k" using derive_header_mac_keyE [OF assms(1)] by blast
  with b show ?thesis
    by (simp add: seal_header_def Let_def header_mac_def authenticated_bytes_def bincode_serialize_def)
qed

section \<open>The header on disk\<close>

definition header_on_disk :: "volume_header codec \<Rightarrow> path \<Rightarrow> (path \<rightharpoonup> bytes) \<Rightarrow> volume_header \<Rightarrow> bool" where
  "header_on_disk C bk d h = (case d (bk @ [HEADER_FILE]) of
      None \<Rightarrow> False
    | Some b \<Rightarrow> length b \<le> MAX_HEADER_BYTES \<and> de C b = Some h \<and> version h = HEADER_VERSION)"

definition settled :: "path \<Rightarrow> (path \<rightharpoonup> bytes) \<Rightarrow> bool" where
  "settled bk d \<longleftrightarrow> d (bk @ [REKEY_MARKER]) = None"

lemmas volume_files = HEADER_FILE_def REKEY_MARKER_def HEADER_STAGING_def INDEX_STAGING_def INDEX_FILE_def

lemma recover_settled [simp]: "settled bk (disk w) \<Longrightarrow> recover bk w = (Inr (), w)"
  by (simp add: recover_def settled_def fs_exists_def ret_def)

lemma read_header_ok:
  assumes "fault_free w" and "settled bk (disk w)" and "header_on_disk C bk (disk w) h"
  shows "read_header C bk w = (Inr h, tick w)"
  using assms
  by (auto simp: read_header_def header_on_disk_def bindE_def fs_ok_present bincode_deserialize_def ret_def
      split: option.splits)

lemma header_on_disk_unique: "header_on_disk C bk d h \<Longrightarrow> header_on_disk C bk d h' \<Longrightarrow> h = h'"
  by (auto simp: header_on_disk_def split: option.splits)

text \<open>What \<open>unlock\<close> does with the header it has read.\<close>

definition open_header :: "prims \<Rightarrow> volume_header codec \<Rightarrow> volume_header \<Rightarrow> unlock_credential \<Rightarrow> crypto result" where
  "open_header P C h c =
     rbind (open_master_key P h c) (\<lambda>mk.
     rbind (derive_header_mac_key P mk) (\<lambda>k.
     rbind (verify_header_mac P C k h) (\<lambda>_.
     from_master_key P mk h)))"

lemma lift_rbind: "lift (rbind r f) = bindE (lift r) (\<lambda>x. lift (f x))"
  by (cases r) simp_all

lemma unlock_alt: "unlock P C bk c = bindE (read_header C bk) (\<lambda>h. lift (open_header P C h c))"
  by (simp add: unlock_def open_header_def lift_rbind)

lemma unlock_ok:
  assumes "fault_free w" and "settled bk (disk w)" and "header_on_disk C bk (disk w) h"
  shows "unlock P C bk c w = (open_header P C h c, tick w)"
  using read_header_ok [OF assms] by (simp add: unlock_alt bindE_def lift_def)

text \<open>A header sealed with the master key a credential opens is accepted with that credential.\<close>

lemma open_sealed:
  assumes "kdf_laws P" and "seal_header P C h mk = Inr h'" and "open_master_key P h' c = Inr mk"
  obtains cr where "open_header P C h' c = Inr cr" and "from_master_key P mk h' = Inr cr" and "cipher cr = mk"
proof -
  obtain cr where "from_master_key P mk h' = Inr cr" "cipher cr = mk"
    using from_master_keyE [OF assms(1)] try_slots_length assms(3) unfolding open_master_key_def by metis
  moreover obtain k where "derive_header_mac_key P mk = Inr k" "verify_header_mac P C k h' = Inr ()"
    using seal_headerE [OF assms(2)] by metis
  ultimately show thesis using that assms(3) by (simp add: open_header_def)
qed

lemma open_master_key_sealed:
  "seal_header P C h mk = Inr h' \<Longrightarrow> open_master_key P h' c = open_master_key P h c"
  by (erule seal_headerE) (simp add: open_master_key_def try_slots_cong [of h' h])

section \<open>Replacing the header\<close>

lemma with_extension_header: "with_extension (bk @ [HEADER_FILE]) ''tmp'' = bk @ [''pqfs.tmp'']"
  by (simp add: with_extension_def file_stem_def HEADER_FILE_def)

lemma dwp_write_header:
  assumes "\<And>h' b. seal_header P C h mk = Inr h' \<Longrightarrow> ser C h' = Some b \<Longrightarrow>
      Q h' ((d(bk @ [''pqfs.tmp''] := None))(bk @ [HEADER_FILE] \<mapsto> b))"
    and "E d" and "\<And>b. E (d(bk @ [''pqfs.tmp''] \<mapsto> b))"
    and "\<And>h' b. seal_header P C h mk = Inr h' \<Longrightarrow> ser C h' = Some b \<Longrightarrow>
      E ((d(bk @ [''pqfs.tmp''] := None))(bk @ [HEADER_FILE] \<mapsto> b))"
  shows "dwp (write_header P C bk h mk) Q E d"
  unfolding write_header_def with_extension_header Let_def
  by (intro dwp_rules; simp add: assms bincode_serialize_def)

section \<open>Swapping the header and the index together\<close>

text \<open>
  How far a rekey has come, from the files alone: \<open>d\<close> before it, \<open>d'\<close> now, \<open>nh\<close> and \<open>ni\<close> the new
  header and index.
\<close>

definition same_pair :: "path \<Rightarrow> (path \<rightharpoonup> bytes) \<Rightarrow> (path \<rightharpoonup> bytes) \<Rightarrow> bool" where
  "same_pair bk d d' \<longleftrightarrow> d' (bk @ [HEADER_FILE]) = d (bk @ [HEADER_FILE]) \<and> d' (bk @ [INDEX_FILE]) = d (bk @ [INDEX_FILE])"

definition uncommitted :: "path \<Rightarrow> (path \<rightharpoonup> bytes) \<Rightarrow> (path \<rightharpoonup> bytes) \<Rightarrow> bool" where
  "uncommitted bk d d' \<longleftrightarrow> settled bk d' \<and> same_pair bk d d'"

definition committed :: "path \<Rightarrow> bytes \<Rightarrow> bytes \<Rightarrow> (path \<rightharpoonup> bytes) \<Rightarrow> (path \<rightharpoonup> bytes) \<Rightarrow> bool" where
  "committed bk nh ni d d' \<longleftrightarrow> \<not> settled bk d' \<and> same_pair bk d d' \<and>
     d' (bk @ [HEADER_STAGING]) = Some nh \<and> d' (bk @ [INDEX_STAGING]) = Some ni"

definition half_swapped :: "path \<Rightarrow> bytes \<Rightarrow> bytes \<Rightarrow> (path \<rightharpoonup> bytes) \<Rightarrow> (path \<rightharpoonup> bytes) \<Rightarrow> bool" where
  "half_swapped bk nh ni d d' \<longleftrightarrow> \<not> settled bk d' \<and>
     d' (bk @ [INDEX_FILE]) = Some ni \<and> d' (bk @ [INDEX_STAGING]) = None \<and>
     (d' (bk @ [HEADER_FILE]) = d (bk @ [HEADER_FILE]) \<and> d' (bk @ [HEADER_STAGING]) = Some nh \<or>
      d' (bk @ [HEADER_FILE]) = Some nh \<and> d' (bk @ [HEADER_STAGING]) = None)"

definition swapped :: "path \<Rightarrow> bytes \<Rightarrow> bytes \<Rightarrow> (path \<rightharpoonup> bytes) \<Rightarrow> bool" where
  "swapped bk nh ni d' \<longleftrightarrow> settled bk d' \<and> d' (bk @ [HEADER_FILE]) = Some nh \<and> d' (bk @ [INDEX_FILE]) = Some ni"

lemmas rekey_stages = same_pair_def uncommitted_def committed_def half_swapped_def swapped_def settled_def

definition rekey_progress :: "path \<Rightarrow> bytes \<Rightarrow> bytes \<Rightarrow> (path \<rightharpoonup> bytes) \<Rightarrow> (path \<rightharpoonup> bytes) \<Rightarrow> bool" where
  "rekey_progress bk nh ni d d' \<longleftrightarrow> uncommitted bk d d' \<or> committed bk nh ni d d' \<or>
     half_swapped bk nh ni d d' \<or> swapped bk nh ni d'"

lemma dwp_write_synced' [dwp_rules]:
  "Q () (d(p \<mapsto> data)) \<Longrightarrow> E d \<Longrightarrow> (\<And>b. E (d(p \<mapsto> b))) \<Longrightarrow> dwp (write_synced p data) Q E d"
  unfolding write_synced_def by (rule dwp_write_synced)

lemma dwp_sync_dir [dwp_rules]: "Q () d \<Longrightarrow> E d \<Longrightarrow> dwp (sync_dir bk) Q E d"
  unfolding sync_dir_def by (rule dwp_fs_sync_dir)

lemma recover_alt:
  "recover bk = (\<lambda>w. if fs_exists (bk @ [REKEY_MARKER]) w
     then (if fs_exists (bk @ [HEADER_STAGING]) w
       then (if fs_exists (bk @ [INDEX_STAGING]) w
         then bindE (fs_rename (bk @ [INDEX_STAGING]) (bk @ [INDEX_FILE])) (\<lambda>_.
           bindE (fs_rename (bk @ [HEADER_STAGING]) (bk @ [HEADER_FILE])) (\<lambda>_.
           bindE (sync_dir bk) (\<lambda>_.
           bindE (fs_remove_file (bk @ [REKEY_MARKER])) (\<lambda>_.
           sync_dir bk)))) w
         else throw IncompleteRekey w)
       else throw IncompleteRekey w)
     else ret () w)"
  by (rule ext) (simp add: recover_def)

lemma dwp_recover:
  assumes "committed bk nh ni d0 d"
  shows "dwp (recover bk) (\<lambda>_. swapped bk nh ni) (\<lambda>d'. committed bk nh ni d0 d' \<or> half_swapped bk nh ni d0 d' \<or> swapped bk nh ni d') d"
  unfolding recover_alt
  by (intro dwp_rules; use assms in \<open>auto simp: rekey_stages volume_files\<close>)

lemma dwp_commit_rekey:
  assumes "settled bk d" and "seal_header P C h mk = Inr h'" and "ser C h' = Some nh"
  shows "dwp (commit_rekey P C bk h mk ni) (\<lambda>x d'. x = h' \<and> swapped bk nh ni d') (rekey_progress bk nh ni d) d"
proof -
  have 1: "uncommitted bk d d" using assms by (simp add: rekey_stages)
  have 2: "uncommitted bk d (d(bk @ [INDEX_STAGING] \<mapsto> b))" for b using assms by (simp add: rekey_stages volume_files)
  let ?d = "d(bk @ [INDEX_STAGING] \<mapsto> ni)"
  have 3: "uncommitted bk d (?d(bk @ [HEADER_STAGING] \<mapsto> b))" for b using assms by (simp add: rekey_stages volume_files)
  let ?d2 = "?d(bk @ [HEADER_STAGING] \<mapsto> nh)"
  have 4: "committed bk nh ni d (?d2(bk @ [REKEY_MARKER] \<mapsto> b))" for b
    by (simp add: rekey_stages volume_files)
  note u = rekey_progress_def
  have 5: "dwp (recover bk) (\<lambda>_. dwp (ret h') (\<lambda>x d'. x = h' \<and> swapped bk nh ni d') (rekey_progress bk nh ni d))
      (rekey_progress bk nh ni d) (?d2(bk @ [REKEY_MARKER] \<mapsto> b))" for b
    by (rule dwp_weaken [OF dwp_recover [OF 4]]) (auto simp: u dwp_ret)
  show ?thesis
    unfolding commit_rekey_def
    apply (intro dwp_rules)
    using 1 2 3 4 5 assms by (auto simp: u bincode_serialize_def)
qed

lemma recover_half_swapped: "half_swapped bk nh ni d (disk w) \<Longrightarrow> recover bk w = (Inl IncompleteRekey, w)"
  by (auto simp: recover_def rekey_stages fs_exists_def throw_def)

lemma recover_committed:
  assumes "committed bk nh ni d (disk w)" and "fault_free w"
  shows "\<exists>w'. recover bk w = (Inr (), w') \<and> swapped bk nh ni (disk w') \<and> fault_free w'"
proof -
  obtain m where "disk w (bk @ [REKEY_MARKER]) = Some m" using assms(1) by (auto simp: committed_def settled_def)
  with assms show ?thesis
    by (simp add: recover_def rekey_stages fs_exists_def bindE_def fs_ok fs_ok_present sync_dir_def volume_files)
qed

lemma read_header_half_swapped:
  "half_swapped bk nh ni d (disk w) \<Longrightarrow> read_header C bk w = (Inl IncompleteRekey, w)"
  by (simp add: read_header_def bindE_def recover_half_swapped)

end
