(* ===== verification/Cli.thy ===== *)
theory Cli
  imports Volume
begin

text \<open>
  The arguments of the command line and the credentials among them (\<open>src/cli.rs\<close>).  Parsing the
  command line is the work of the \<open>clap\<close> crate and is not modelled: the records below are what it
  delivers.  The lines typed at the password prompt are \<open>typed\<close> of the world.
\<close>

record credential_args =
  ca_password :: "bytes option"
  ca_identity :: "path option"

record passwd_args =
  pa_backend :: path
  pa_credential :: credential_args

record keygen_args =
  ka_out :: path

record volume_args =
  va_backend :: path

record share_args =
  sa_backend :: path
  sa_to :: path
  sa_label :: "bytes option"
  sa_credential :: credential_args

record revoke_args =
  ra_backend :: path
  ra_slot :: nat
  ra_credential :: credential_args

record mount_args =
  ma_backend :: path
  ma_mountpoint :: path
  ma_credential :: credential_args
  ma_init :: bool
  ma_options :: "string list"

datatype command =
    Mount mount_args
  | Keygen keygen_args
  | Slots volume_args
  | Share share_args
  | Revoke revoke_args
  | Passwd passwd_args
  | Rekey passwd_args

definition prompt_password :: "string \<Rightarrow> bytes io" where
  "prompt_password prompt w =
     (if \<not> terminal w then throw PasswordRequired w
      else case typed w of
        [] \<Rightarrow> throw IoError w
      | line # rest \<Rightarrow> (Inr line, w\<lparr>typed := rest\<rparr>))"

definition require_password :: "credential_args \<Rightarrow> bytes result" where
  "require_password c =
     (case ca_password c of
        Some password \<Rightarrow> if password \<noteq> [] then Inr password else Inl PasswordRequired
      | None \<Rightarrow> Inl PasswordRequired)"

definition resolve :: "credential_args \<Rightarrow> credential_args io" where
  "resolve c =
     (if ca_identity c \<noteq> None \<or> (case ca_password c of None \<Rightarrow> False | Some pw \<Rightarrow> pw \<noteq> []) then ret c
      else bindE (prompt_password ''Volume password: '') (\<lambda>pw. ret (c\<lparr>ca_password := Some pw\<rparr>)))"

definition identity_file :: "credential_args \<Rightarrow> identity option io" where
  "identity_file c =
     (case ca_identity c of
        Some p \<Rightarrow> bindE (identity_load p) (\<lambda>i. ret (Some i))
      | None \<Rightarrow> ret None)"

definition credential_unlock :: "credential_args \<Rightarrow> identity option \<Rightarrow> unlock_credential result" where
  "credential_unlock c i =
     (case i of
        Some i \<Rightarrow> Inr (UnlockIdentity i)
      | None \<Rightarrow> rbind (require_password c) (\<lambda>pw. Inr (UnlockPassword pw)))"

end
