(* ===== verification/Wrapper.thy ===== *)
theory Wrapper
  imports Requests Cli
begin

text \<open>
  The file system as the kernel sees it (\<open>src/fs/wrapper.rs\<close>): the dispatcher that serves one
  request after the other, the queue of jobs, the worker threads that run them, and the lock of each
  inode.  A worker goes through the phases of a job one at a time, and between two phases anything else
  may happen: every interleaving of the dispatcher and the workers is a run of the step relation.
  The metadata lock is held within one phase only, so it is not part of the state.  A phase that does
  file I/O is one step.
\<close>

section \<open>State\<close>

record rwlock =
  readers :: nat
  writer :: bool

definition rwlock_new :: rwlock where
  "rwlock_new = \<lparr>readers = 0, writer = False\<rparr>"

record attr_change =
  ac_mode :: "u32 option"
  ac_uid :: "u32 option"
  ac_gid :: "u32 option"
  ac_atime :: "time_or_now option"
  ac_mtime :: "time_or_now option"

text \<open>The closures handed to the workers, with what they capture.\<close>

datatype job =
    ReadJob entry path i64 u32
  | WriteJob path i64 bytes
  | SetattrJob path attr_change u64

record task =
  t_id :: nat
  t_ino :: u64
  t_job :: job

text \<open>
  Where a worker is: waiting for a job, waiting for the inode's lock, holding it, with the entry it
  read under the lock, and with the result of the file operation still to be recorded.
\<close>

datatype phase =
    Idle
  | Blocked task
  | Locked task
  | Fetched task entry
  | Transferred task "bytes \<times> u64"
  | Exited

record pqfs =
  p_inner :: pqfs_inner
  p_world :: world
  p_queue :: "task list"
  p_open :: bool
  p_locks :: "u64 \<rightharpoonup> rwlock"
  p_workers :: "phase list"
  p_next :: nat
  p_replies :: "(nat \<times> reply) list"

definition pqfs_new :: "nat \<Rightarrow> pqfs_inner \<Rightarrow> world \<Rightarrow> pqfs" where
  "pqfs_new parallelism inner w =
     \<lparr>p_inner = inner, p_world = w, p_queue = [], p_open = True, p_locks = Map.empty,
      p_workers = replicate (max parallelism 2) Idle, p_next = 0, p_replies = []\<rparr>"

section \<open>Locks, jobs and replies\<close>

definition inode_lock :: "u64 \<Rightarrow> pqfs \<Rightarrow> pqfs" where
  "inode_lock ino st =
     (case p_locks st ino of
        None \<Rightarrow> st\<lparr>p_locks := (p_locks st)(ino \<mapsto> rwlock_new)\<rparr>
      | Some _ \<Rightarrow> st)"

definition lock_of :: "pqfs \<Rightarrow> u64 \<Rightarrow> rwlock" where
  "lock_of st ino = (case p_locks st ino of None \<Rightarrow> rwlock_new | Some l \<Rightarrow> l)"

definition wants_write :: "task \<Rightarrow> bool" where
  "wants_write t = (case t_job t of ReadJob _ _ _ _ \<Rightarrow> False | _ \<Rightarrow> True)"

definition can_lock :: "task \<Rightarrow> pqfs \<Rightarrow> bool" where
  "can_lock t st =
     (let l = lock_of st (t_ino t) in
      if wants_write t then readers l = 0 \<and> \<not> writer l else \<not> writer l)"

definition acquire :: "task \<Rightarrow> pqfs \<Rightarrow> pqfs" where
  "acquire t st =
     (let l = lock_of st (t_ino t) in
      st\<lparr>p_locks := (p_locks st)(t_ino t \<mapsto>
        (if wants_write t then l\<lparr>writer := True\<rparr> else l\<lparr>readers := readers l + 1\<rparr>))\<rparr>)"

definition unlock_inode :: "task \<Rightarrow> pqfs \<Rightarrow> pqfs" where
  "unlock_inode t st =
     (let l = lock_of st (t_ino t) in
      st\<lparr>p_locks := (p_locks st)(t_ino t \<mapsto>
        (if wants_write t then l\<lparr>writer := False\<rparr> else l\<lparr>readers := readers l - 1\<rparr>))\<rparr>)"

definition spawn_job :: "task \<Rightarrow> pqfs \<Rightarrow> pqfs" where
  "spawn_job t st = (if p_open st then st\<lparr>p_queue := p_queue st @ [t]\<rparr> else st)"

definition send_reply :: "nat \<Rightarrow> reply \<Rightarrow> pqfs \<Rightarrow> pqfs" where
  "send_reply n rep st = st\<lparr>p_replies := p_replies st @ [(n, rep)]\<rparr>"

section \<open>Requests\<close>

text \<open>Requests that only read the metadata, and those that change it under the write lock.\<close>

definition read_inner :: "(pqfs_inner \<Rightarrow> reply) \<Rightarrow> nat \<Rightarrow> pqfs \<Rightarrow> pqfs" where
  "read_inner f n st = send_reply n (f (p_inner st)) st"

definition write_inner :: "handler \<Rightarrow> nat \<Rightarrow> pqfs \<Rightarrow> pqfs" where
  "write_inner h n st =
     (case h (p_inner st) (p_world st) of (rep, s, w) \<Rightarrow>
        send_reply n rep (st\<lparr>p_inner := s, p_world := w\<rparr>))"

definition pqfs_read :: "u64 \<Rightarrow> i64 \<Rightarrow> u32 \<Rightarrow> nat \<Rightarrow> pqfs \<Rightarrow> pqfs" where
  "pqfs_read ino offset sz n st =
     (let st1 = inode_lock ino st; s = p_inner st1 in
      case bt_get ino (entries s) of
        Some e \<Rightarrow>
          if e_kind e = File
          then spawn_job \<lparr>t_id = n, t_ino = ino, t_job = ReadJob e (data_path s ino) offset sz\<rparr> st1
          else send_reply n (ReplyError EISDIR) st1
      | None \<Rightarrow> send_reply n (ReplyError ENOENT) st1)"

definition pqfs_write :: "u64 \<Rightarrow> i64 \<Rightarrow> bytes \<Rightarrow> nat \<Rightarrow> pqfs \<Rightarrow> pqfs" where
  "pqfs_write ino offset data n st =
     (let st1 = inode_lock ino st; s = p_inner st1 in
      case map_option e_kind (bt_get ino (entries s)) of
        Some File \<Rightarrow> spawn_job \<lparr>t_id = n, t_ino = ino, t_job = WriteJob (data_path s ino) offset data\<rparr> st1
      | Some Dir \<Rightarrow> send_reply n (ReplyError EISDIR) st1
      | Some Symlink \<Rightarrow> send_reply n (ReplyError EINVAL) st1
      | None \<Rightarrow> send_reply n (ReplyError ENOENT) st1)"

definition change_attr :: "prims \<Rightarrow> entry_map codec \<Rightarrow> crypto \<Rightarrow> u64 \<Rightarrow> attr_change \<Rightarrow> (bytes \<times> u64) option \<Rightarrow> handler" where
  "change_attr P C cr ino ch truncated =
     apply_setattr P C cr ino (ac_mode ch) (ac_uid ch) (ac_gid ch) (ac_atime ch) (ac_mtime ch) truncated"

definition pqfs_setattr :: "prims \<Rightarrow> entry_map codec \<Rightarrow> crypto \<Rightarrow> u64 \<Rightarrow> attr_change \<Rightarrow> u64 option \<Rightarrow> nat \<Rightarrow> pqfs \<Rightarrow> pqfs" where
  "pqfs_setattr P C cr ino ch sz n st =
     (let st1 = inode_lock ino st; s = p_inner st1 in
      case bt_get ino (entries s) of
        None \<Rightarrow> send_reply n (ReplyError ENOENT) st1
      | Some e \<Rightarrow>
          (case sz of
             None \<Rightarrow> write_inner (change_attr P C cr ino ch None) n st1
           | Some m \<Rightarrow>
               if e_kind e \<noteq> File then send_reply n (ReplyError EISDIR) st1
               else spawn_job \<lparr>t_id = n, t_ino = ino, t_job = SetattrJob (data_path s ino) ch m\<rparr> st1))"

definition flush_reply :: "prims \<Rightarrow> entry_map codec \<Rightarrow> crypto \<Rightarrow> handler" where
  "flush_reply P C cr s w =
     (case flush_index P C cr s w of
        (Inl _, w') \<Rightarrow> (ReplyError EIO, s, w')
      | (Inr s', w') \<Rightarrow> (ReplyOk, s', w'))"

definition sync_and_flush :: "prims \<Rightarrow> entry_map codec \<Rightarrow> crypto \<Rightarrow> u64 \<Rightarrow> handler" where
  "sync_and_flush P C cr ino s w =
     (case sync (data_path s ino) w of
        (Inl _, w1) \<Rightarrow> (ReplyError EIO, s, w1)
      | (Inr _, w1) \<Rightarrow> flush_reply P C cr s w1)"

definition pqfs_fsync :: "prims \<Rightarrow> entry_map codec \<Rightarrow> crypto \<Rightarrow> u64 \<Rightarrow> nat \<Rightarrow> pqfs \<Rightarrow> pqfs" where
  "pqfs_fsync P C cr ino n st = write_inner (sync_and_flush P C cr ino) n (inode_lock ino st)"

definition pqfs_fsyncdir :: "prims \<Rightarrow> entry_map codec \<Rightarrow> crypto \<Rightarrow> nat \<Rightarrow> pqfs \<Rightarrow> pqfs" where
  "pqfs_fsyncdir P C cr n st = write_inner (flush_reply P C cr) n st"

definition pqfs_flush :: "prims \<Rightarrow> entry_map codec \<Rightarrow> crypto \<Rightarrow> u64 \<Rightarrow> nat \<Rightarrow> pqfs \<Rightarrow> pqfs" where
  "pqfs_flush P C cr ino n st = write_inner (sync_and_flush P C cr ino) n (inode_lock ino st)"

record backing_store_stats =
  bs_blocks :: u64
  bs_blocks_free :: u64
  bs_blocks_available :: u64
  bs_files_free :: u64
  bs_block_size :: u32
  bs_fragment_size :: u32

text \<open>\<open>statvfs\<close> is the call of the C library: blocks, free, available, free inodes, block and fragment size.\<close>

type_synonym statvfs = "path \<Rightarrow> (u64 \<times> u64 \<times> u64 \<times> u64 \<times> u64 \<times> u64) option"

definition stats_of_backend :: "statvfs \<Rightarrow> path \<Rightarrow> backing_store_stats option" where
  "stats_of_backend statvfs p =
     (if CHR 0x00 \<in> set (concat p) then None
      else map_option (\<lambda>(f_blocks, f_bfree, f_bavail, f_ffree, f_bsize, f_frsize).
        \<lparr>bs_blocks = f_blocks, bs_blocks_free = f_bfree, bs_blocks_available = f_bavail, bs_files_free = f_ffree,
         bs_block_size = ucast f_bsize, bs_fragment_size = ucast f_frsize\<rparr>) (statvfs p))"

definition MAX_NAME_LEN :: u16 where "MAX_NAME_LEN = 255"

definition pqfs_statfs :: "statvfs \<Rightarrow> pqfs_inner \<Rightarrow> reply" where
  "pqfs_statfs statvfs s =
     (case stats_of_backend statvfs (backend s) of
        None \<Rightarrow> ReplyError EIO
      | Some b \<Rightarrow> ReplyStatfs (bs_blocks b) (bs_blocks_free b) (bs_blocks_available b)
          (of_nat (length (entries s)) + bs_files_free b) (bs_files_free b) (bs_block_size b)
          (ucast MAX_NAME_LEN) (bs_fragment_size b))"

section \<open>The dispatcher\<close>

datatype fuse_request =
    MetaRequest request
  | LookupRequest u64 bytes
  | GetattrRequest u64
  | ReaddirRequest u64 i64
  | OpenRequest u64
  | ReadlinkRequest u64
  | StatfsRequest
  | ReleaseRequest
  | ReadRequest u64 i64 u32
  | WriteRequest u64 i64 bytes
  | SetattrRequest u64 attr_change "u64 option"
  | FsyncRequest u64
  | FlushRequest u64
  | FsyncdirRequest

text \<open>The surroundings of a mounted volume: primitives, codec, keys, room in a directory reply, \<open>statvfs\<close>.\<close>

record mount_env =
  m_prims :: prims
  m_codec :: "entry_map codec"
  m_crypto :: crypto
  m_full :: "dirent list \<Rightarrow> dirent \<Rightarrow> bool"
  m_statvfs :: statvfs

fun dispatch :: "mount_env \<Rightarrow> fuse_request \<Rightarrow> nat \<Rightarrow> pqfs \<Rightarrow> pqfs" where
  "dispatch M (MetaRequest r) = write_inner (serve (m_prims M) (m_codec M) (m_crypto M) r)"
| "dispatch M (LookupRequest par name) = read_inner (\<lambda>s. lookup (m_prims M) (m_crypto M) s par name)"
| "dispatch M (GetattrRequest ino) = read_inner (\<lambda>s. getattr s ino)"
| "dispatch M (ReaddirRequest ino offset) = read_inner (\<lambda>s. readdir (m_prims M) (m_crypto M) (m_full M) s ino offset)"
| "dispatch M (OpenRequest ino) = read_inner (\<lambda>s. open_file s ino)"
| "dispatch M (ReadlinkRequest ino) = read_inner (\<lambda>s. readlink (m_prims M) (m_crypto M) s ino)"
| "dispatch M StatfsRequest = read_inner (pqfs_statfs (m_statvfs M))"
| "dispatch M ReleaseRequest = read_inner (\<lambda>_. release)"
| "dispatch M (ReadRequest ino offset sz) = pqfs_read ino offset sz"
| "dispatch M (WriteRequest ino offset data) = pqfs_write ino offset data"
| "dispatch M (SetattrRequest ino ch sz) = pqfs_setattr (m_prims M) (m_codec M) (m_crypto M) ino ch sz"
| "dispatch M (FsyncRequest ino) = pqfs_fsync (m_prims M) (m_codec M) (m_crypto M) ino"
| "dispatch M (FlushRequest ino) = pqfs_flush (m_prims M) (m_codec M) (m_crypto M) ino"
| "dispatch M FsyncdirRequest = pqfs_fsyncdir (m_prims M) (m_codec M) (m_crypto M)"

text \<open>\<open>fsync\<close> and \<open>flush\<close> wait for the inode's lock; nothing else blocks the dispatcher.\<close>

fun may_dispatch :: "fuse_request \<Rightarrow> pqfs \<Rightarrow> bool" where
  "may_dispatch (FsyncRequest ino) st = (\<not> writer (lock_of st ino))"
| "may_dispatch (FlushRequest ino) st = (\<not> writer (lock_of st ino))"
| "may_dispatch _ st = True"

section \<open>The workers\<close>

text \<open>A step that changes the contents of a file is labelled with the request, the inode and the operation.\<close>

datatype event = Internal | Changed nat u64 file_op

definition set_worker :: "nat \<Rightarrow> phase \<Rightarrow> pqfs \<Rightarrow> pqfs" where
  "set_worker i ph st = st\<lparr>p_workers := (p_workers st)[i := ph]\<rparr>"

text \<open>The end of a job: the reply is sent and the guard of the inode's lock is dropped.\<close>

definition finish :: "nat \<Rightarrow> task \<Rightarrow> reply \<Rightarrow> pqfs \<Rightarrow> pqfs" where
  "finish i t rep st = set_worker i Idle (unlock_inode t (send_reply (t_id t) rep st))"

definition fetch :: "mount_env \<Rightarrow> nat \<Rightarrow> task \<Rightarrow> pqfs \<Rightarrow> pqfs" where
  "fetch M i t st =
     (case t_job t of
        ReadJob e file offset sz \<Rightarrow>
          (case do_read (m_prims M) (m_crypto M) e file offset sz (p_world st) of
             (rep, w) \<Rightarrow> finish i t rep (st\<lparr>p_world := w\<rparr>))
      | _ \<Rightarrow>
          (case bt_get (t_ino t) (entries (p_inner st)) of
             None \<Rightarrow> finish i t (ReplyError ENOENT) st
           | Some e \<Rightarrow> set_worker i (Fetched t e) st))"

text \<open>The file operation a job asks for, as an operation on contents.\<close>

definition job_op :: "task \<Rightarrow> file_op" where
  "job_op t = (case t_job t of
      WriteJob _ offset data \<Rightarrow> WriteAt (offset_or_zero offset) data
    | SetattrJob _ _ m \<Rightarrow> TruncateTo m
    | ReadJob _ _ _ _ \<Rightarrow> WriteAt 0 [])"

definition job_io :: "mount_env \<Rightarrow> task \<Rightarrow> entry \<Rightarrow> world \<Rightarrow> (errno + bytes \<times> u64) \<times> world" where
  "job_io M t e w =
     (case t_job t of
        WriteJob file offset data \<Rightarrow> do_write_data (m_prims M) (m_crypto M) e file offset data w
      | SetattrJob file _ m \<Rightarrow> do_truncate (m_prims M) (m_crypto M) e file m w
      | ReadJob _ _ _ _ \<Rightarrow> (Inl EINVAL, w))"

definition transfer :: "mount_env \<Rightarrow> nat \<Rightarrow> task \<Rightarrow> entry \<Rightarrow> pqfs \<Rightarrow> event \<times> pqfs" where
  "transfer M i t e st =
     (case job_io M t e (p_world st) of
        (Inl code, w) \<Rightarrow> (Internal, finish i t (ReplyError code) (st\<lparr>p_world := w\<rparr>))
      | (Inr r, w) \<Rightarrow> (Changed (t_id t) (t_ino t) (job_op t), set_worker i (Transferred t r) (st\<lparr>p_world := w\<rparr>)))"

definition record_result :: "mount_env \<Rightarrow> task \<Rightarrow> bytes \<times> u64 \<Rightarrow> handler" where
  "record_result M t r =
     (case t_job t of
        SetattrJob _ ch _ \<Rightarrow> change_attr (m_prims M) (m_codec M) (m_crypto M) (t_ino t) ch (Some r)
      | WriteJob _ _ data \<Rightarrow> commit_write (t_ino t) (fst r) (snd r) (of_nat (length data))
      | ReadJob _ _ _ _ \<Rightarrow> (\<lambda>s w. (ReplyError EINVAL, s, w)))"

definition commit :: "mount_env \<Rightarrow> nat \<Rightarrow> task \<Rightarrow> bytes \<times> u64 \<Rightarrow> pqfs \<Rightarrow> pqfs" where
  "commit M i t r st =
     (case record_result M t r (p_inner st) (p_world st) of (rep, s, w) \<Rightarrow>
        finish i t rep (st\<lparr>p_inner := s, p_world := w\<rparr>))"

definition advance :: "mount_env \<Rightarrow> nat \<Rightarrow> pqfs \<Rightarrow> (event \<times> pqfs) option" where
  "advance M i st =
     (if i < length (p_workers st) then
        (case p_workers st ! i of
           Idle \<Rightarrow>
             (case p_queue st of
                t # q \<Rightarrow> Some (Internal, set_worker i (Blocked t) (st\<lparr>p_queue := q\<rparr>))
              | [] \<Rightarrow> if p_open st then None else Some (Internal, set_worker i Exited st))
         | Blocked t \<Rightarrow> if can_lock t st then Some (Internal, set_worker i (Locked t) (acquire t st)) else None
         | Locked t \<Rightarrow> Some (Internal, fetch M i t st)
         | Fetched t e \<Rightarrow> Some (transfer M i t e st)
         | Transferred t r \<Rightarrow> Some (Internal, commit M i t r st)
         | Exited \<Rightarrow> None)
      else None)"

section \<open>Runs\<close>

inductive step :: "mount_env \<Rightarrow> pqfs \<Rightarrow> event \<Rightarrow> pqfs \<Rightarrow> bool" for M where
  dispatcher: "p_open st \<Longrightarrow> may_dispatch req st \<Longrightarrow>
    step M st Internal (dispatch M req (p_next st) (st\<lparr>p_next := p_next st + 1\<rparr>))"
| worker: "advance M i st = Some (ev, st') \<Longrightarrow> step M st ev st'"

section \<open>Mounting and unmounting\<close>

datatype mount_option = FSName string | Subtype string | NoAtime | RO | RW | CUSTOM string

definition mount_options :: "string list \<Rightarrow> mount_option list" where
  "mount_options opts =
     [FSName ''pqfs'', Subtype ''pqfs'', NoAtime] @
     (if list_ex (\<lambda>o'. o' = ''ro'') opts then [RO] else [RW]) @
     map CUSTOM (filter (\<lambda>o'. \<not> (o' = ''ro'' \<or> o' = ''rw'')) opts)"

text \<open>Up to the call of \<open>fuser::mount2\<close>, which is given the file system and the options.\<close>

definition mount :: "prims \<Rightarrow> volume_header codec \<Rightarrow> entry_map codec \<Rightarrow> nat \<Rightarrow> mount_args \<Rightarrow> (crypto \<times> pqfs \<times> mount_option list) io" where
  "mount P C CI parallelism args w =
     (let header_exists = fs_exists (ma_backend args @ [''pqfs.header'']) w in
      bindE (identity_file (ma_credential args)) (\<lambda>i.
      bindE (if header_exists then
               bindE (lift (credential_unlock (ma_credential args) i)) (unlock P C (ma_backend args))
             else if ma_init args then
               bindE (lift (require_password (ma_credential args))) (\<lambda>pw. init P C pw (ma_backend args))
             else throw NoVolume) (\<lambda>cr.
      bindE (load P CI (ma_backend args) cr) (\<lambda>inner w'.
      (Inr (cr, pqfs_new parallelism inner w', mount_options (ma_options args)), w')))) w)"

text \<open>Dropping the file system: the index is flushed, then the queue is closed and the workers drain it.\<close>

definition drop_pqfs :: "mount_env \<Rightarrow> pqfs \<Rightarrow> pqfs" where
  "drop_pqfs M st =
     (case flush_index (m_prims M) (m_codec M) (m_crypto M) (p_inner st) (p_world st) of
        (Inl _, w) \<Rightarrow> st\<lparr>p_world := w, p_open := False\<rparr>
      | (Inr s, w) \<Rightarrow> st\<lparr>p_inner := s, p_world := w, p_open := False\<rparr>)"

end
