(* ===== verification/Volume_Safety.thy ===== *)
theory Volume_Safety
  imports Volume
begin

text \<open>
  What the volume operations guarantee: the header and the index are each replaced whole (locale
  \<open>atomic_file\<close>), a new volume opens with its password, a header with a wrong tag is refused, and what a
  rekey that is cut off leaves behind.
\<close>

section \<open>A file that is replaced whole\<close>

fun run_puts :: "('a \<Rightarrow> 'b io) \<Rightarrow> 'a list \<Rightarrow> world \<Rightarrow> bool list \<times> world" where
  "run_puts put [] w = ([], w)"
| "run_puts put (x # xs) w =
     (case put x w of (r, w1) \<Rightarrow> case run_puts put xs w1 of (acks, w2) \<Rightarrow> ((case r of Inl _ \<Rightarrow> False | Inr _ \<Rightarrow> True) # acks, w2))"

locale atomic_file =
  fixes put :: "'a \<Rightarrow> 'b io" and target :: path and new :: "'a \<Rightarrow> bytes \<Rightarrow> bool" and ok :: "'a \<Rightarrow> bool"
  assumes outcome: "ok x \<Longrightarrow> put x w = (r, w') \<Longrightarrow>
      disk w' target = disk w target \<or> (\<exists>b. new x b \<and> disk w' target = Some b)"
    and ack: "ok x \<Longrightarrow> put x w = (Inr y, w') \<Longrightarrow> \<exists>b. new x b \<and> disk w' target = Some b"
begin

lemma old_or_put:
  "list_all ok xs \<Longrightarrow> run_puts put xs w = (acks, w') \<Longrightarrow>
   disk w' target = disk w target \<or> (\<exists>x \<in> set xs. \<exists>b. new x b \<and> disk w' target = Some b)"
proof (induction xs arbitrary: w acks)
  case (Cons x xs)
  obtain r w1 where 1: "put x w = (r, w1)" by fastforce
  obtain as w2 where 2: "run_puts put xs w1 = (as, w2)" by fastforce
  then have "w2 = w'" using Cons.prems 1 by simp
  with Cons.IH [of w1 as] Cons.prems 2 outcome [OF _ 1] show ?case by fastforce
qed simp

lemma acked_or_later:
  assumes "list_all ok xs" and "run_puts put xs w = (acks, w')" and "i < length xs" and "acks ! i"
  shows "\<exists>j. i \<le> j \<and> j < length xs \<and> (\<exists>b. new (xs ! j) b \<and> disk w' target = Some b)"
  using assms
proof (induction xs arbitrary: w acks i)
  case (Cons x xs)
  obtain r w1 where 1: "put x w = (r, w1)" by fastforce
  obtain as w2 where 2: "run_puts put xs w1 = (as, w2)" by fastforce
  then have w2: "w2 = w'" and acks: "acks = (case r of Inl _ \<Rightarrow> False | Inr _ \<Rightarrow> True) # as" using Cons.prems 1 by simp_all
  show ?case
  proof (cases i)
    case 0
    then obtain y where r: "r = Inr y" using Cons.prems(4) acks by (cases r) simp_all
    obtain b where b: "new x b" "disk w1 target = Some b" using ack [of x w y w1] 1 r Cons.prems(1) by auto
    from old_or_put [of xs w1 as w'] 2 w2 Cons.prems(1)
    consider "disk w' target = disk w1 target" | y b' where "y \<in> set xs" "new y b'" "disk w' target = Some b'" by auto
    then show ?thesis
    proof cases
      case 1
      with b 0 show ?thesis by (intro exI [of _ 0]) simp
    next
      case 2
      then obtain j where "j < length xs" "xs ! j = y" by (auto simp: in_set_conv_nth)
      with 2 0 show ?thesis by (intro exI [of _ "Suc j"]) auto
    qed
  next
    case (Suc k)
    then have "\<exists>j. k \<le> j \<and> j < length xs \<and> (\<exists>b. new (xs ! j) b \<and> disk w' target = Some b)"
      using Cons.IH [of w1 as k] Cons.prems 2 w2 acks by simp
    then obtain j where "k \<le> j" "j < length xs" "\<exists>b. new (xs ! j) b \<and> disk w' target = Some b" by blast
    with Suc show ?thesis by (intro exI [of _ "Suc j"]) simp
  qed
qed simp

end

definition sealed_bytes :: "prims \<Rightarrow> volume_header codec \<Rightarrow> volume_header \<times> bytes \<Rightarrow> bytes \<Rightarrow> bool" where
  "sealed_bytes P C hm b \<longleftrightarrow> (\<exists>h'. seal_header P C (fst hm) (snd hm) = Inr h' \<and> ser C h' = Some b)"

interpretation header_file: atomic_file "\<lambda>(h, mk). write_header P C bk h mk" "bk @ [HEADER_FILE]" "sealed_bytes P C" "\<lambda>_. True"
  for P C bk
proof
  fix x :: "volume_header \<times> bytes" and w w' :: world and r y
  obtain h mk where x: "x = (h, mk)" by fastforce
  let ?f = "bk @ [HEADER_FILE]"
  have "dwp (write_header P C bk h mk) (\<lambda>_ d'. \<exists>b. sealed_bytes P C x b \<and> d' ?f = Some b)
     (\<lambda>d'. d' ?f = disk w ?f \<or> (\<exists>b. sealed_bytes P C x b \<and> d' ?f = Some b)) (disk w)"
    by (rule dwp_write_header) (auto simp: x sealed_bytes_def HEADER_FILE_def)
  note d = dwpD [OF this]
  show "(case x of (h, mk) \<Rightarrow> write_header P C bk h mk) w = (r, w') \<Longrightarrow>
      disk w' ?f = disk w ?f \<or> (\<exists>b. sealed_bytes P C x b \<and> disk w' ?f = Some b)"
    using d [of r w'] by (cases r) (auto simp: x)
  show "(case x of (h, mk) \<Rightarrow> write_header P C bk h mk) w = (Inr y, w') \<Longrightarrow>
      \<exists>b. sealed_bytes P C x b \<and> disk w' ?f = Some b"
    using d [of "Inr y" w'] by (auto simp: x)
qed

interpretation index_file: atomic_file "save_index P C cr" "bk @ [INDEX_FILE]" "\<lambda>s b. stored P C cr b (entries s)"
  "\<lambda>s. backend s = bk \<and> entries_wf (entries s) \<and> aead_laws P \<and> codec_laws entries_wf C" for P C cr bk
proof
  fix s :: pqfs_inner and w r w' s'
  assume s: "backend s = bk \<and> entries_wf (entries s) \<and> aead_laws P \<and> codec_laws entries_wf C"
  show "save_index P C cr s w = (r, w') \<Longrightarrow> disk w' (bk @ [INDEX_FILE]) = disk w (bk @ [INDEX_FILE]) \<or>
      (\<exists>b. stored P C cr b (entries s) \<and> disk w' (bk @ [INDEX_FILE]) = Some b)"
    using save_index_outcome(1) [of P C s cr w r w'] s by (auto simp: saved_def)
  show "save_index P C cr s w = (Inr s', w') \<Longrightarrow>
      \<exists>b. stored P C cr b (entries s) \<and> disk w' (bk @ [INDEX_FILE]) = Some b"
    using save_index_outcome(1) [of P C s cr w "Inr s'" w'] s by (auto simp: saved_def)
qed

section \<open>Creating and opening\<close>

lemma header_on_disk_serialised:
  assumes "codec_laws header_wf C" and "header_sized C" and "header_wf h" and "version h = HEADER_VERSION"
    and "header_size h \<le> MAX_HEADER_BYTES" and "ser C h = Some b" and "d (bk @ [HEADER_FILE]) = Some b"
  shows "header_on_disk C bk d h"
proof -
  have "de C b = Some h" using codec_lawsE [OF assms(1,3)] assms(6) by fastforce
  with assms show ?thesis by (simp add: header_on_disk_def header_sized_def)
qed

text \<open>A fault-free replacement of the header succeeds and the new one is read back.\<close>

lemma write_header_run:
  assumes "kdf_laws P" and "mac_laws P" and "codec_laws header_wf C" and "header_wf h" and "fault_free w" and "settled bk (disk w)"
  obtains h' b w' where "write_header P C bk h mk w = (Inr h', w')" and "seal_header P C h mk = Inr h'" and "header_wf h'"
    and "ser C h' = Some b" and "disk w' = ((disk w)(bk @ [''pqfs.tmp''] := None))(bk @ [HEADER_FILE] \<mapsto> b)"
    and "settled bk (disk w')" and "fault_free w'"
proof -
  obtain h' where h': "seal_header P C h mk = Inr h'" using seal_header_total [OF assms(1,3,4)] by blast
  have wf: "header_wf h'" by (rule seal_header_wf [OF assms(2,4) h'])
  obtain b where b: "ser C h' = Some b" using codec_lawsE [OF assms(3) wf] by blast
  let ?d = "((disk w)(bk @ [''pqfs.tmp''] := None))(bk @ [HEADER_FILE] \<mapsto> b)"
  obtain w' where w': "write_header P C bk h mk w = (Inr h', w')" "disk w' = ?d" "fault_free w'"
    using h' b assms(5)
    by (simp add: write_header_def with_extension_header Let_def bincode_serialize_def bindE_def fs_ok fs_ok_present ret_def)
  have "settled bk ?d" using assms(6) by (simp add: settled_def volume_files)
  with that w' h' wf b show thesis by metis
qed

lemma init_with_params_ok:
  assumes P: "aead_laws P" "kdf_laws P" "mac_laws P" and C: "codec_laws header_wf C" "header_sized C"
    and w: "fault_free w" "disk w (bk @ [HEADER_FILE]) = None"
    and pw: "length pw < 2 ^ 32" "argon2_params_ok P (m_cost kdf) (t_cost kdf) (p_cost kdf) KEY_LEN"
  obtains cr w' where "init_with_params P C pw bk kdf w = (Inr cr, w')" and "header_on_disk C bk (disk w') (header cr)"
    and "open_header P C (header cr) (UnlockPassword pw) = Inr cr" and "fault_free w'"
    and "\<exists>salt wrapped. slots (header cr) = [PasswordSlot salt kdf wrapped]"
    and "\<forall>q. q \<noteq> bk @ [HEADER_FILE] \<longrightarrow> disk w' q = disk w q"
proof -
  obtain mk w1 where mk: "random_master_key (tick w) = (Inr mk, w1)" "length mk = 32" "disk w1 = disk w" "faults w1 = tl (faults w)"
    by (simp add: random_master_key_def fill_bytes_def)
  obtain vid w2 where vid: "fill_bytes VOLUME_ID_LEN w1 = (Inr vid, w2)" "length vid = 16" "disk w2 = disk w" "faults w2 = tl (faults w)"
    using mk by (simp add: fill_bytes_def)
  obtain slot w3 where slot: "password_slot P pw vid mk kdf w2 = (Inr slot, w3)"
    using password_slot_total [OF P(1,2) mk(2) pw] by blast
  let ?h = "\<lparr>version = HEADER_VERSION, volume_id = vid, slots = [slot], mac = replicate MAC_LEN 0\<rparr>"
  have "volume_id ?h = vid" by simp
  note s = password_slot_opens [OF P(1,2) mk(2) this slot]
  have wf: "header_wf ?h" using s(2) vid(2) by (simp add: header_wf_def vec_ok_def)
  obtain h where h: "seal_header P C ?h mk = Inr h" using seal_header_total [OF P(2) C(1) wf] by blast
  have hf: "version h = HEADER_VERSION" "volume_id h = vid" "slots h = [slot]" using seal_headerE [OF h] by simp_all
  have hwf: "header_wf h" by (rule seal_header_wf [OF P(3) wf h])
  have "open_master_key P h (UnlockPassword pw) = Inr mk"
    using s(1) open_master_key_sealed [OF h] by (simp add: open_master_key_def)
  then obtain cr where cr: "open_header P C h (UnlockPassword pw) = Inr cr" "from_master_key P mk h = Inr cr"
    using open_sealed [OF P(2) h] by blast
  have hcr: "header cr = h" using from_master_keyE [OF P(2) mk(2), of h] cr(2) by auto
  obtain b where b: "ser C h = Some b" using codec_lawsE [OF C(1) hwf] by blast
  have "header_size h \<le> MAX_HEADER_BYTES"
    using s(3) hf by (auto simp: header_size_def slot_size_def MAX_HEADER_BYTES_def)
  note od = header_on_disk_serialised [OF C hwf hf(1) this b]
  have ff: "fault_free w3" "disk w3 = disk w"
    using w(1) s(4,5) vid(3,4) fault_free_tick [OF w(1)] by (simp_all add: fault_free_def)
  let ?w = "(tick (tick w3))\<lparr>disk := (disk w)(bk @ [HEADER_FILE] \<mapsto> b)\<rparr>"
  have "init_with_params P C pw bk kdf w = (Inr cr, ?w)"
    using w mk(1) vid(1) slot h cr(2) hcr b ff
    by (simp add: init_with_params_def bindE_def fs_ok fs_exists_def lift_def save_def bincode_serialize_def ret_def)
  moreover have "header_on_disk C bk (disk ?w) (header cr)" using od [of "disk ?w" bk] hcr by simp
  ultimately show thesis using that cr(1) hcr hf(3) s(3) ff by auto
qed

lemma commit_rekey_ok:
  assumes "fault_free w" and "settled bk (disk w)" and "seal_header P C h mk = Inr h'" and "ser C h' = Some nh"
  obtains w' where "commit_rekey P C bk h mk ni w = (Inr h', w')" and "swapped bk nh ni (disk w')" and "fault_free w'"
    and "stdout w' = stdout w"
    and "\<forall>q. q \<notin> {bk @ [HEADER_FILE], bk @ [INDEX_FILE], bk @ [HEADER_STAGING], bk @ [INDEX_STAGING], bk @ [REKEY_MARKER]} \<longrightarrow>
      disk w' q = disk w q"
  using that assms
  by (simp add: commit_rekey_def write_synced_def sync_dir_def recover_def bindE_def fs_ok fs_ok_present
      bincode_serialize_def ret_def fs_exists_def rekey_stages volume_files)

section \<open>A sample volume\<close>

definition sample_password :: bytes where "sample_password = [112, 119]"

definition sample_master_key :: bytes where "sample_master_key = replicate 32 7"

definition sample_slot :: key_slot where
  "sample_slot = PasswordSlot (replicate 16 0) kdf_default
     (replicate 24 0 @ sample_master_key @ sample_tag (sample_password @ replicate 30 0) (replicate 16 1))"

definition sample_unsealed :: volume_header where
  "sample_unsealed = \<lparr>version = HEADER_VERSION, volume_id = replicate 16 1, slots = [sample_slot], mac = replicate 32 0\<rparr>"

definition sample_mac_key :: bytes where
  "sample_mac_key = map (\<lambda>b. b + 19) sample_master_key"

definition sample_sealed :: volume_header where
  "sample_sealed = sample_unsealed\<lparr>mac := sample_hmac sample_mac_key (put_header sample_unsealed)\<rparr>"

definition sample_volume :: world where
  "sample_volume = sample_world [[HEADER_FILE] \<mapsto> put_header sample_sealed]"

lemma sample_slot_made:
  "password_slot sample_prims sample_password (replicate 16 1) sample_master_key kdf_default (sample_world d) =
     (Inr sample_slot, sample_world d)"
  by (simp add: password_slot_def bindE_def fill_bytes_def lift_def ret_def derive_password_key_def sample_argon2id_def
      kdf_default_def sample_password_def wrap_master_key_def build_cipher_def random_nonce_def sample_seal_def aead_max_def
      sample_master_key_def sample_slot_def sample_world_def flip: replicate_add)

lemma sample_mac_key_derived: "derive_header_mac_key sample_prims sample_master_key = Inr sample_mac_key"
  by (simp add: derive_header_mac_key_def sample_hkdf_def sample_mac_key_def sample_master_key_def ascii_def)

lemma sample_sealed_made: "seal_header sample_prims bincode_header sample_unsealed sample_master_key = Inr sample_sealed"
  by (simp add: seal_header_def Let_def sample_mac_key_derived header_mac_def authenticated_bytes_def bincode_serialize_def
      bincode_header_def codec_of_def sample_sealed_def sample_unsealed_def)

lemma sample_slot_opens:
  "try_slot sample_prims sample_sealed sample_slot (UnlockPassword sample_password) = Inr (Some sample_master_key)"
  "slot_wf sample_slot" "slot_size sample_slot = 112"
proof -
  have v: "volume_id sample_sealed = replicate 16 1" and l: "length sample_master_key = 32"
    by (simp_all add: sample_sealed_def sample_unsealed_def sample_master_key_def)
  note s = password_slot_opens [OF _ _ l v sample_slot_made]
  show "try_slot sample_prims sample_sealed sample_slot (UnlockPassword sample_password) = Inr (Some sample_master_key)"
    "slot_wf sample_slot" using s by simp_all
  show "slot_size sample_slot = 112" by (simp add: sample_slot_def slot_size_def sample_master_key_def)
qed

lemma sample_header_wf: "header_wf sample_unsealed" "header_wf sample_sealed"
  using sample_slot_opens(2) by (simp_all add: header_wf_def sample_unsealed_def sample_sealed_def vec_ok_def)

lemma sample_header_sizes:
  "header_size sample_sealed = 172" "version sample_sealed = HEADER_VERSION" "slots sample_sealed = [sample_slot]"
  "ser bincode_header sample_sealed = Some (put_header sample_sealed)"
  by (simp_all add: header_size_def sample_sealed_def sample_unsealed_def sample_slot_opens(3) bincode_header_def codec_of_def)

lemma sample_volume_facts [simp]:
  "fault_free sample_volume" "settled [] (disk sample_volume)"
  "header_on_disk bincode_header [] (disk sample_volume) sample_sealed"
  "open_master_key sample_prims sample_sealed (UnlockPassword sample_password) = Inr sample_master_key"
proof -
  show "fault_free sample_volume" "settled [] (disk sample_volume)"
    by (simp_all add: sample_volume_def settled_def volume_files)
  show "header_on_disk bincode_header [] (disk sample_volume) sample_sealed"
    by (rule header_on_disk_serialised [where b = "put_header sample_sealed"])
      (simp_all add: sample_header_wf sample_header_sizes MAX_HEADER_BYTES_def sample_volume_def)
  show "open_master_key sample_prims sample_sealed (UnlockPassword sample_password) = Inr sample_master_key"
    by (simp add: open_master_key_def sample_header_sizes sample_slot_opens)
qed

section \<open>Properties\<close>

text \<open>C25: A volume that was just created opens with the password it was created with, and the opened volume has
  the very keys and header that creation returned; nothing but the header file was written.\<close>

theorem init_then_unlock:
  assumes "aead_laws P" and "kdf_laws P" and "mac_laws P" and "codec_laws header_wf C" and "header_sized C"
    and "fault_free w" and "settled bk (disk w)" and "disk w (bk @ [HEADER_FILE]) = None"
    and "length pw < 2 ^ 32" and "argon2_params_ok P 131072 3 1 32"
  shows "\<exists>cr w'. init P C pw bk w = (Inr cr, w') \<and>
    unlock P C bk (UnlockPassword pw) w' = (Inr cr, tick w') \<and>
    (\<forall>q. q \<noteq> bk @ [HEADER_FILE] \<longrightarrow> disk w' q = disk w q)"
proof -
  have a: "argon2_params_ok P (m_cost kdf_default) (t_cost kdf_default) (p_cost kdf_default) KEY_LEN"
    using assms(10) by (simp add: kdf_default_def)
  obtain cr w' where 1: "init_with_params P C pw bk kdf_default w = (Inr cr, w')" "header_on_disk C bk (disk w') (header cr)"
    "open_header P C (header cr) (UnlockPassword pw) = Inr cr" "fault_free w'" "\<forall>q. q \<noteq> bk @ [HEADER_FILE] \<longrightarrow> disk w' q = disk w q"
    using init_with_params_ok [OF assms(1-6,8,9) a] by metis
  have "settled bk (disk w')" using assms(7) 1(5) by (simp add: settled_def volume_files)
  with 1 unlock_ok [of w' bk C "header cr" P] show ?thesis by (auto simp: init_def)
qed

theorem init_then_unlock_witness:
  "\<exists>cr w'. init sample_prims bincode_header sample_password [''vol''] (sample_world Map.empty) = (Inr cr, w') \<and>
    unlock sample_prims bincode_header [''vol''] (UnlockPassword sample_password) w' = (Inr cr, tick w') \<and>
    (\<forall>q. q \<noteq> [''vol''] @ [HEADER_FILE] \<longrightarrow> disk w' q = None)"
  using init_then_unlock [of sample_prims bincode_header "sample_world Map.empty" "[''vol'']" sample_password]
  by (simp add: settled_def sample_password_def)

text \<open>C27: Unlocking accepts a header exactly when its tag is the HMAC of its other fields under the key derived from the
  master key; otherwise it reports the bad tag, and it never changes a file.\<close>

theorem unlock_checks_the_header_tag:
  assumes "kdf_laws P" and "fault_free w" and "settled bk (disk w)" and "header_on_disk C bk (disk w) h"
    and "open_master_key P h c = Inr mk" and "derive_header_mac_key P mk = Inr k" and "authenticated_bytes C h = Inr b"
  shows "\<exists>cr. from_master_key P mk h = Inr cr \<and> cipher cr = mk \<and> header cr = h \<and>
    unlock P C bk c w = (if mac h = hmac_sha256 P k b then Inr cr else Inl BadHeaderMac, tick w)"
proof -
  have "length mk = 32" using try_slots_length assms(5) unfolding open_master_key_def by blast
  then obtain cr where "from_master_key P mk h = Inr cr" "cipher cr = mk" "header cr = h"
    using from_master_keyE [OF assms(1)] by metis
  with assms(5-7) show ?thesis
    by (auto simp: unlock_ok [OF assms(2-4)] open_header_def verify_header_mac_def)
qed

theorem unlock_checks_the_header_tag_witness:
  "\<exists>cr. unlock sample_prims bincode_header [] (UnlockPassword sample_password) sample_volume = (Inr cr, tick sample_volume) \<and>
    cipher cr = sample_master_key \<and> header cr = sample_sealed"
proof -
  have b: "authenticated_bytes bincode_header sample_sealed = Inr (put_header sample_unsealed)"
    by (simp add: authenticated_bytes_def bincode_serialize_def bincode_header_def codec_of_def sample_sealed_def sample_unsealed_def)
  have "mac sample_sealed = hmac_sha256 sample_prims sample_mac_key (put_header sample_unsealed)" by (simp add: sample_sealed_def)
  with unlock_checks_the_header_tag [OF kdf_laws_sample _ _ _ _ sample_mac_key_derived b, of sample_volume "[]" "UnlockPassword sample_password"]
  show ?thesis by auto
qed

text \<open>C28: However many header updates are attempted and wherever each of them fails, the header file holds its
  old bytes or all the bytes of one update, and an update that was reported done is only ever replaced by a later one.\<close>

theorem header_updates_are_atomic:
  assumes "run_puts (\<lambda>(h, mk). write_header P C bk h mk) xs w = (acks, w')"
  shows "(disk w' (bk @ [HEADER_FILE]) = disk w (bk @ [HEADER_FILE]) \<or>
      (\<exists>x \<in> set xs. \<exists>b. sealed_bytes P C x b \<and> disk w' (bk @ [HEADER_FILE]) = Some b)) \<and>
    (\<forall>i < length xs. acks ! i \<longrightarrow>
      (\<exists>j. i \<le> j \<and> j < length xs \<and> (\<exists>b. sealed_bytes P C (xs ! j) b \<and> disk w' (bk @ [HEADER_FILE]) = Some b)))"
  using header_file.old_or_put [OF _ assms] header_file.acked_or_later [OF _ assms] by (simp add: list_all_iff)

theorem header_updates_are_atomic_witness:
  "\<exists>b. sealed_bytes sample_prims bincode_header (sample_unsealed, sample_master_key) b \<and>
     disk (snd (run_puts (\<lambda>(h, mk). write_header sample_prims bincode_header [] h mk)
       [(sample_unsealed, sample_master_key)] sample_volume)) [HEADER_FILE] = Some b"
proof -
  obtain h' w' where "write_header sample_prims bincode_header [] sample_unsealed sample_master_key sample_volume = (Inr h', w')"
    using write_header_run [OF kdf_laws_sample mac_laws_sample bincode_header_laws sample_header_wf(1) sample_volume_facts(1,2)]
    by metis
  then have w': "run_puts (\<lambda>(h, mk). write_header sample_prims bincode_header [] h mk)
       [(sample_unsealed, sample_master_key)] sample_volume = ([True], w')"
    by simp
  from header_updates_are_atomic [OF this] w' show ?thesis by simp
qed

text \<open>C7: A rekey that is cut off at any file operation leaves, when the volume is opened again, either the
  old header with the old index or the new header with the new index, provided it was not cut off
  while the two files were being moved into place; one that reports success has installed the new pair.\<close>

theorem rekey_all_or_nothing:
  assumes "settled bk (disk w)" and "seal_header P C h mk = Inr h'" and "ser C h' = Some nh"
    and "commit_rekey P C bk h mk ni w = (r, w')"
    and "disk v = disk w'" and "fault_free v" and "\<not> half_swapped bk nh ni (disk w) (disk w')"
  shows "\<exists>v'. recover bk v = (Inr (), v') \<and> settled bk (disk v') \<and>
      (same_pair bk (disk w) (disk v') \<or> swapped bk nh ni (disk v')) \<and> (r = Inr h' \<longrightarrow> swapped bk nh ni (disk v'))"
proof -
  note d = dwpD [OF dwp_commit_rekey [OF assms(1-3)] assms(4)]
  show ?thesis
  proof (cases r)
    case (Inr x)
    with d have "swapped bk nh ni (disk v)" using assms(5) by simp
    then show ?thesis by (simp add: swapped_def)
  next
    case (Inl e)
    with d assms(7) consider "uncommitted bk (disk w) (disk v)" | "committed bk nh ni (disk w) (disk v)" | "swapped bk nh ni (disk v)"
      using assms(5) by (auto simp: rekey_progress_def)
    then show ?thesis
    proof cases
      case 2
      from recover_committed [OF 2 assms(6)] show ?thesis by (auto simp: swapped_def)
    qed (use Inl in \<open>auto simp: uncommitted_def swapped_def\<close>)
  qed
qed

theorem rekey_all_or_nothing_witness:
  "\<exists>v'. recover [] (snd (commit_rekey sample_prims bincode_header [] sample_unsealed sample_master_key [1] sample_volume)) = (Inr (), v') \<and>
     settled [] (disk v') \<and> (same_pair [] (disk sample_volume) (disk v') \<or> swapped [] (put_header sample_sealed) [1] (disk v')) \<and>
     (fst (commit_rekey sample_prims bincode_header [] sample_unsealed sample_master_key [1] sample_volume) = Inr sample_sealed \<longrightarrow>
       swapped [] (put_header sample_sealed) [1] (disk v'))"
proof -
  obtain w' where w': "commit_rekey sample_prims bincode_header [] sample_unsealed sample_master_key [1] sample_volume = (Inr sample_sealed, w')"
    "swapped [] (put_header sample_sealed) [1] (disk w')" "fault_free w'"
    using commit_rekey_ok [OF sample_volume_facts(1,2) sample_sealed_made sample_header_sizes(4)] by metis
  then have "\<not> half_swapped [] (put_header sample_sealed) [1] (disk sample_volume) (disk w')"
    by (simp add: swapped_def half_swapped_def)
  then show ?thesis
    using rekey_all_or_nothing [OF sample_volume_facts(2) sample_sealed_made sample_header_sizes(4) w'(1), of w'] w'
    by simp
qed

text \<open>C32: A rekey cut off after the index was moved into place and before the marker was removed leaves a volume
  that every later open refuses, although the commit point has passed: recovery needs both staged files and one of
  them is gone.\<close>

theorem rekey_cut_off_in_the_swap_is_refused:
  assumes "settled bk (disk w)" and "seal_header P C h mk = Inr h'" and "ser C h' = Some nh"
    and "faults w = replicate n None @ [Some 0]" and "n \<in> {14..<18}"
    and "commit_rekey P C bk h mk ni w = (r, w')" and "disk v = disk w'"
  shows "r = Inl IoError \<and> unlock P C bk c v = (Inl IncompleteRekey, v)"
proof -
  have "r = Inl IoError \<and> half_swapped bk nh ni (disk w) (disk w')"
  proof -
    have "n = 14 \<or> n = 15 \<or> n = 16 \<or> n = 17" using assms(5) by auto
    then show ?thesis
      using assms(1-4,6)
      by (elim disjE) (auto simp: commit_rekey_def write_synced_def sync_dir_def recover_def fs_sync_dir_def bindE_def
          fs_create_def fs_write_all_at_def fs_sync_all_def fs_rename_def fs_remove_file_def fs_op_def
          numeral_eq_Suc bincode_serialize_def ret_def throw_def fs_exists_def rekey_stages volume_files)
  qed
  then show ?thesis
    using assms(7) by (auto simp: unlock_def bindE_def read_header_half_swapped)
qed

theorem rekey_cut_off_in_the_swap_is_refused_witness:
  "fst (commit_rekey sample_prims bincode_header [] sample_unsealed sample_master_key [1] (sample_volume\<lparr>faults := replicate 14 None @ [Some 0]\<rparr>))
     = Inl IoError \<and>
   unlock sample_prims bincode_header [] (UnlockPassword sample_password)
     (snd (commit_rekey sample_prims bincode_header [] sample_unsealed sample_master_key [1] (sample_volume\<lparr>faults := replicate 14 None @ [Some 0]\<rparr>)))
   = (Inl IncompleteRekey,
     snd (commit_rekey sample_prims bincode_header [] sample_unsealed sample_master_key [1] (sample_volume\<lparr>faults := replicate 14 None @ [Some 0]\<rparr>)))"
  by (rule rekey_cut_off_in_the_swap_is_refused [OF _ sample_sealed_made sample_header_sizes(4), where n = 14])
    (simp_all add: sample_volume_def settled_def volume_files)

end
