(* ===== verification/Durability.thy ===== *)
theory Durability
  imports Requests Volume_Safety
begin

text \<open>
  Sequences of requests.  A service whose steps are steps of its specification is a locale
  (\<open>service\<close>, extended by \<open>durable_service\<close> with what the disk keeps); the request handlers
  are interpreted as one, which gives the name-space refinement, crash consistency and
  durability of acknowledged requests.  Mounting a fresh and a saved volume (\<open>load\<close>) is here too.
\<close>

subsection \<open>Many requests\<close>

fun run_all :: "('r \<Rightarrow> 's \<Rightarrow> 'w \<Rightarrow> 'o \<times> 's \<times> 'w) \<Rightarrow> 'r list \<Rightarrow> 's \<Rightarrow> 'w \<Rightarrow> 'o list \<times> 's \<times> 'w" where
  "run_all step [] s w = ([], s, w)"
| "run_all step (r # rs) s w =
     (case step r s w of (out, s1, w1) \<Rightarrow>
      case run_all step rs s1 w1 of (outs, s2, w2) \<Rightarrow> (out # outs, s2, w2))"

fun spec_all :: "('r \<Rightarrow> 'a \<Rightarrow> 'p \<times> 'a) \<Rightarrow> 'r list \<Rightarrow> 'a \<Rightarrow> 'p list \<times> 'a" where
  "spec_all spec [] a = ([], a)"
| "spec_all spec (r # rs) a =
     (case spec r a of (p, a1) \<Rightarrow> case spec_all spec rs a1 of (ps, a2) \<Rightarrow> (p # ps, a2))"

fun adm_all :: "('r \<Rightarrow> 'a \<Rightarrow> bool) \<Rightarrow> ('r \<Rightarrow> 'a \<Rightarrow> 'p \<times> 'a) \<Rightarrow> 'r list \<Rightarrow> 'a \<Rightarrow> bool" where
  "adm_all adm spec [] a = True"
| "adm_all adm spec (r # rs) a = (adm r a \<and> adm_all adm spec rs (snd (spec r a)))"

text \<open>
  A service: each step is a step of its specification, seen through \<open>abs_of\<close>.  A durable one
  keeps a snapshot of a state in the world, replaced only by that of the new state.
\<close>

locale service =
  fixes step :: "'r \<Rightarrow> 's \<Rightarrow> 'w \<Rightarrow> 'o \<times> 's \<times> 'w"
    and spec :: "'r \<Rightarrow> 'a \<Rightarrow> 'p \<times> 'a"
    and inv :: "'s \<Rightarrow> bool"
    and abs_of :: "'s \<Rightarrow> 'a"
    and adm :: "'r \<Rightarrow> 'a \<Rightarrow> bool"
    and ans :: "'o \<Rightarrow> 'p \<Rightarrow> bool"
  assumes sim: "inv s \<Longrightarrow> adm r (abs_of s) \<Longrightarrow> step r s w = (out, s', w') \<Longrightarrow>
    inv s' \<and> abs_of s' = snd (spec r (abs_of s)) \<and> ans out (fst (spec r (abs_of s)))"
begin

lemma run_sim:
  "inv s \<Longrightarrow> adm_all adm spec rs (abs_of s) \<Longrightarrow> run_all step rs s w = (outs, s', w') \<Longrightarrow>
   inv s' \<and> abs_of s' = snd (spec_all spec rs (abs_of s)) \<and> list_all2 ans outs (fst (spec_all spec rs (abs_of s)))"
proof (induction rs arbitrary: s w outs)
  case (Cons r rs)
  obtain out s1 w1 where 1: "step r s w = (out, s1, w1)" by (cases "step r s w") auto
  obtain outs' where 2: "run_all step rs s1 w1 = (outs', s', w')" "outs = out # outs'"
    using Cons.prems(3) 1 by (auto split: prod.splits)
  have s1: "inv s1" "abs_of s1 = snd (spec r (abs_of s))" "ans out (fst (spec r (abs_of s)))"
    using sim [OF Cons.prems(1) _ 1] Cons.prems(2) by simp_all
  from Cons.IH [OF s1(1) _ 2(1)] Cons.prems(2) s1 2(2) show ?case
    by (auto split: prod.splits)
qed simp

end

locale durable_service = service step spec inv abs_of adm ans
  for step :: "'r \<Rightarrow> 's \<Rightarrow> 'w \<Rightarrow> 'o \<times> 's \<times> 'w" and spec :: "'r \<Rightarrow> 'a \<Rightarrow> 'p \<times> 'a"
    and inv :: "'s \<Rightarrow> bool" and abs_of :: "'s \<Rightarrow> 'a" and adm :: "'r \<Rightarrow> 'a \<Rightarrow> bool" and ans :: "'o \<Rightarrow> 'p \<Rightarrow> bool" +
  fixes kept :: "'w \<Rightarrow> 's \<Rightarrow> bool"
    and good :: "'o \<Rightarrow> bool"
  assumes keep: "inv s \<Longrightarrow> adm r (abs_of s) \<Longrightarrow> step r s w = (out, s', w') \<Longrightarrow> kept w t \<Longrightarrow> kept w' t \<or> kept w' s'"
    and good_kept: "inv s \<Longrightarrow> adm r (abs_of s) \<Longrightarrow> step r s w = (out, s', w') \<Longrightarrow> good out \<Longrightarrow> kept w' s'"
begin

lemma run_keeps:
  "inv s \<Longrightarrow> adm_all adm spec rs (abs_of s) \<Longrightarrow> run_all step rs s w = (outs, s', w') \<Longrightarrow> kept w t \<Longrightarrow>
   kept w' t \<or> (\<exists>k outs_k s_k w_k. k \<le> length rs \<and> run_all step (take k rs) s w = (outs_k, s_k, w_k) \<and> kept w' s_k)"
proof (induction rs arbitrary: s w outs t)
  case (Cons r rs)
  obtain out s1 w1 where 1: "step r s w = (out, s1, w1)" by (cases "step r s w") auto
  obtain outs' where 2: "run_all step rs s1 w1 = (outs', s', w')" using Cons.prems(3) 1 by (auto split: prod.splits)
  have s1: "inv s1" "abs_of s1 = snd (spec r (abs_of s))" using sim [OF Cons.prems(1) _ 1] Cons.prems(2) by simp_all
  have adm: "adm r (abs_of s)" "adm_all adm spec rs (abs_of s1)" using Cons.prems(2) s1(2) by simp_all
  have first: "run_all step (take (Suc 0) (r # rs)) s w = ([out], s1, w1)" by (simp add: 1)
  have later: "\<exists>outs_k w_k. run_all step (take (Suc k) (r # rs)) s w = (outs_k, s_k, w_k)"
    if "run_all step (take k rs) s1 w1 = (outs_k', s_k, w_k')" for k outs_k' s_k w_k'
    using that by (simp add: 1)
  obtain u where u: "kept w1 u" "u = t \<or> u = s1"
    using keep [OF Cons.prems(1) adm(1) 1 Cons.prems(4)] by blast
  from Cons.IH [OF s1(1) adm(2) 2 u(1)] show ?case
  proof (elim disjE exE conjE)
    assume "kept w' u"
    then show ?thesis using u(2) first by (metis Suc_le_mono le0 length_Cons)
  next
    fix k outs_k s_k w_k
    assume "k \<le> length rs" "run_all step (take k rs) s1 w1 = (outs_k, s_k, w_k)" "kept w' s_k"
    then show ?thesis using later by (metis Suc_le_mono length_Cons)
  qed
qed simp

lemma run_good_last:
  "inv s \<Longrightarrow> adm_all adm spec rs (abs_of s) \<Longrightarrow> run_all step rs s w = (outs, s', w') \<Longrightarrow>
   outs \<noteq> [] \<Longrightarrow> good (List.last outs) \<Longrightarrow> kept w' s'"
proof (induction rs arbitrary: s w outs)
  case (Cons r rs)
  obtain out s1 w1 where 1: "step r s w = (out, s1, w1)" by (cases "step r s w") auto
  obtain outs' where 2: "run_all step rs s1 w1 = (outs', s', w')" "outs = out # outs'"
    using Cons.prems(3) 1 by (auto split: prod.splits)
  show ?case
  proof (cases "outs' = []")
    case True
    then have "rs = []" using 2(1) by (cases rs) (auto split: prod.splits)
    with True 1 2 Cons.prems show ?thesis using good_kept by auto
  next
    case False
    have "inv s1" "abs_of s1 = snd (spec r (abs_of s))" using sim [OF Cons.prems(1) _ 1] Cons.prems(2) by simp_all
    with Cons.IH [OF _ _ 2(1) False] Cons.prems(2,5) 2(2) False show ?thesis by simp
  qed
qed simp

lemma run_recovers:
  assumes "inv s" and "adm_all adm spec rs (abs_of s)" and "run_all step rs s w = (outs, s', w')" and "kept w s"
  obtains k s_k where "k \<le> length rs" and "kept w' s_k" and "inv s_k"
    and "abs_of s_k = snd (spec_all spec (take k rs) (abs_of s))"
proof -
  have adm_take: "adm_all adm spec (take k rs) a" if "adm_all adm spec rs a" for k a
    using that by (induction rs arbitrary: k a) (auto simp: take_Cons split: nat.split)
  from run_keeps [OF assms] show thesis
  proof (elim disjE exE conjE)
    assume "kept w' s"
    with assms(1) show thesis using that [of 0 s] by simp
  next
    fix k outs_k s_k w_k
    assume k: "k \<le> length rs" "run_all step (take k rs) s w = (outs_k, s_k, w_k)" "kept w' s_k"
    with run_sim [OF assms(1) adm_take [OF assms(2)] k(2)] show thesis using that by blast
  qed
qed

end

definition succeeded :: "reply \<Rightarrow> bool" where
  "succeeded rep = (case rep of ReplyError _ \<Rightarrow> False | _ \<Rightarrow> True)"

lemma succeeded_iff: "succeeded rep \<longleftrightarrow> (\<forall>e. rep \<noteq> ReplyError e)"
  by (cases rep) (simp_all add: succeeded_def)

definition mounted :: "prims \<Rightarrow> entry_map codec \<Rightarrow> crypto \<Rightarrow> bytes set \<Rightarrow> path \<Rightarrow> pqfs_inner \<Rightarrow> bool" where
  "mounted P C cr N dir s \<longleftrightarrow> fs_ok P cr N s \<and> backend s = dir \<and> name_space P cr N \<and> codec_laws entries_wf C"

interpretation requests: durable_service "serve P C cr" specified "mounted P C cr N dir" "ns_of P cr"
  "admissible N" answers "\<lambda>w t. on_disk P C cr dir w (entries t)" succeeded for P C cr N dir
proof
  fix s r w out s' w' t
  assume m: "mounted P C cr N dir s" and adm: "admissible N r (ns_of P cr s)"
    and run: "serve P C cr r s w = (out, s', w')"
  then have sv: "served P C cr N (specified r) s w out s' w'"
    using serve_served [of P cr N s C r w out s' w'] by (simp add: mounted_def)
  show "mounted P C cr N dir s' \<and> ns_of P cr s' = snd (specified r (ns_of P cr s)) \<and>
      answers out (fst (specified r (ns_of P cr s)))"
    using sv m by (simp add: served_def mounted_def)
  show "on_disk P C cr dir w' (entries t) \<or> on_disk P C cr dir w' (entries s')"
    if "on_disk P C cr dir w (entries t)"
    using sv m that by (simp add: served_def mounted_def)
  show "on_disk P C cr dir w' (entries s')" if "succeeded out"
    using sv m that by (simp add: served_def mounted_def succeeded_iff)
qed

section \<open>Mounting\<close>

lemma reload:
  assumes "mounted P C cr N dir s" and "fault_free w" and "on_disk P C cr dir w (entries s)"
  obtains s' w' where "load P C dir cr w = (Inr s', w')" and "entries s' = entries s"
    and "ns_dir (ns_of P cr s') = ns_dir (ns_of P cr s)" and "ns_kind (ns_of P cr s') = ns_kind (ns_of P cr s)"
    and "index_ok s'" and "disk w' = disk w"
proof -
  let ?s = "s\<lparr>dirty := False, next_ino := reload_next (entries s)\<rparr>"
  have ok: "index_ok s" and dir: "backend s = dir" using assms(1) by (simp_all add: mounted_def fs_ok_def)
  obtain blob where blob: "disk w (backend s @ [INDEX_FILE]) = Some blob" "stored P C cr blob (entries s)"
    using assms(3) dir by (auto simp: on_disk_def)
  obtain w' where w': "load P C dir cr w = (Inr ?s, w')" "quiet w w'"
    using reload_same [OF ok assms(2) blob] dir by auto
  have fc: "find_child P cr ?s p nm = find_child P cr s p nm" for p nm
    by (simp add: find_child_def Let_def cong: option.case_cong)
  show thesis
  proof (rule that [OF w'(1)])
    show "ns_dir (ns_of P cr ?s) = ns_dir (ns_of P cr s)" unfolding ns_of_def fc by simp
    show "ns_kind (ns_of P cr ?s) = ns_kind (ns_of P cr s)" by (simp add: fun_eq_iff)
    show "index_ok ?s" using ok by (simp add: index_ok_frame [of ?s s])
    show "disk w' = disk w" using quietD [OF w'(2)] by simp
  qed simp
qed

lemma load_fresh:
  assumes w: "fault_free w" "disk w (dir @ [INDEX_FILE]) = None" and N: "name_space P cr N" "[] \<in> N"
  obtains s w' where "load P C dir cr w = (Inr s, w')" and "fs_ok P cr N s" and "backend s = dir"
    and "ns_of P cr s = \<lparr>ns_dir = Map.empty, ns_kind = [FUSE_ROOT_ID \<mapsto> Dir], ns_fresh = 2\<rparr>"
    and "disk w' = disk w" and "fault_free w'"
    and "\<exists>e. entries s = [(FUSE_ROOT_ID, e)] \<and> length (e_name_hash e) = 32 \<and> length (e_name_encrypted e) = 40 \<and>
      e_content_key e = [] \<and> e_link_target e = []"
proof -
  let ?w = "tick (tick w)"
  obtain ne where ne: "encrypt_filename P cr [] ?w = (Inr ne, draw_nonce ?w)" "decrypt_filename P cr ne = Inr []"
    using encrypt_nameE [OF N] by blast
  obtain t where t: "timestamps_now (draw_nonce ?w) = (t, drop_clock (draw_nonce ?w))"
    by (metis prod.collapse touch_run(2))
  define e where "e = \<lparr>e_ino = FUSE_ROOT_ID, e_parent = FUSE_ROOT_ID, e_name_hash = hash_filename P cr [],
    e_name_encrypted = ne, e_content_key = [], e_kind = Dir, e_size = 0, e_perm = 493,
    e_uid = fst (ids w), e_gid = snd (ids w), e_times = t, e_link_target = []\<rparr>"
  let ?s = "\<lparr>backend = dir, entries = [(FUSE_ROOT_ID, e)], next_ino = FUSE_ROOT_ID + 1,
    children = Map.empty, by_parent = Map.empty, dirty = False\<rparr>"
  have run: "load P C dir cr w = (Inr (rebuild_indexes ?s), drop_clock (draw_nonce ?w))"
    using w ne t by (simp add: load_def load_entries_def Let_def fs_exists_def bindE_def fs_ok ret_def e_def)
  have get: "bt_get i [(FUSE_ROOT_ID, e)] = (if i = FUSE_ROOT_ID then Some e else None)" for i
    by (simp add: bt_get_def)
  have f: "e_ino e = FUSE_ROOT_ID" by (simp add: e_def)
  have 1: "index_ok (rebuild_indexes ?s)"
    by (rule index_ok_rebuild) (simp_all add: keys_ok_def links_inj_def links_def get bt_inv_def f)
  have 2: "names_ok P cr N [(FUSE_ROOT_ID, e)]"
    using N(2) ne(2) by (simp add: names_ok_def get) (simp add: e_def)
  have 3: "tree_ok [(FUSE_ROOT_ID, e)]" by (simp add: tree_ok_def get) (simp add: e_def)
  have "fs_ok P cr N (rebuild_indexes ?s)"
    using 1 2 3 by (simp add: fs_ok_def get) (simp add: FUSE_ROOT_ID_def)
  moreover have "ns_of P cr (rebuild_indexes ?s) = \<lparr>ns_dir = Map.empty, ns_kind = [FUSE_ROOT_ID \<mapsto> Dir], ns_fresh = 2\<rparr>"
  proof (rule ns_of_eqI [OF 1])
    show "names_ok P cr N (entries (rebuild_indexes ?s))" using 2 by simp
  qed (simp_all add: named_def get, simp_all add: e_def FUSE_ROOT_ID_def)
  moreover have "length (e_name_encrypted e) = 40" "length (e_name_hash e) = 32"
    using N(1) decrypt_filename_length [OF _ ne(2)]
    by (simp_all add: e_def name_space_def length_hash_filename)
  ultimately show thesis using that [OF run] w(1) by (simp add: e_def)
qed

section \<open>Properties\<close>

text \<open>A small volume for the witnesses: two names besides the empty one, and a fresh backend.\<close>

definition sample_crypto :: crypto where
  "sample_crypto = projr (from_master_key sample_prims sample_master_key sample_sealed)"

definition sample_backend :: world where
  "sample_backend = sample_world [[''v'', HEADER_FILE] \<mapsto> put_header sample_sealed]"

lemma sample_backend_facts [simp]:
  "fault_free sample_backend" "disk sample_backend [''v'', INDEX_FILE] = None"
  by (simp_all add: sample_backend_def volume_files)

definition sample_names :: "bytes set" where
  "sample_names = {[], [97], [98]}"

lemma sample_name_space: "name_space sample_prims sample_crypto sample_names"
  by (simp add: name_space_def sample_names_def hash_filename_def sample_hmac_def aead_max_def utf8_unit_def)

definition sample_fs :: pqfs_inner where
  "sample_fs = projr (fst (load sample_prims bincode_index [''v''] sample_crypto sample_backend))"

definition sample_fs_world :: world where
  "sample_fs_world = snd (save_index sample_prims bincode_index sample_crypto sample_fs sample_backend)"

lemma length_put_entry:
  "length (put_entry e) = 94 + length (e_name_hash e) + length (e_name_encrypted e) + length (e_content_key e) +
     length (e_link_target e)"
  by (simp add: put_entry_def put_word_def put_vec_def put_kind_def put_times_def)

lemma index_fits_bincode:
  "index_fits bincode_index m \<longleftrightarrow> 8 + length (concat (map put_binding m)) \<le> 2 ^ 38 - 64"
  by (simp add: index_fits_def bincode_index_def codec_of_def put_list_def aead_max_def)

lemma sample_mounted:
  shows "mounted sample_prims bincode_index sample_crypto sample_names [''v''] sample_fs"
    and "ns_of sample_prims sample_crypto sample_fs = \<lparr>ns_dir = Map.empty, ns_kind = [FUSE_ROOT_ID \<mapsto> Dir], ns_fresh = 2\<rparr>"
    and "on_disk sample_prims bincode_index sample_crypto [''v''] sample_fs_world (entries sample_fs)"
    and "fault_free sample_fs_world"
    and "\<exists>root. entries sample_fs = [(FUSE_ROOT_ID, root)] \<and> length (put_entry root) = 166"
proof -
  let ?w = sample_backend
  obtain s w' e where s: "load sample_prims bincode_index [''v''] sample_crypto ?w = (Inr s, w')"
    "fs_ok sample_prims sample_crypto sample_names s" "backend s = [''v'']"
    "ns_of sample_prims sample_crypto s = \<lparr>ns_dir = Map.empty, ns_kind = [FUSE_ROOT_ID \<mapsto> Dir], ns_fresh = 2\<rparr>"
    and e: "entries s = [(FUSE_ROOT_ID, e)]" "length (e_name_hash e) = 32" "length (e_name_encrypted e) = 40"
      "e_content_key e = []" "e_link_target e = []"
    by (rule load_fresh [OF _ _ sample_name_space, of ?w "[''v'']" bincode_index]) (auto simp: sample_names_def)
  have fs: "sample_fs = s" by (simp add: sample_fs_def s(1))
  with s show m: "mounted sample_prims bincode_index sample_crypto sample_names [''v''] sample_fs"
    "ns_of sample_prims sample_crypto sample_fs = \<lparr>ns_dir = Map.empty, ns_kind = [FUSE_ROOT_ID \<mapsto> Dir], ns_fresh = 2\<rparr>"
    by (simp_all add: mounted_def sample_name_space)
  show "\<exists>root. entries sample_fs = [(FUSE_ROOT_ID, root)] \<and> length (put_entry root) = 166"
    using e by (simp add: fs length_put_entry)
  have fits: "index_fits bincode_index (entries s)"
    using e by (simp add: index_fits_bincode put_binding_def length_put_entry put_word_def)
  have wf: "entries_wf (entries s)" by (rule fs_ok_entries_wf [OF sample_name_space s(2)])
  obtain w1 where w1: "save_index sample_prims bincode_index sample_crypto s ?w = (Inr (s\<lparr>dirty := False\<rparr>), w1)" "fault_free w1"
    using save_index_ok [OF aead_laws_sample bincode_index_laws wf fits, of ?w sample_crypto] sample_backend_facts(1) by blast
  then show "fault_free sample_fs_world" by (simp add: sample_fs_world_def fs)
  show "on_disk sample_prims bincode_index sample_crypto [''v''] sample_fs_world (entries sample_fs)"
    using save_index_outcome(1) [OF aead_laws_sample bincode_index_laws wf w1(1)] w1 s(3)
    by (simp add: sample_fs_world_def fs saved_def on_disk_def)
qed

lemma sample_volume_header:
  "settled [''v''] (disk sample_fs_world)" "header_on_disk bincode_header [''v''] (disk sample_fs_world) sample_sealed"
  "open_header sample_prims bincode_header sample_sealed (UnlockPassword sample_password) = Inr sample_crypto"
proof -
  have m: "fs_ok sample_prims sample_crypto sample_names sample_fs" "backend sample_fs = [''v'']"
    using sample_mounted(1) by (simp_all add: mounted_def)
  obtain x where sv: "save_index sample_prims bincode_index sample_crypto sample_fs sample_backend = (x, sample_fs_world)"
    unfolding sample_fs_world_def by (metis prod.collapse)
  have d: "q \<noteq> [''v'', ''pqfs.tmp''] \<Longrightarrow> q \<noteq> [''v'', INDEX_FILE] \<Longrightarrow> disk sample_fs_world q = disk sample_backend q" for q
    using save_index_outcome(1) [OF aead_laws_sample bincode_index_laws fs_ok_entries_wf [OF sample_name_space m(1)] sv] m(2)
    by (simp add: saved_def)
  show "settled [''v''] (disk sample_fs_world)"
    using d [of "[''v'', REKEY_MARKER]"] by (simp add: settled_def sample_backend_def volume_files)
  have "[''v'', HEADER_FILE] \<noteq> [''v'', ''pqfs.tmp'']" "[''v'', HEADER_FILE] \<noteq> [''v'', INDEX_FILE]" by (simp_all add: volume_files)
  from d [OF this] have hd: "disk sample_fs_world ([''v''] @ [HEADER_FILE]) = Some (put_header sample_sealed)"
    by (simp add: sample_backend_def)
  show "header_on_disk bincode_header [''v''] (disk sample_fs_world) sample_sealed"
    by (rule header_on_disk_serialised [where b = "put_header sample_sealed", OF _ _ sample_header_wf(2) sample_header_sizes(2) _ sample_header_sizes(4)], unfold hd)
      (simp_all add: sample_header_sizes(1) MAX_HEADER_BYTES_def)
  show "open_header sample_prims bincode_header sample_sealed (UnlockPassword sample_password) = Inr sample_crypto"
  proof (rule open_sealed [OF kdf_laws_sample sample_sealed_made sample_volume_facts(4)])
    fix cr assume "open_header sample_prims bincode_header sample_sealed (UnlockPassword sample_password) = Inr cr"
      and "from_master_key sample_prims sample_master_key sample_sealed = Inr cr"
    then show ?thesis by (simp only: sample_crypto_def sum.sel)
  qed
qed

lemma ns_up_top: "(\<And>q nm. ns_dir \<sigma> (q, nm) \<noteq> Some i) \<Longrightarrow> (i, j) \<in> (ns_up \<sigma>)\<^sup>* \<longleftrightarrow> i = j"
  by (auto simp: ns_up_def elim: converse_rtranclE)

text \<open>
  C3: the name space.  On a mounted volume any sequence of create, mkdir, symlink,
  unlink, rmdir and rename requests, with any I/O errors, leaves the name space the
  specification gives, and each reply is the specified one (a request the specification grants
  may also be answered with \<open>EIO\<close>).
\<close>

theorem requests_refine_name_space:
  assumes "mounted P C cr N dir s" and "adm_all (admissible N) specified rs (ns_of P cr s)"
    and "run_all (serve P C cr) rs s w = (replies, s', w')"
  shows "ns_of P cr s' = snd (spec_all specified rs (ns_of P cr s)) \<and>
    list_all2 answers replies (fst (spec_all specified rs (ns_of P cr s))) \<and> mounted P C cr N dir s'"
  using requests.run_sim [OF assms] by simp

definition sample_requests :: "request list" where
  "sample_requests = [Mkdir 1 [97] 493, Rename 1 [97] 1 [98], Create 2 [97] 420, Rmdir 1 [98], Unlink 1 [97]]"

lemma sample_requests_length: "length sample_requests = 5"
  by (simp add: sample_requests_def)

lemma sample_requests_spec:
  assumes "\<sigma> = \<lparr>ns_dir = Map.empty, ns_kind = [FUSE_ROOT_ID \<mapsto> Dir], ns_fresh = 2\<rparr>"
  shows "adm_all (admissible sample_names) specified sample_requests \<sigma>"
    and "spec_all specified sample_requests \<sigma> =
      ([Done, Done, Done, Fail ENOTEMPTY, Fail ENOENT],
       \<lparr>ns_dir = [(1, [98]) \<mapsto> 2, (2, [97]) \<mapsto> 3], ns_kind = [1 \<mapsto> Dir, 2 \<mapsto> Dir, 3 \<mapsto> File], ns_fresh = 4\<rparr>)"
proof -
  have top: "(1, 2) \<notin> (ns_up \<lparr>ns_dir = [(1, [97]) \<mapsto> 2], ns_kind = k, ns_fresh = f\<rparr>)\<^sup>*" for k f
    by (subst ns_up_top) (auto split: if_splits)
  note defs = sample_requests_def assms FUSE_ROOT_ID_def spec_add_def spec_rename_def spec_rmdir_def spec_unlink_def
    ns_move_def ns_drop_def may_add_def sample_names_def top utf8_unit_def
  show "adm_all (admissible sample_names) specified sample_requests \<sigma>" by (simp add: defs)
  show "spec_all specified sample_requests \<sigma> =
      ([Done, Done, Done, Fail ENOTEMPTY, Fail ENOENT],
       \<lparr>ns_dir = [(1, [98]) \<mapsto> 2, (2, [97]) \<mapsto> 3], ns_kind = [1 \<mapsto> Dir, 2 \<mapsto> Dir, 3 \<mapsto> File], ns_fresh = 4\<rparr>)"
    by (simp add: defs ns_empty_def)
qed

theorem requests_refine_name_space_witness:
  "case run_all (serve sample_prims bincode_index sample_crypto) sample_requests sample_fs sample_fs_world of
     (replies, s', w') \<Rightarrow> ns_dir (ns_of sample_prims sample_crypto s') = [(1, [98]) \<mapsto> 2, (2, [97]) \<mapsto> 3] \<and>
       list_all2 answers replies [Done, Done, Done, Fail ENOTEMPTY, Fail ENOENT]"
proof (clarify)
  fix replies s' w'
  assume run: "run_all (serve sample_prims bincode_index sample_crypto) sample_requests sample_fs sample_fs_world = (replies, s', w')"
  have adm: "adm_all (admissible sample_names) specified sample_requests (ns_of sample_prims sample_crypto sample_fs)"
    and spec: "spec_all specified sample_requests (ns_of sample_prims sample_crypto sample_fs) =
      ([Done, Done, Done, Fail ENOTEMPTY, Fail ENOENT],
       \<lparr>ns_dir = [(1, [98]) \<mapsto> 2, (2, [97]) \<mapsto> 3], ns_kind = [1 \<mapsto> Dir, 2 \<mapsto> Dir, 3 \<mapsto> File], ns_fresh = 4\<rparr>)"
    by (rule sample_requests_spec [OF sample_mounted(2)])+
  from requests_refine_name_space [OF sample_mounted(1) adm run] show "ns_dir (ns_of sample_prims sample_crypto s') = [(1, [98]) \<mapsto> 2, (2, [97]) \<mapsto> 3] \<and>
       list_all2 answers replies [Done, Done, Done, Fail ENOTEMPTY, Fail ENOENT]"
    by (simp add: spec)
qed

text \<open>
  C5: crash consistency.  Let the index of a mounted volume be on disk, serve any sequence of
  the requests that change the name space, and let any file operation fail at any point (a failed write may leave a part of its
  data).  Mounting the volume again then succeeds and gives the name space after some prefix of
  the requests: no request is seen in part.
\<close>

theorem crash_recovers_a_prefix:
  assumes "mounted P C cr N dir s" and "adm_all (admissible N) specified rs (ns_of P cr s)"
    and "run_all (serve P C cr) rs s w = (replies, s', w')" and "on_disk P C cr dir w (entries s)"
  shows "\<exists>k s'' w''. k \<le> length rs \<and> load P C dir cr (w'\<lparr>faults := []\<rparr>) = (Inr s'', w'') \<and> index_ok s'' \<and>
    ns_dir (ns_of P cr s'') = ns_dir (snd (spec_all specified (take k rs) (ns_of P cr s))) \<and>
    ns_kind (ns_of P cr s'') = ns_kind (snd (spec_all specified (take k rs) (ns_of P cr s)))"
proof -
  obtain k s_k where k: "k \<le> length rs" "on_disk P C cr dir w' (entries s_k)" "mounted P C cr N dir s_k"
    "ns_of P cr s_k = snd (spec_all specified (take k rs) (ns_of P cr s))"
    using requests.run_recovers [OF assms] by blast
  have "fault_free (w'\<lparr>faults := []\<rparr>)" "on_disk P C cr dir (w'\<lparr>faults := []\<rparr>) (entries s_k)"
    using k(2) by (simp_all add: fault_free_def on_disk_def)
  from reload [OF k(3) this] k(1,4) show ?thesis by metis
qed

theorem crash_recovers_a_prefix_witness:
  "case run_all (serve sample_prims bincode_index sample_crypto) sample_requests sample_fs
       (sample_fs_world\<lparr>faults := [None, None, None, None, None, None, Some 3]\<rparr>) of
     (replies, s', w') \<Rightarrow> \<exists>k s'' w''. k \<le> 5 \<and>
       load sample_prims bincode_index [''v''] sample_crypto (w'\<lparr>faults := []\<rparr>) = (Inr s'', w'') \<and>
       ns_kind (ns_of sample_prims sample_crypto s'') =
       ns_kind (snd (spec_all specified (take k sample_requests) (ns_of sample_prims sample_crypto sample_fs)))"
proof clarify
  fix replies s' w'
  assume run: "run_all (serve sample_prims bincode_index sample_crypto) sample_requests sample_fs
       (sample_fs_world\<lparr>faults := [None, None, None, None, None, None, Some 3]\<rparr>) = (replies, s', w')"
  have adm: "adm_all (admissible sample_names) specified sample_requests (ns_of sample_prims sample_crypto sample_fs)"
    by (rule sample_requests_spec [OF sample_mounted(2)])
  have "on_disk sample_prims bincode_index sample_crypto [''v'']
      (sample_fs_world\<lparr>faults := [None, None, None, None, None, None, Some 3]\<rparr>) (entries sample_fs)"
    using sample_mounted(3) by (simp add: on_disk_def)
  from crash_recovers_a_prefix [OF sample_mounted(1) adm run this]
  show "\<exists>k s'' w''. k \<le> 5 \<and>
       load sample_prims bincode_index [''v''] sample_crypto (w'\<lparr>faults := []\<rparr>) = (Inr s'', w'') \<and>
       ns_kind (ns_of sample_prims sample_crypto s'') =
       ns_kind (snd (spec_all specified (take k sample_requests) (ns_of sample_prims sample_crypto sample_fs)))"
    by (metis sample_requests_length)
qed

text \<open>
  C10: an acknowledged name-space request is durable.  When the last reply of a sequence of create, mkdir, symlink,
  unlink, rmdir and rename requests is not an error, mounting again gives exactly the entries the running file system has, and the name space
  after all of the requests.
\<close>

theorem acknowledged_request_is_durable:
  assumes "mounted P C cr N dir s" and "adm_all (admissible N) specified rs (ns_of P cr s)"
    and "run_all (serve P C cr) rs s w = (replies, s', w')"
    and "replies \<noteq> []" and "succeeded (List.last replies)"
  shows "\<exists>s'' w''. load P C dir cr (w'\<lparr>faults := []\<rparr>) = (Inr s'', w'') \<and> entries s'' = entries s' \<and>
    ns_dir (ns_of P cr s'') = ns_dir (snd (spec_all specified rs (ns_of P cr s)))"
proof -
  have s': "mounted P C cr N dir s'" "ns_of P cr s' = snd (spec_all specified rs (ns_of P cr s))"
    using requests.run_sim [OF assms(1-3)] by simp_all
  have "on_disk P C cr dir w' (entries s')" by (rule requests.run_good_last [OF assms])
  then have "fault_free (w'\<lparr>faults := []\<rparr>)" "on_disk P C cr dir (w'\<lparr>faults := []\<rparr>) (entries s')"
    by (simp_all add: fault_free_def on_disk_def)
  from reload [OF s'(1) this] s'(2) show ?thesis by metis
qed

lemma sample_add_succeeds:
  assumes adm: "admissible sample_names r (ns_of sample_prims sample_crypto sample_fs)"
    and spec: "fst (specified r (ns_of sample_prims sample_crypto sample_fs)) = Done"
    and run: "serve sample_prims bincode_index sample_crypto r sample_fs sample_fs_world =
      save_then sample_prims bincode_index sample_crypto rep (with_new e sample_fs) w1"
    and e: "entry_for sample_prims sample_crypto sample_fs p [97] e" "length (e_content_key e) \<le> 72" "e_link_target e = []"
  shows "\<exists>s' w'. serve sample_prims bincode_index sample_crypto r sample_fs sample_fs_world = (rep, s', w')"
proof -
  have ok: "fs_ok sample_prims sample_crypto sample_names sample_fs" using sample_mounted(1) by (simp add: mounted_def)
  obtain root where root: "entries sample_fs = [(FUSE_ROOT_ID, root)]" "length (put_entry root) = 166"
    using sample_mounted(5) by blast
  obtain out s' w' where out: "serve sample_prims bincode_index sample_crypto r sample_fs sample_fs_world = (out, s', w')"
    by (metis prod.exhaust)
  have "next_ino sample_fs = 2" using ns_of_sel(2) [of sample_prims sample_crypto sample_fs] sample_mounted(2) by simp
  then have ee: "entries (with_new e sample_fs) = [(FUSE_ROOT_ID, root), (2, e)]" "length (put_entry e) \<le> 300"
    using e root decrypt_filename_length [of sample_prims sample_crypto "e_name_encrypted e" "[97]"]
    by (simp_all add: with_new_def entry_for_def FUSE_ROOT_ID_def length_put_entry length_hash_filename)
  have sv: "served sample_prims bincode_index sample_crypto sample_names (specified r) sample_fs sample_fs_world out s' w'"
    by (rule serve_served [OF ok sample_name_space bincode_index_laws adm out])
  have "entries s' = entries (with_new e sample_fs)" "out = ReplyError EIO \<or> out = rep"
    using out run by (auto simp: save_then_def save_index_eq ret_def elim!: bindE_InrE split: prod.splits sum.splits)
  moreover from this(1) have "index_fits bincode_index (entries s')"
    using root(2) ee by (simp add: index_fits_bincode put_binding_def put_word_def)
  ultimately show ?thesis
    using sv sample_mounted(4) spec out by (auto simp: served_def)
qed

lemma sample_name [simp]: "to_string_lossy [97] \<in> sample_names"
  by (simp add: sample_names_def utf8_unit_def)

lemma sample_none: "find_child sample_prims sample_crypto sample_fs 1 [97] = None"
  using ns_of_lookup [of sample_prims sample_crypto sample_fs 1 "[97]"] by (simp add: sample_mounted(2))

lemma sample_mkdir:
  "\<exists>a s' w'. serve sample_prims bincode_index sample_crypto (Mkdir 1 [97] 493) sample_fs sample_fs_world =
     (ReplyEntry TTL a 0, s', w')"
proof -
  obtain e w1 where run: "mkdir sample_prims bincode_index sample_crypto 1 [97] 493 sample_fs sample_fs_world =
      save_then sample_prims bincode_index sample_crypto (ReplyEntry TTL (attr_for e) 0) (with_new e sample_fs) w1"
    and e: "entry_for sample_prims sample_crypto sample_fs 1 (to_string_lossy [97]) e" "e_content_key e = []" "e_link_target e = []"
    by (rule mkdir_run [OF sample_name_space sample_name sample_none])
  then show ?thesis
    using sample_add_succeeds [of "Mkdir 1 [97] 493" _ e _ 1]
    by (fastforce simp: sample_mounted(2) may_add_def spec_add_def FUSE_ROOT_ID_def sample_names_def utf8_unit_def)
qed

lemma sample_create:
  "\<exists>a s' w'. create sample_prims bincode_index sample_crypto 1 [97] 420 sample_fs sample_fs_world =
     (ReplyCreated TTL a 0 0 0, s', w')"
proof -
  obtain e w1 k where run: "create sample_prims bincode_index sample_crypto 1 [97] 420 sample_fs sample_fs_world =
      save_then sample_prims bincode_index sample_crypto (ReplyCreated TTL (attr_for e) 0 0 0) (with_new e sample_fs) w1"
    and e: "entry_for sample_prims sample_crypto sample_fs 1 (to_string_lossy [97]) e" "e_link_target e = []"
      "decrypt_content_key sample_prims sample_crypto (e_content_key e) = Inr k" "length k = 32"
    by (rule create_run [OF sample_name_space sample_name sample_none, of bincode_index 420 sample_fs_world]) blast
  from e(3,4) have "length (e_content_key e) = 72"
    using decrypt_length [OF aead_laws_sample] by (auto simp: decrypt_content_key_def split: sum.splits if_splits)
  with run e(1,2) show ?thesis
    using sample_add_succeeds [of "Create 1 [97] 420" _ e _ 1]
    by (fastforce simp: sample_mounted(2) may_add_def spec_add_def FUSE_ROOT_ID_def sample_names_def utf8_unit_def)
qed

theorem acknowledged_request_is_durable_witness:
  "\<exists>replies s' w' s'' w''. run_all (serve sample_prims bincode_index sample_crypto) [Mkdir 1 [97] 493] sample_fs sample_fs_world =
     (replies, s', w') \<and>
   load sample_prims bincode_index [''v''] sample_crypto (w'\<lparr>faults := []\<rparr>) = (Inr s'', w'') \<and>
   ns_dir (ns_of sample_prims sample_crypto s'') = [(1, [97]) \<mapsto> 2]"
proof -
  obtain rep s' w' where out: "serve sample_prims bincode_index sample_crypto (Mkdir 1 [97] 493) sample_fs sample_fs_world = (rep, s', w')"
    "succeeded rep" using sample_mkdir by (auto simp: succeeded_iff)
  then have run: "run_all (serve sample_prims bincode_index sample_crypto) [Mkdir 1 [97] 493] sample_fs sample_fs_world = ([rep], s', w')"
    by simp
  have adm: "adm_all (admissible sample_names) specified [Mkdir 1 [97] 493] (ns_of sample_prims sample_crypto sample_fs)"
    using sample_requests_spec(1) [OF sample_mounted(2)] by (simp add: sample_requests_def)
  from acknowledged_request_is_durable [OF sample_mounted(1) adm run] out(2) run show ?thesis
    by (fastforce simp: sample_mounted(2) spec_add_def utf8_unit_def)
qed

lemma rooted_acyclic:
  assumes "(i, r) \<in> R\<^sup>*" and "(i, i) \<in> R\<^sup>+" and single: "\<And>x y z. (x, y) \<in> R \<Longrightarrow> (x, z) \<in> R \<Longrightarrow> y = z"
  shows "\<exists>y. (r, y) \<in> R"
proof -
  from assms(1,2) have "(r, r) \<in> R\<^sup>+"
  proof (induction rule: rtrancl_induct)
    case (step x y)
    then obtain z where "(x, z) \<in> R" "(z, x) \<in> R\<^sup>*" by (meson tranclD)
    with single step.hyps(2) show ?case by (metis rtrancl_into_trancl1)
  qed
  then show ?thesis by (meson tranclD)
qed

text \<open>
  C8: the directory tree.  Whatever requests are served and whichever file operations fail,
  every inode has the root as an ancestor (as \<open>is_descendant_of\<close> computes it), no inode
  is its own proper ancestor, and only directories have children: a rename never makes a cycle or detaches a subtree.
\<close>

theorem directory_tree_stays_rooted:
  assumes "mounted P C cr N dir s" and "adm_all (admissible N) specified rs (ns_of P cr s)"
    and "run_all (serve P C cr) rs s w = (replies, s', w')" and "bt_get i (entries s') = Some e"
  shows "is_descendant_of s' i FUSE_ROOT_ID \<and> (i \<noteq> FUSE_ROOT_ID \<longrightarrow> \<not> is_descendant_of s' (e_parent e) i) \<and>
    (\<exists>p. bt_get (e_parent e) (entries s') = Some p \<and> e_kind p = Dir)"
proof -
  have "fs_ok P cr N s'" using requests.run_sim [OF assms(1-3)] by (simp add: mounted_def)
  note D = fs_okD [OF this]
  note desc = is_descendant_of_iff [OF D(4)]
  have up: "(i, FUSE_ROOT_ID) \<in> (parent_rel (entries s'))\<^sup>*" by (rule tree_ok_rooted [OF D(3) assms(4)])
  have "(e_parent e, i) \<notin> (parent_rel (entries s'))\<^sup>*" if "i \<noteq> FUSE_ROOT_ID"
  proof
    assume "(e_parent e, i) \<in> (parent_rel (entries s'))\<^sup>*"
    moreover have "(i, e_parent e) \<in> parent_rel (entries s')" using assms(4) that by (simp add: parent_rel_iff)
    ultimately have "(i, i) \<in> (parent_rel (entries s'))\<^sup>+" by (rule rtrancl_into_trancl2 [rotated])
    then show False using rooted_acyclic [OF up _ parent_rel_unique] by (auto simp: parent_rel_iff)
  qed
  then show ?thesis using up desc tree_ok_parent [OF D(3) assms(4)] by auto
qed

theorem directory_tree_stays_rooted_witness:
  "case run_all (serve sample_prims bincode_index sample_crypto) sample_requests sample_fs sample_fs_world of
     (replies, s', w') \<Rightarrow> is_descendant_of s' 3 FUSE_ROOT_ID"
proof clarify
  fix replies s' w'
  assume run: "run_all (serve sample_prims bincode_index sample_crypto) sample_requests sample_fs sample_fs_world = (replies, s', w')"
  have adm: "adm_all (admissible sample_names) specified sample_requests (ns_of sample_prims sample_crypto sample_fs)"
    by (rule sample_requests_spec [OF sample_mounted(2)])
  have "ns_of sample_prims sample_crypto s' = snd (spec_all specified sample_requests (ns_of sample_prims sample_crypto sample_fs))"
    using requests.run_sim [OF sample_mounted(1) adm run] by simp
  then have "ns_kind (ns_of sample_prims sample_crypto s') 3 = Some File"
    unfolding sample_requests_spec(2) [OF sample_mounted(2)] by simp
  then obtain e where "bt_get 3 (entries s') = Some e" by auto
  from directory_tree_stays_rooted [OF sample_mounted(1) adm run this] show "is_descendant_of s' 3 FUSE_ROOT_ID" by blast
qed

text \<open>
  C29: the requests that change the name space (create, mkdir, symlink, unlink, rmdir and rename) never touch the data
  file of an inode that exists after them, whichever file operations fail: removing or replacing a file removes no
  contents but its own.
\<close>

theorem request_keeps_live_data:
  assumes "mounted P C cr N dir s" and "admissible N r (ns_of P cr s)"
    and "serve P C cr r s w = (rep, s', w')" and "bt_get i (entries s') = Some e"
  shows "disk w' (data_path s i) = disk w (data_path s i)"
  using serve_served [of P cr N s C r w rep s' w'] assms by (auto simp: mounted_def served_def)

text \<open>Two files with data, one of which is removed.\<close>

definition sample_two_files :: "request list" where
  "sample_two_files = [Create 1 [97] 420, Create 1 [98] 420]"

lemma sample_two_files_spec:
  assumes "\<sigma> = \<lparr>ns_dir = Map.empty, ns_kind = [FUSE_ROOT_ID \<mapsto> Dir], ns_fresh = 2\<rparr>"
  shows "adm_all (admissible sample_names) specified sample_two_files \<sigma>"
    and "snd (spec_all specified sample_two_files \<sigma>) =
      \<lparr>ns_dir = [(1, [97]) \<mapsto> 2, (1, [98]) \<mapsto> 3], ns_kind = [1 \<mapsto> Dir, 2 \<mapsto> File, 3 \<mapsto> File], ns_fresh = 4\<rparr>"
  by (simp_all add: sample_two_files_def assms FUSE_ROOT_ID_def spec_add_def may_add_def sample_names_def utf8_unit_def)

lemma unlinked_data:
  assumes m: "mounted P C cr N dir s" and e: "find_child P cr s p nm = Some e" and k: "e_kind e \<noteq> Dir"
    and run: "unlink P C cr p nm s w = (rep, s', w')" and w: "fault_free w" and s': "fs_ok P cr N s'"
  shows "disk w' (data_path s (e_ino e)) = None"
proof -
  let ?s = "snd (remove_entry (e_ino e) s)" and ?f = "data_path s (e_ino e)"
  have f: "data_path ?s (e_ino e) = ?f" by (simp add: data_path_def)
  obtain r v where sv: "save_index P C cr ?s (remove_data ?f w) = (r, v)" by fastforce
  then have out: "w' = v" "s' = ?s \<or> r = Inr s'"
    using run e k f by (auto simp: unlink_def Let_def save_then_def split: sum.splits)
  have st: "entries s' = entries ?s"
    using out(2) sv by (auto simp: save_index_eq ret_def elim!: bindE_InrE)
  have "name_space P cr N" "aead_laws P" "codec_laws entries_wf C" using m by (simp_all add: mounted_def name_space_def)
  then have "saved P C cr (backend ?s) (entries ?s) (remove_data ?f w) (\<exists>s'. r = Inr s') v"
    using save_index_outcome(1) [OF _ _ _ sv] fs_ok_entries_wf [OF _ s'] st by simp
  moreover have "disk (remove_data ?f w) ?f = None"
    using w by (auto simp: remove_data_def fs_exists_def fs_ok_present)
  moreover have "?f \<noteq> backend ?s @ [x]" for x by simp
  ultimately show ?thesis by (simp add: saved_def out(1))
qed

theorem request_keeps_live_data_witness:
  "case run_all (serve sample_prims bincode_index sample_crypto) sample_two_files sample_fs sample_fs_world of (replies, s1, w1) \<Rightarrow>
     case serve sample_prims bincode_index sample_crypto (Unlink 1 [97]) s1
         (w1\<lparr>disk := (disk w1)(data_path s1 2 \<mapsto> [7], data_path s1 3 \<mapsto> [8]), faults := []\<rparr>) of (rep, s', w') \<Rightarrow>
       bt_get 2 (entries s1) \<noteq> None \<and> bt_get 2 (entries s') = None \<and>
         disk w' (data_path s1 2) = None \<and> disk w' (data_path s1 3) = Some [8]"
proof clarify
  fix replies s1 rep s' and w1 w' :: world
  let ?w = "w1\<lparr>disk := (disk w1)(data_path s1 2 \<mapsto> [7], data_path s1 3 \<mapsto> [8]), faults := []\<rparr>"
  assume run: "run_all (serve sample_prims bincode_index sample_crypto) sample_two_files sample_fs sample_fs_world = (replies, s1, w1)"
    and un: "serve sample_prims bincode_index sample_crypto (Unlink 1 [97]) s1 ?w = (rep, s', w')"
  note spec = sample_two_files_spec [OF sample_mounted(2)]
  have m: "mounted sample_prims bincode_index sample_crypto sample_names [''v''] s1" and
    ns: "ns_of sample_prims sample_crypto s1 = \<lparr>ns_dir = [(1, [97]) \<mapsto> 2, (1, [98]) \<mapsto> 3], ns_kind = [1 \<mapsto> Dir, 2 \<mapsto> File, 3 \<mapsto> File], ns_fresh = 4\<rparr>"
    using requests.run_sim [OF sample_mounted(1) spec(1) run] unfolding spec(2) by blast+
  have adm: "admissible sample_names (Unlink 1 [97]) (ns_of sample_prims sample_crypto s1)" by simp
  have "ns_of sample_prims sample_crypto s' = snd (specified (Unlink 1 [97]) (ns_of sample_prims sample_crypto s1))"
    using requests.sim [OF m adm un] by blast
  then have ns': "ns_kind (ns_of sample_prims sample_crypto s') = [1 \<mapsto> Dir, 3 \<mapsto> File]"
    unfolding ns by (auto simp: spec_unlink_def ns_drop_def utf8_unit_def fun_eq_iff)
  have kind: "ns_kind (ns_of sample_prims sample_crypto t) i = None \<longleftrightarrow> bt_get i (entries t) = None" for t i by simp
  have e3: "bt_get 3 (entries s') \<noteq> None" unfolding kind [symmetric] ns' by simp
  have "bt_get 2 (entries s1) \<noteq> None" "bt_get 2 (entries s') = None"
    unfolding kind [symmetric] ns' ns by simp_all
  moreover
  have "Some 2 = map_option e_ino (find_child sample_prims sample_crypto s1 1 [97])"
    using ns ns_of_lookup [of sample_prims sample_crypto s1 1 "[97]"] by (simp add: utf8_unit_def)
  then obtain x where x: "find_child sample_prims sample_crypto s1 1 [97] = Some x" "e_ino x = 2"
    by (cases "find_child sample_prims sample_crypto s1 1 [97]") auto
  have "bt_get 2 (entries s1) = Some x"
    using x m find_child_iff [of s1 sample_prims sample_crypto sample_names 1 "[97]" x] by (simp add: mounted_def fs_ok_def)
  then have xk: "e_kind x \<noteq> Dir" using arg_cong [OF ns, of "\<lambda>\<sigma>. ns_kind \<sigma> 2"] by simp
  have ok': "fs_ok sample_prims sample_crypto sample_names s'" using requests.sim [OF m adm un] by (simp add: mounted_def)
  have "disk w' (data_path s1 2) = None"
    using unlinked_data [OF m x(1) xk un [unfolded serve.simps] _ ok'] x(2) by (simp add: fault_free_def)
  moreover from e3 obtain e where e: "bt_get 3 (entries s') = Some e" by blast
  from request_keeps_live_data [OF m adm un e] have "disk w' (data_path s1 3) = Some [8]" by simp
  ultimately show "bt_get 2 (entries s1) \<noteq> None \<and> bt_get 2 (entries s') = None \<and>
      disk w' (data_path s1 2) = None \<and> disk w' (data_path s1 3) = Some [8]" by blast
qed

text \<open>
  What a successful create makes is what lookup finds: the reply of the create carries the
  attributes a lookup of the same name then returns, a new empty regular file with the requested
  permission bits.
\<close>

theorem lookup_after_create:
  assumes "mounted P C cr N dir s" and "admissible N (Create p nm mode) (ns_of P cr s)"
    and "create P C cr p nm mode s w = (ReplyCreated ttl a g fh fl, s', w')"
  shows "lookup P cr s' p nm = ReplyEntry TTL a 0 \<and> attr_ino a = next_ino s \<and> attr_kind a = RegularFile \<and>
    attr_size a = 0 \<and> attr_perm a = perm_of mode"
proof -
  have ok: "fs_ok P cr N s" and N: "name_space P cr N" using assms(1) by (simp_all add: mounted_def)
  have nm: "to_string_lossy nm \<in> N" using assms(2) by (simp add: may_add_def)
  have none: "find_child P cr s p nm = None" using assms(3) by (auto simp: create_def split: if_splits)
  obtain e w1 where run: "create P C cr p nm mode s w = save_then P C cr (ReplyCreated TTL (attr_for e) 0 0 0) (with_new e s) w1"
    and e: "entry_for P cr s p (to_string_lossy nm) e" "e_kind e = File" "e_size e = 0" "e_perm e = perm_of mode"
    by (rule create_run [OF N nm none])
  have a: "a = attr_for e" and s': "entries s' = bt_insert (e_ino e) e (entries s)"
    using assms(3) run by (auto simp: save_then_def save_index_eq with_new_def ret_def elim!: bindE_InrE split: prod.splits sum.splits)
  have "fs_ok P cr N s'"
    using serve_served [OF ok N _ assms(2), of C w "ReplyCreated ttl a g fh fl" s' w'] assms(1,3)
    by (simp add: served_def mounted_def)
  note D' = fs_okD [OF this]
  have "e_ino e \<noteq> FUSE_ROOT_ID"
    using fs_okD(6) [OF ok] tree_ok_root [OF fs_okD(3) [OF ok]] e(1) by (force simp: entry_for_def)
  then have "find_child P cr s' p nm = Some e"
    using e(1) by (simp add: find_child_iff [OF D'(1,2)] s' bt_get_insert entry_for_def)
  with e a show ?thesis
    by (simp add: lookup_def attr_for_def file_type_def entry_for_def)
qed

theorem lookup_after_create_witness:
  "\<exists>a s' w'. create sample_prims bincode_index sample_crypto 1 [97] 420 sample_fs sample_fs_world =
     (ReplyCreated TTL a 0 0 0, s', w') \<and> lookup sample_prims sample_crypto s' 1 [97] = ReplyEntry TTL a 0"
proof -
  obtain a s' w' where run: "create sample_prims bincode_index sample_crypto 1 [97] 420 sample_fs sample_fs_world =
     (ReplyCreated TTL a 0 0 0, s', w')" using sample_create by blast
  have adm: "admissible sample_names (Create 1 [97] 420) (ns_of sample_prims sample_crypto sample_fs)"
    by (simp add: sample_mounted(2) may_add_def FUSE_ROOT_ID_def sample_names_def utf8_unit_def)
  from lookup_after_create [OF sample_mounted(1) adm run] run show ?thesis by blast
qed

end
