(* ===== verification/Scheduling.thy ===== *)
theory Scheduling
  imports Wrapper Durability "HOL-Library.Multiset"
begin

text \<open>
  The dispatcher and the workers of \<open>Wrapper\<close> under every interleaving: locks, replies, progress and the
  end of an unmount.  Nothing here depends on what the jobs do to files.
\<close>

section \<open>Runs of a transition system\<close>

inductive run :: "('s \<Rightarrow> 'e \<Rightarrow> 's \<Rightarrow> bool) \<Rightarrow> 's \<Rightarrow> 'e list \<Rightarrow> 's \<Rightarrow> bool" for stp where
  run_nil: "run stp s [] s"
| run_cons: "stp s e s' \<Longrightarrow> run stp s' es s'' \<Longrightarrow> run stp s (e # es) s''"

inductive_simps run_Nil_iff: "run stp s [] s'"
inductive_simps run_Cons_iff: "run stp s (e # es) s'"

text \<open>A relation to an abstract state that follows the events of a run.\<close>

locale simulation =
  fixes stp :: "'s \<Rightarrow> 'e \<Rightarrow> 's \<Rightarrow> bool" and rel :: "'s \<Rightarrow> 'a \<Rightarrow> bool" and spec :: "'a \<Rightarrow> 'e \<Rightarrow> 'a"
  assumes sim: "rel s a \<Longrightarrow> stp s e s' \<Longrightarrow> rel s' (spec a e)"
begin

lemma run_sim: "run stp s es s' \<Longrightarrow> rel s a \<Longrightarrow> rel s' (foldl spec a es)"
  by (induction arbitrary: a rule: run.induct) (auto dest: sim)

end

locale invariant =
  fixes stp :: "'s \<Rightarrow> 'e \<Rightarrow> 's \<Rightarrow> bool" and inv :: "'s \<Rightarrow> bool"
  assumes keep: "inv s \<Longrightarrow> stp s e s' \<Longrightarrow> inv s'"

sublocale invariant \<subseteq> simulation stp "\<lambda>s _. inv s" "\<lambda>a _. a"
  by unfold_locales (rule keep)

context invariant begin

lemma run_inv: "run stp s es s' \<Longrightarrow> inv s \<Longrightarrow> inv s'"
  using run_sim by blast

end

text \<open>A measure that every step decreases bounds the length of the runs, and every run can be completed.\<close>

locale decreasing = invariant stp inv for stp :: "'s \<Rightarrow> 'e \<Rightarrow> 's \<Rightarrow> bool" and inv +
  fixes work :: "'s \<Rightarrow> nat"
  assumes less: "inv s \<Longrightarrow> stp s e s' \<Longrightarrow> work s' < work s"
begin

lemma run_bound: "run stp s es s' \<Longrightarrow> inv s \<Longrightarrow> length es + work s' \<le> work s"
proof (induction rule: run.induct)
  case (run_cons s e s' es s'')
  then show ?case using keep [of s e s'] less [of s e s'] by simp
qed simp

lemma run_completes: "inv s \<Longrightarrow> \<exists>es s'. run stp s es s' \<and> (\<forall>e s''. \<not> stp s' e s'')"
proof (induction "work s" arbitrary: s rule: less_induct)
  case less': less
  show ?case
  proof (cases "\<exists>e s'. stp s e s'")
    case True
    then obtain e s' where st: "stp s e s'" by blast
    with less'.hyps [OF less [OF less'.prems st]] keep [OF less'.prems st] show ?thesis by (blast intro: run_cons)
  next
    case False
    then show ?thesis by (blast intro: run_nil)
  qed
qed

end

section \<open>Counting workers\<close>

lemma count_update:
  "k < length xs \<Longrightarrow> length (filter Q (xs[k := x])) + (if Q (xs ! k) then 1 else 0) = length (filter Q xs) + (if Q x then 1 else 0)"
proof (induction xs arbitrary: k)
  case (Cons y ys)
  then show ?case by (cases k) auto
qed simp

lemma two_of_them:
  "i < length xs \<Longrightarrow> j < length xs \<Longrightarrow> i \<noteq> j \<Longrightarrow> Q (xs ! i) \<Longrightarrow> Q (xs ! j) \<Longrightarrow> 2 \<le> length (filter Q xs)"
proof -
  assume a: "i < length xs" "j < length xs" "i \<noteq> j" "Q (xs ! i)" "Q (xs ! j)"
  have "length (filter Q xs) = card {k. k < length xs \<and> Q (xs ! k)}" by (rule length_filter_conv_card)
  moreover have "card {i, j} \<le> card {k. k < length xs \<and> Q (xs ! k)}" using a by (intro card_mono) auto
  ultimately show ?thesis using a(3) by simp
qed

text \<open>The task a worker holds the lock for, and the task it has not replied to.\<close>

fun held :: "phase \<Rightarrow> task option" where
  "held (Locked t) = Some t"
| "held (Fetched t _) = Some t"
| "held (Transferred t _) = Some t"
| "held _ = None"

fun at_hand :: "phase \<Rightarrow> task option" where
  "at_hand (Blocked t) = Some t"
| "at_hand ph = held ph"

definition holds_for :: "bool \<Rightarrow> u64 \<Rightarrow> phase \<Rightarrow> bool" where
  "holds_for wr i ph = (case held ph of None \<Rightarrow> False | Some t \<Rightarrow> t_ino t = i \<and> wants_write t = wr)"

definition holders :: "bool \<Rightarrow> u64 \<Rightarrow> pqfs \<Rightarrow> nat" where
  "holders wr i st = length (filter (holds_for wr i) (p_workers st))"

text \<open>The lock table agrees with what the workers hold: any number of readers or a single writer.\<close>

definition locks_ok :: "pqfs \<Rightarrow> bool" where
  "locks_ok st \<longleftrightarrow> (\<forall>i. holders True i st = (if writer (lock_of st i) then 1 else 0) \<and>
     holders False i st = readers (lock_of st i) \<and> (writer (lock_of st i) \<longrightarrow> readers (lock_of st i) = 0))"

section \<open>Frames\<close>

lemma frames [simp]:
  "p_workers (send_reply n rep st) = p_workers st" "p_locks (send_reply n rep st) = p_locks st"
  "p_queue (send_reply n rep st) = p_queue st" "p_open (send_reply n rep st) = p_open st"
  "p_next (send_reply n rep st) = p_next st" "p_replies (send_reply n rep st) = p_replies st @ [(n, rep)]"
  "p_inner (send_reply n rep st) = p_inner st" "p_world (send_reply n rep st) = p_world st"
  "p_workers (set_worker k ph st) = (p_workers st)[k := ph]" "p_locks (set_worker k ph st) = p_locks st"
  "p_queue (set_worker k ph st) = p_queue st" "p_open (set_worker k ph st) = p_open st"
  "p_next (set_worker k ph st) = p_next st" "p_replies (set_worker k ph st) = p_replies st"
  "p_inner (set_worker k ph st) = p_inner st" "p_world (set_worker k ph st) = p_world st"
  "p_workers (acquire t st) = p_workers st" "p_queue (acquire t st) = p_queue st" "p_open (acquire t st) = p_open st"
  "p_next (acquire t st) = p_next st" "p_replies (acquire t st) = p_replies st"
  "p_inner (acquire t st) = p_inner st" "p_world (acquire t st) = p_world st"
  "p_workers (unlock_inode t st) = p_workers st" "p_queue (unlock_inode t st) = p_queue st" "p_open (unlock_inode t st) = p_open st"
  "p_next (unlock_inode t st) = p_next st" "p_replies (unlock_inode t st) = p_replies st"
  "p_inner (unlock_inode t st) = p_inner st" "p_world (unlock_inode t st) = p_world st"
  "p_workers (inode_lock i st) = p_workers st" "p_queue (inode_lock i st) = p_queue st" "p_open (inode_lock i st) = p_open st"
  "p_next (inode_lock i st) = p_next st" "p_replies (inode_lock i st) = p_replies st"
  "p_inner (inode_lock i st) = p_inner st" "p_world (inode_lock i st) = p_world st"
  by (simp_all add: send_reply_def set_worker_def acquire_def unlock_inode_def inode_lock_def Let_def split: option.split)

lemma lock_of_cong: "p_locks st' = p_locks st \<Longrightarrow> lock_of st' = lock_of st"
  by (simp add: lock_of_def fun_eq_iff)

lemma lock_of_frames [simp]:
  "lock_of (send_reply n rep st) = lock_of st" "lock_of (set_worker k ph st) = lock_of st"
  "lock_of (inode_lock i st) = lock_of st"
  "lock_of (acquire t st) = (lock_of st)(t_ino t := (let l = lock_of st (t_ino t) in
     if wants_write t then l\<lparr>writer := True\<rparr> else l\<lparr>readers := readers l + 1\<rparr>))"
  "lock_of (unlock_inode t st) = (lock_of st)(t_ino t := (let l = lock_of st (t_ino t) in
     if wants_write t then l\<lparr>writer := False\<rparr> else l\<lparr>readers := readers l - 1\<rparr>))"
  by (auto simp: lock_of_def acquire_def unlock_inode_def inode_lock_def Let_def fun_eq_iff lock_of_cong split: option.split)

lemma lock_of_updates [simp]:
  "lock_of (st\<lparr>p_world := w\<rparr>) = lock_of st" "lock_of (st\<lparr>p_inner := s\<rparr>) = lock_of st" "lock_of (st\<lparr>p_queue := q\<rparr>) = lock_of st"
  "lock_of (st\<lparr>p_next := n\<rparr>) = lock_of st" "lock_of (st\<lparr>p_open := b\<rparr>) = lock_of st"
  by (simp_all add: lock_of_def fun_eq_iff)

text \<open>
  A dispatched request is answered at once or queued; it leaves the workers and the locks alone.
\<close>

definition dispatched :: "nat \<Rightarrow> pqfs \<Rightarrow> pqfs \<Rightarrow> bool" where
  "dispatched n st st' \<longleftrightarrow> p_workers st' = p_workers st \<and> lock_of st' = lock_of st \<and> p_open st' = p_open st \<and>
     p_next st' = p_next st \<and>
     ((\<exists>rep. p_queue st' = p_queue st \<and> p_replies st' = p_replies st @ [(n, rep)]) \<or>
      (\<exists>t. p_queue st' = p_queue st @ [t] \<and> t_id t = n \<and> p_replies st' = p_replies st))"

lemma dispatched_reply: "dispatched n st (send_reply n rep st)" "dispatched n st (send_reply n rep (inode_lock i st))"
  by (simp_all add: dispatched_def)

lemma dispatched_inner: "dispatched n st (read_inner f n st)" "dispatched n st (write_inner h n st)" "dispatched n st (write_inner h n (inode_lock i st))"
  by (simp_all add: dispatched_def read_inner_def write_inner_def case_prod_beta)

lemma dispatched_spawn: "p_open st \<Longrightarrow> t_id t = n \<Longrightarrow> dispatched n st (spawn_job t (inode_lock i st))"
  by (simp add: dispatched_def spawn_job_def)

lemma dispatch_effect:
  assumes "p_open st"
  shows "dispatched n st (dispatch M req n st)"
  by (cases req)
    (auto simp: dispatched_reply dispatched_inner dispatched_spawn assms pqfs_read_def pqfs_write_def pqfs_setattr_def
      pqfs_fsync_def pqfs_flush_def pqfs_fsyncdir_def Let_def split: option.split entry_kind.split)

section \<open>The steps of a worker\<close>

lemma advance_cases:
  assumes "advance M k st = Some (ev, st')"
  obtains (Take) t q where "p_workers st ! k = Idle" and "p_queue st = t # q" and "ev = Internal"
      and "st' = set_worker k (Blocked t) (st\<lparr>p_queue := q\<rparr>)"
    | (Leave) "p_workers st ! k = Idle" and "p_queue st = []" and "\<not> p_open st" and "ev = Internal" and "st' = set_worker k Exited st"
    | (Lock) t where "p_workers st ! k = Blocked t" and "can_lock t st" and "ev = Internal" and "st' = set_worker k (Locked t) (acquire t st)"
    | (Read) t e f off sz rep w where "p_workers st ! k = Locked t" and "t_job t = ReadJob e f off sz"
      and "do_read (m_prims M) (m_crypto M) e f off sz (p_world st) = (rep, w)" and "ev = Internal"
      and "st' = finish k t rep (st\<lparr>p_world := w\<rparr>)"
    | (Gone) t where "p_workers st ! k = Locked t" and "wants_write t" and "bt_get (t_ino t) (entries (p_inner st)) = None"
      and "ev = Internal" and "st' = finish k t (ReplyError ENOENT) st"
    | (Fetch) t e where "p_workers st ! k = Locked t" and "wants_write t" and "bt_get (t_ino t) (entries (p_inner st)) = Some e"
      and "ev = Internal" and "st' = set_worker k (Fetched t e) st"
    | (Fail) t e code w where "p_workers st ! k = Fetched t e" and "job_io M t e (p_world st) = (Inl code, w)"
      and "ev = Internal" and "st' = finish k t (ReplyError code) (st\<lparr>p_world := w\<rparr>)"
    | (Transfer) t e r w where "p_workers st ! k = Fetched t e" and "job_io M t e (p_world st) = (Inr r, w)"
      and "ev = Changed (t_id t) (t_ino t) (job_op t)" and "st' = set_worker k (Transferred t r) (st\<lparr>p_world := w\<rparr>)"
    | (Commit) t r rep s w where "p_workers st ! k = Transferred t r" and "record_result M t r (p_inner st) (p_world st) = (rep, s, w)"
      and "ev = Internal" and "st' = finish k t rep (st\<lparr>p_inner := s, p_world := w\<rparr>)"
proof -
  have k: "k < length (p_workers st)" using assms by (simp add: advance_def split: if_splits)
  show thesis
  proof (cases "p_workers st ! k")
    case Idle
    then show thesis using assms k Take Leave by (cases "p_queue st") (auto simp: advance_def split: if_splits)
  next
    case (Blocked t)
    then show thesis using assms k Lock by (auto simp: advance_def split: if_splits)
  next
    case (Locked t)
    have st': "ev = Internal" "st' = fetch M k t st" using assms k Locked by (simp_all add: advance_def)
    show thesis
    proof (cases "t_job t")
      case (ReadJob e f off sz)
      show thesis
        by (rule Read [OF Locked ReadJob prod.collapse [symmetric] st'(1)]) (simp add: st'(2) fetch_def ReadJob case_prod_beta)
    next
      case WriteJob
      then show thesis using st' Gone [OF Locked] Fetch [OF Locked] by (auto simp: fetch_def wants_write_def split: option.splits)
    next
      case SetattrJob
      then show thesis using st' Gone [OF Locked] Fetch [OF Locked] by (auto simp: fetch_def wants_write_def split: option.splits)
    qed
  next
    case (Fetched t e)
    have st': "(ev, st') = transfer M k t e st" using assms k Fetched by (simp add: advance_def)
    obtain r w where io: "job_io M t e (p_world st) = (r, w)" by fastforce
    show thesis using st' io Fail [OF Fetched] Transfer [OF Fetched] by (cases r) (simp_all add: transfer_def)
  next
    case (Transferred t r)
    then have st': "ev = Internal" "st' = commit M k t r st" using assms k by (simp_all add: advance_def)
    obtain rep s w where rr: "record_result M t r (p_inner st) (p_world st) = (rep, s, w)" by (rule prod_cases3)
    show thesis by (rule Commit [OF Transferred rr st'(1)]) (simp add: st'(2) commit_def rr)
  next
    case Exited
    with assms k show thesis by (simp add: advance_def)
  qed
qed

text \<open>The same without what the jobs do: the phase changes, and a job that is finished is replied to.\<close>

lemma advance_moves:
  assumes "advance M k st = Some (ev, st')"
  obtains (Take) t q where "p_workers st ! k = Idle" and "p_queue st = t # q"
      and "st' = set_worker k (Blocked t) (st\<lparr>p_queue := q\<rparr>)"
    | (Leave) "p_workers st ! k = Idle" and "p_queue st = []" and "\<not> p_open st" and "st' = set_worker k Exited st"
    | (Lock) t where "p_workers st ! k = Blocked t" and "can_lock t st" and "st' = set_worker k (Locked t) (acquire t st)"
    | (Forward) t ph w where "held (p_workers st ! k) = Some t" and "held ph = Some t" and "st' = set_worker k ph (st\<lparr>p_world := w\<rparr>)"
      and "case p_workers st ! k of Locked _ \<Rightarrow> (\<exists>e. ph = Fetched t e) | Fetched _ _ \<Rightarrow> (\<exists>r. ph = Transferred t r) | _ \<Rightarrow> False"
    | (Done) t rep s w where "held (p_workers st ! k) = Some t" and "st' = finish k t rep (st\<lparr>p_inner := s, p_world := w\<rparr>)"
  using assms
proof (cases rule: advance_cases)
  case (Fetch t e)
  show thesis by (rule Forward [of t "Fetched t e" "p_world st"]) (use Fetch in simp_all)
next
  case (Transfer t e r w)
  show thesis by (rule Forward [of t "Transferred t r" w]) (use Transfer in simp_all)
next
  case (Read t e f off sz rep w)
  show thesis by (rule Done [of t rep w "p_inner st"]) (use Read in simp_all)
next
  case (Gone t)
  show thesis by (rule Done [of t "ReplyError ENOENT" "p_world st" "p_inner st"]) (use Gone in simp_all)
next
  case (Fail t e code w)
  show thesis by (rule Done [of t "ReplyError code" w "p_inner st"]) (use Fail in simp_all)
next
  case (Commit t r rep s w)
  show thesis by (rule Done [of t rep w s]) (use Commit in simp_all)
qed (use Take Leave Lock in simp_all)

lemma advance_index: "advance M k st = Some (ev, st') \<Longrightarrow> k < length (p_workers st)"
  by (simp add: advance_def split: if_splits)

section \<open>Locks\<close>

lemma holders_update:
  assumes "k < length (p_workers st)" and "p_workers st' = (p_workers st)[k := ph]"
  shows "holders wr i st' + (if holds_for wr i (p_workers st ! k) then 1 else 0) =
    holders wr i st + (if holds_for wr i ph then 1 else 0)"
  unfolding holders_def assms(2) by (rule count_update [OF assms(1)])

lemma holders_pos: "k < length (p_workers st) \<Longrightarrow> holds_for wr i (p_workers st ! k) \<Longrightarrow> 0 < holders wr i st"
  by (auto simp: holders_def filter_empty_conv dest: nth_mem)

lemma locks_ok_same:
  assumes "locks_ok st" and "k < length (p_workers st)" and "p_workers st' = (p_workers st)[k := ph]"
    and "held ph = held (p_workers st ! k)" and "lock_of st' = lock_of st"
  shows "locks_ok st'"
proof -
  have "holders wr i st' = holders wr i st" for wr i
    using holders_update [OF assms(2,3), of wr i] assms(4) by (simp add: holds_for_def)
  with assms(1,5) show ?thesis by (simp add: locks_ok_def)
qed

lemma locks_ok_advance:
  assumes ok: "locks_ok st" and adv: "advance M k st = Some (ev, st')"
  shows "locks_ok st'"
  using adv
proof (cases rule: advance_moves)
  case (Lock t)
  note k = advance_index [OF adv]
  have u: "holders wr i st' = holders wr i st + (if t_ino t = i \<and> wants_write t = wr then 1 else 0)" for wr i
    using holders_update [OF k, of st' "Locked t" wr i] Lock by (simp add: holds_for_def)
  have o: "holders True i st = (if writer (lock_of st i) then 1 else 0)" "holders False i st = readers (lock_of st i)"
    "writer (lock_of st i) \<Longrightarrow> readers (lock_of st i) = 0" for i using ok by (simp_all add: locks_ok_def)
  have l: "lock_of st' = lock_of (acquire t st)" using Lock(3) by simp
  have "holders True i st' = (if writer (lock_of st' i) then 1 else 0) \<and> holders False i st' = readers (lock_of st' i) \<and>
      (writer (lock_of st' i) \<longrightarrow> readers (lock_of st' i) = 0)" for i
    using u [of True i] u [of False i] o [of i] Lock(2) unfolding l by (auto simp: can_lock_def Let_def split: if_splits)
  then show ?thesis unfolding locks_ok_def by blast
next
  case (Done t rep s w)
  note k = advance_index [OF adv]
  have u: "holders wr i st' + (if t_ino t = i \<and> wants_write t = wr then 1 else 0) = holders wr i st" for wr i
    using holders_update [OF k, of st' Idle wr i] Done by (simp add: holds_for_def finish_def)
  have o: "holders True i st = (if writer (lock_of st i) then 1 else 0)" "holders False i st = readers (lock_of st i)"
    "writer (lock_of st i) \<Longrightarrow> readers (lock_of st i) = 0" for i using ok by (simp_all add: locks_ok_def)
  have l: "lock_of st' = lock_of (unlock_inode t st)" using Done(2) by (simp add: finish_def)
  have "holders True i st' = (if writer (lock_of st' i) then 1 else 0) \<and> holders False i st' = readers (lock_of st' i) \<and>
      (writer (lock_of st' i) \<longrightarrow> readers (lock_of st' i) = 0)" for i
    using u [of True i] u [of False i] o [of i] unfolding l by (auto simp: Let_def split: if_splits)
  then show ?thesis unfolding locks_ok_def by blast
next
  case (Forward t ph w)
  then show ?thesis by (intro locks_ok_same [OF ok advance_index [OF adv], of st' ph]) simp_all
next
  case (Take t q)
  then show ?thesis by (intro locks_ok_same [OF ok advance_index [OF adv], of st' "Blocked t"]) simp_all
next
  case Leave
  then show ?thesis by (intro locks_ok_same [OF ok advance_index [OF adv], of st' Exited]) simp_all
qed

lemma dispatched_locks_ok: "dispatched n st st' \<Longrightarrow> locks_ok st \<Longrightarrow> locks_ok st'"
  by (simp add: dispatched_def locks_ok_def holders_def)

interpretation locks: invariant "step M" locks_ok for M
proof
  fix s e s' assume ok: "locks_ok s" and st: "step M s e s'"
  from st show "locks_ok s'"
  proof cases
    case (dispatcher req)
    let ?s = "s\<lparr>p_next := p_next s + 1\<rparr>"
    have "locks_ok ?s" using ok by (simp add: locks_ok_def holders_def)
    with dispatched_locks_ok [OF dispatch_effect [of ?s "p_next s" M req]] dispatcher show ?thesis by simp
  next
    case worker
    with ok show ?thesis by (blast intro: locks_ok_advance)
  qed
qed

lemma locks_ok_new: "locks_ok (pqfs_new n inner w)"
  by (simp add: locks_ok_def pqfs_new_def holders_def holds_for_def lock_of_def rwlock_new_def filter_replicate)

section \<open>Replies\<close>

definition works_on :: "nat \<Rightarrow> phase \<Rightarrow> bool" where
  "works_on n ph = (case at_hand ph of None \<Rightarrow> False | Some t \<Rightarrow> t_id t = n)"

text \<open>How often a request occurs among the replies, in the queue and with the workers.\<close>

definition occurrences :: "nat \<Rightarrow> pqfs \<Rightarrow> nat" where
  "occurrences n st = length (filter (\<lambda>r. fst r = n) (p_replies st)) +
     length (filter (\<lambda>t. t_id t = n) (p_queue st)) + length (filter (works_on n) (p_workers st))"

definition accounted :: "pqfs \<Rightarrow> bool" where
  "accounted st \<longleftrightarrow> (\<forall>n. occurrences n st = (if n < p_next st then 1 else 0))"

lemma at_hand_held: "held ph = Some t \<Longrightarrow> at_hand ph = Some t"
  by (cases ph) simp_all

lemma works_on_simps [simp]:
  "works_on n Idle = False" "works_on n Exited = False" "works_on n (Blocked t) = (t_id t = n)" "works_on n (Locked t) = (t_id t = n)"
  "held ph = Some t \<Longrightarrow> works_on n ph = (t_id t = n)"
  by (simp_all add: works_on_def at_hand_held)

lemma occurrences_advance:
  assumes adv: "advance M k st = Some (ev, st')"
  shows "occurrences n st' = occurrences n st" and "p_next st' = p_next st" and "p_open st' = p_open st"
    and "length (p_workers st') = length (p_workers st)"
proof -
  have u: "length (filter (works_on n) ((p_workers st)[k := ph])) + (if works_on n (p_workers st ! k) then 1 else 0) =
      length (filter (works_on n) (p_workers st)) + (if works_on n ph then 1 else 0)" for ph
    by (rule count_update [OF advance_index [OF adv]])
  from adv show "occurrences n st' = occurrences n st"
  proof (cases rule: advance_moves)
    case (Take t q)
    then show ?thesis using u [of "Blocked t"] by (simp add: occurrences_def)
  next
    case Leave
    then show ?thesis using u [of Exited] by (simp add: occurrences_def)
  next
    case (Lock t)
    then show ?thesis using u [of "Locked t"] by (simp add: occurrences_def)
  next
    case (Forward t ph w)
    then show ?thesis using u [of ph] by (simp add: occurrences_def)
  next
    case (Done t rep s w)
    then show ?thesis using u [of Idle] by (auto simp: occurrences_def finish_def split: if_splits)
  qed
  from adv show "p_next st' = p_next st" "p_open st' = p_open st" "length (p_workers st') = length (p_workers st)"
    by (cases rule: advance_moves; simp add: finish_def)+
qed

interpretation replies: invariant "step M" accounted for M
proof
  fix s e s' assume ok: "accounted s" and st: "step M s e s'"
  from st show "accounted s'"
  proof cases
    case (dispatcher req)
    let ?s = "s\<lparr>p_next := p_next s + 1\<rparr>"
    have "dispatched (p_next s) ?s s'" using dispatch_effect [of ?s] dispatcher by simp
    then have "occurrences n s' = occurrences n s + (if n = p_next s then 1 else 0)" "p_next s' = p_next s + 1" for n
      by (auto simp: dispatched_def occurrences_def)
    with ok show ?thesis by (simp add: accounted_def)
  next
    case worker
    with ok show ?thesis by (simp add: accounted_def occurrences_advance)
  qed
qed

lemma accounted_new: "accounted (pqfs_new n inner w)"
  by (simp add: accounted_def occurrences_def pqfs_new_def filter_replicate)

section \<open>Progress\<close>

text \<open>A worker leaves only when the queue is closed and empty.\<close>

definition pool_ok :: "pqfs \<Rightarrow> bool" where
  "pool_ok st \<longleftrightarrow> p_workers st \<noteq> [] \<and> (Exited \<in> set (p_workers st) \<longrightarrow> \<not> p_open st \<and> p_queue st = [])"

lemma pool_ok_advance: "pool_ok st \<Longrightarrow> advance M k st = Some (ev, st') \<Longrightarrow> pool_ok st'"
proof -
  assume ok: "pool_ok st" and adv: "advance M k st = Some (ev, st')"
  have e: "Exited \<in> set ((p_workers st)[k := ph]) \<Longrightarrow> ph \<noteq> Exited \<Longrightarrow> \<not> p_open st \<and> p_queue st = []" for ph
    using ok set_update_subset_insert [of "p_workers st" k ph] by (auto simp: pool_ok_def)
  from adv show ?thesis
  proof (cases rule: advance_moves)
    case (Take t q)
    then show ?thesis using ok e [of "Blocked t"] by (auto simp: pool_ok_def)
  next
    case Leave
    then show ?thesis using ok by (simp add: pool_ok_def)
  next
    case (Lock t)
    then show ?thesis using ok e [of "Locked t"] by (auto simp: pool_ok_def)
  next
    case (Forward t ph w)
    then have "ph \<noteq> Exited" by auto
    with Forward show ?thesis using ok e [of ph] by (auto simp: pool_ok_def)
  next
    case (Done t rep s w)
    then show ?thesis using ok e [of Idle] by (auto simp: pool_ok_def finish_def)
  qed
qed

interpretation pool: invariant "step M" pool_ok for M
proof
  fix s e s' assume ok: "pool_ok s" and st: "step M s e s'"
  from st show "pool_ok s'"
  proof cases
    case (dispatcher req)
    let ?s = "s\<lparr>p_next := p_next s + 1\<rparr>"
    have "dispatched (p_next s) ?s s'" using dispatch_effect [of ?s] dispatcher by simp
    with ok dispatcher show ?thesis by (auto simp: dispatched_def pool_ok_def)
  next
    case worker
    with ok show ?thesis by (blast intro: pool_ok_advance)
  qed
qed

lemma pool_ok_new: "pool_ok (pqfs_new n inner w)"
  by (simp add: pool_ok_def pqfs_new_def)

definition outstanding :: "pqfs \<Rightarrow> bool" where
  "outstanding st \<longleftrightarrow> p_queue st \<noteq> [] \<or> list_ex (\<lambda>ph. at_hand ph \<noteq> None) (p_workers st)"

text \<open>A worker that holds a lock can always go on.\<close>

lemma held_advances: "k < length (p_workers st) \<Longrightarrow> held (p_workers st ! k) \<noteq> None \<Longrightarrow> \<exists>ev st'. advance M k st = Some (ev, st')"
  by (cases "p_workers st ! k") (auto simp: advance_def split: prod.splits) 

lemma some_worker_advances:
  assumes locks: "locks_ok st" and pool: "pool_ok st" and todo: "outstanding st"
  shows "\<exists>k ev st'. advance M k st = Some (ev, st')"
proof (cases "\<exists>k < length (p_workers st). held (p_workers st ! k) \<noteq> None")
  case True
  then show ?thesis using held_advances by metis
next
  case False
  then have "holders wr i st = 0" for wr i
    by (auto simp: holders_def holds_for_def in_set_conv_nth filter_empty_conv)
  then have free: "\<not> writer (lock_of st i) \<and> readers (lock_of st i) = 0" for i
    using locks by (auto simp: locks_ok_def split: if_splits)
  show ?thesis
  proof (cases "\<exists>k < length (p_workers st). at_hand (p_workers st ! k) \<noteq> None")
    case True
    then obtain k t where "k < length (p_workers st)" "p_workers st ! k = Blocked t"
      using False by (metis at_hand.elims)
    then have "advance M k st = Some (Internal, set_worker k (Locked t) (acquire t st))"
      using free by (simp add: advance_def can_lock_def)
    then show ?thesis by blast
  next
    case none: False
    then have q: "p_queue st \<noteq> []" using todo by (auto simp: outstanding_def list_ex_length)
    with pool have "0 < length (p_workers st)" "p_workers st ! 0 \<noteq> Exited" by (auto simp: pool_ok_def) (metis hd_conv_nth hd_in_set)
    moreover have "p_workers st ! 0 = Idle" using calculation none by (cases "p_workers st ! 0") auto
    ultimately have "advance M 0 st \<noteq> None" using q by (simp add: advance_def split: list.split)
    then show ?thesis by auto
  qed
qed

section \<open>Draining\<close>

definition work_step :: "mount_env \<Rightarrow> pqfs \<Rightarrow> event \<Rightarrow> pqfs \<Rightarrow> bool" where
  "work_step M st ev st' \<longleftrightarrow> (\<exists>k < length (p_workers st). advance M k st = Some (ev, st'))"

fun phase_work :: "phase \<Rightarrow> nat" where
  "phase_work Exited = 0"
| "phase_work Idle = 1"
| "phase_work (Transferred _ _) = 2"
| "phase_work (Fetched _ _) = 3"
| "phase_work (Locked _) = 4"
| "phase_work (Blocked _) = 5"

definition work_left :: "pqfs \<Rightarrow> nat" where
  "work_left st = 5 * length (p_queue st) + sum_list (map phase_work (p_workers st))"

lemma sum_update:
  "k < length xs \<Longrightarrow> sum_list (map f (xs[k := x])) + f (xs ! k) = sum_list (map f xs) + (f x :: nat)"
proof (induction xs arbitrary: k)
  case (Cons y ys)
  then show ?case by (cases k) (auto simp: algebra_simps)
qed simp

lemma work_decreases:
  assumes adv: "advance M k st = Some (ev, st')"
  shows "work_left st' < work_left st"
proof -
  note u = sum_update [OF advance_index [OF adv], of phase_work]
  from adv show ?thesis
  proof (cases rule: advance_moves)
    case (Take t q)
    then show ?thesis using u [of "Blocked t"] by (simp add: work_left_def)
  next
    case Leave
    then show ?thesis using u [of Exited] by (simp add: work_left_def)
  next
    case (Lock t)
    then show ?thesis using u [of "Locked t"] by (simp add: work_left_def)
  next
    case (Forward t ph w)
    then show ?thesis using u [of ph] by (cases "p_workers st ! k") (auto simp: work_left_def)
  next
    case (Done t rep s w)
    then show ?thesis using u [of Idle] by (cases "p_workers st ! k") (auto simp: work_left_def finish_def)
  qed
qed

definition orderly :: "pqfs \<Rightarrow> bool" where
  "orderly st \<longleftrightarrow> locks_ok st \<and> accounted st \<and> pool_ok st"

lemma orderly_new: "orderly (pqfs_new n inner w)"
  by (simp add: orderly_def locks_ok_new accounted_new pool_ok_new)

interpretation orderly: invariant "step M" orderly for M
  by unfold_locales (auto simp: orderly_def intro: locks.keep replies.keep pool.keep)

interpretation drain: decreasing "work_step M" orderly work_left for M
proof
  fix s e s' assume "work_step M s e s'"
  then obtain k where k: "advance M k s = Some (e, s')" by (auto simp: work_step_def)
  then show "orderly s \<Longrightarrow> orderly s'" using orderly.keep worker by blast
  show "orderly s \<Longrightarrow> work_left s' < work_left s" using work_decreases [OF k] by simp
qed

lemma orderly_close: "orderly st \<Longrightarrow> orderly (st\<lparr>p_inner := s, p_world := w, p_open := False\<rparr>)"
  by (simp add: orderly_def locks_ok_def holders_def accounted_def occurrences_def pool_ok_def)

lemma drop_closes:
  obtains s w where "drop_pqfs M st = st\<lparr>p_inner := s, p_world := w, p_open := False\<rparr>"
proof (cases "flush_index (m_prims M) (m_codec M) (m_crypto M) (p_inner st) (p_world st)")
  case (Pair r w)
  with that [of w "p_inner st"] that [of w "projr r"] show thesis by (cases r) (simp_all add: drop_pqfs_def)
qed

lemma work_step_closed: "work_step M s e s' \<Longrightarrow> p_open s' = p_open s \<and> p_next s' = p_next s \<and> length (p_workers s') = length (p_workers s)"
  by (auto simp: work_step_def occurrences_advance)

interpretation closed: invariant "work_step M" "\<lambda>st. p_open st = b \<and> p_next st = n \<and> length (p_workers st) = l" for M b n l
  by unfold_locales (auto dest: work_step_closed)

lemma count_map_fst: "count (mset (map fst xs)) n = length (filter (\<lambda>r. fst r = n) xs)"
  by (induction xs) auto

lemma accounted_all:
  assumes ok: "accounted st" and no: "\<not> outstanding st"
  shows "mset (map fst (p_replies st)) = mset [0..<p_next st]"
proof (rule multiset_eqI)
  fix n
  have "filter (works_on n) (p_workers st) = []" "p_queue st = []"
    using no by (auto simp: outstanding_def filter_empty_conv works_on_def list_ex_iff)
  then have "length (filter (\<lambda>r. fst r = n) (p_replies st)) = (if n < p_next st then 1 else 0)"
    using ok unfolding accounted_def occurrences_def by (metis add_0_right filter.simps(1) list.size(3))
  then show "count (mset (map fst (p_replies st))) n = count (mset [0..<p_next st]) n"
    by (simp add: count_map_fst distinct_count_atmost_1 del: mset_map)
qed

text \<open>When nothing can go on in a closed file system, every worker has left and every request has its reply.\<close>

lemma drained:
  assumes ok: "orderly st" and closed: "\<not> p_open st" and stuck: "\<And>ev st'. \<not> work_step M st ev st'"
  shows "p_queue st = []" and "set (p_workers st) = {Exited}" and "mset (map fst (p_replies st)) = mset [0..<p_next st]"
proof -
  have st: "advance M k st = None" for k
  proof (cases "advance M k st")
    case (Some x)
    then have "advance M k st = Some (fst x, snd x)" by simp
    with stuck [of "fst x" "snd x"] advance_index show ?thesis unfolding work_step_def by blast
  qed
  have no: "\<not> outstanding st" using some_worker_advances [of st M] ok st by (auto simp: orderly_def)
  then show q: "p_queue st = []" by (simp add: outstanding_def)
  have ex: "ph = Exited" if ph: "ph \<in> set (p_workers st)" for ph
  proof -
    obtain k where k: "k < length (p_workers st)" "p_workers st ! k = ph" using ph by (auto simp: in_set_conv_nth)
    have "at_hand ph = None" using no ph by (auto simp: outstanding_def list_ex_iff)
    then show ?thesis using st [of k] k q closed by (cases ph) (auto simp: advance_def)
  qed
  moreover have "p_workers st \<noteq> []" using ok by (simp add: orderly_def pool_ok_def)
  ultimately show ex': "set (p_workers st) = {Exited}" by (cases "p_workers st") auto
  show "mset (map fst (p_replies st)) = mset [0..<p_next st]" using accounted_all [OF _ no] ok by (simp add: orderly_def)
qed

lemma unmount_drains:
  assumes "orderly st"
  shows "run (work_step M) (drop_pqfs M st) evs' st' \<longrightarrow> length evs' \<le> work_left st"
    and "\<exists>evs' st'. run (work_step M) (drop_pqfs M st) evs' st' \<and> (\<forall>ev st''. \<not> work_step M st' ev st'')"
    and "run (work_step M) (drop_pqfs M st) evs' st' \<longrightarrow> (\<forall>ev st''. \<not> work_step M st' ev st'') \<longrightarrow>
      p_queue st' = [] \<and> set (p_workers st') = {Exited} \<and> mset (map fst (p_replies st')) = mset [0..<p_next st]"
proof -
  obtain s w where d: "drop_pqfs M st = st\<lparr>p_inner := s, p_world := w, p_open := False\<rparr>" by (rule drop_closes)
  have ok: "orderly (drop_pqfs M st)" unfolding d by (rule orderly_close [OF assms])
  have wl: "work_left (drop_pqfs M st) = work_left st" by (simp add: d work_left_def)
  show "run (work_step M) (drop_pqfs M st) evs' st' \<longrightarrow> length evs' \<le> work_left st"
    using drain.run_bound [OF _ ok, of M evs' st'] wl by auto
  show "\<exists>evs' st'. run (work_step M) (drop_pqfs M st) evs' st' \<and> (\<forall>ev st''. \<not> work_step M st' ev st'')"
    by (rule drain.run_completes [OF ok])
  show "run (work_step M) (drop_pqfs M st) evs' st' \<longrightarrow> (\<forall>ev st''. \<not> work_step M st' ev st'') \<longrightarrow>
      p_queue st' = [] \<and> set (p_workers st') = {Exited} \<and> mset (map fst (p_replies st')) = mset [0..<p_next st]"
  proof (intro impI)
    assume r: "run (work_step M) (drop_pqfs M st) evs' st'" and e: "\<forall>ev st''. \<not> work_step M st' ev st''"
    have ok': "orderly st'" using drain.run_inv [OF r ok] .
    have "\<not> p_open st' \<and> p_next st' = p_next st"
      using closed.run_inv [OF r, of False "p_next st" "length (p_workers st)"] by (simp add: d)
    with drained [OF ok', of M] e
    show "p_queue st' = [] \<and> set (p_workers st') = {Exited} \<and> mset (map fst (p_replies st')) = mset [0..<p_next st]" by simp
  qed
qed

section \<open>A small mount\<close>

definition sample_mount :: mount_env where
  "sample_mount = \<lparr>m_prims = sample_prims, m_codec = bincode_index, m_crypto = sample_crypto,
     m_full = (\<lambda>_ _. False), m_statvfs = (\<lambda>_. None)\<rparr>"

text \<open>Metadata with the root and one empty file, inode 2.\<close>

definition sample_file :: entry where
  "sample_file = \<lparr>e_ino = 2, e_parent = 1, e_name_hash = [], e_name_encrypted = [], e_content_key = [],
     e_kind = File, e_size = 0, e_perm = 420, e_uid = 0, e_gid = 0, e_times = \<lparr>atime = 0, mtime = 0, ctime = 0, crtime = 0\<rparr>,
     e_link_target = []\<rparr>"

definition sample_inner :: pqfs_inner where
  "sample_inner = \<lparr>backend = [''v''], entries = [(2, sample_file)], next_ino = 3, children = Map.empty,
     by_parent = Map.empty, dirty = False\<rparr>"

definition sample_start :: pqfs where
  "sample_start = pqfs_new 2 sample_inner (sample_world Map.empty)"

text \<open>A read of the file has been dispatched, and a worker has taken it and has the lock.\<close>

definition sample_request :: "fuse_request \<Rightarrow> pqfs \<Rightarrow> pqfs" where
  "sample_request req st = dispatch sample_mount req (p_next st) (st\<lparr>p_next := p_next st + 1\<rparr>)"

definition sample_go :: "nat \<Rightarrow> pqfs \<Rightarrow> pqfs" where
  "sample_go k st = snd (the (advance sample_mount k st))"

definition sample_busy :: pqfs where
  "sample_busy = sample_go 0 (sample_go 0 (sample_request (ReadRequest 2 0 10) sample_start))"

lemma step_run: "step M s e s' \<Longrightarrow> run (step M) s' es s'' \<Longrightarrow> run (step M) s (e # es) s''"
  by (rule run_cons)

lemmas sample_run_defs = sample_start_def pqfs_new_def sample_inner_def sample_mount_def Let_def sample_request_def sample_go_def numeral_2_eq_2
  pqfs_read_def inode_lock_def spawn_job_def bt_get_def advance_def set_worker_def acquire_def can_lock_def lock_of_def
  wants_write_def rwlock_new_def sample_file_def

lemma sample_queued:
  obtains e f where "sample_request (ReadRequest 2 0 10) sample_start = sample_start\<lparr>p_next := 1, p_locks := [2 \<mapsto> rwlock_new],
     p_queue := [\<lparr>t_id = 0, t_ino = 2, t_job = ReadJob e f 0 10\<rparr>]\<rparr>"
  by (simp add: sample_run_defs)

lemma sample_busy_run:
  obtains t where "run (step sample_mount) sample_start [Internal, Internal, Internal] sample_busy"
    and "p_workers sample_busy = [Locked t, Idle]" and "t_ino t = 2" and "\<not> wants_write t"
proof -
  obtain e f where q: "sample_request (ReadRequest 2 0 10) sample_start = sample_start\<lparr>p_next := 1, p_locks := [2 \<mapsto> rwlock_new],
     p_queue := [\<lparr>t_id = 0, t_ino = 2, t_job = ReadJob e f 0 10\<rparr>]\<rparr>" (is "_ = ?s1") by (rule sample_queued)
  let ?t = "\<lparr>t_id = 0, t_ino = 2, t_job = ReadJob e f 0 10\<rparr> :: task"
  let ?s2 = "set_worker 0 (Blocked ?t) (?s1\<lparr>p_queue := []\<rparr>)"
  let ?s3 = "set_worker 0 (Locked ?t) (acquire ?t ?s2)"
  have w: "p_workers sample_start = [Idle, Idle]" by (simp add: sample_start_def pqfs_new_def numeral_2_eq_2)
  have a1: "advance sample_mount 0 ?s1 = Some (Internal, ?s2)" by (simp add: advance_def w)
  have "lock_of ?s2 2 = rwlock_new" by (simp add: lock_of_def)
  then have a2: "advance sample_mount 0 ?s2 = Some (Internal, ?s3)"
    by (simp add: advance_def w can_lock_def wants_write_def rwlock_new_def)
  have b: "sample_busy = ?s3" by (simp only: sample_busy_def sample_go_def q a1 a2 option.sel snd_conv)
  have "step sample_mount sample_start Internal ?s1"
    unfolding q [symmetric] sample_request_def by (rule step.dispatcher) (simp_all add: sample_start_def pqfs_new_def)
  then have "run (step sample_mount) sample_start [Internal, Internal, Internal] sample_busy"
    unfolding b by (rule step_run [OF _ step_run [OF step.worker [OF a1] step_run [OF step.worker [OF a2] run_nil]]])
  then show thesis by (rule that [of ?t]) (simp_all add: b w wants_write_def)
qed

section \<open>Properties\<close>

text \<open>
  C14: writers are exclusive.  However the dispatcher and the workers interleave, at most one worker is
  inside a job that changes a file, and then no worker is inside a job that reads it.
\<close>

theorem inode_locks_exclude_writers:
  assumes "run (step M) (pqfs_new n inner w) evs st"
  shows "holders True ino st \<le> 1 \<and> (holders True ino st = 1 \<longrightarrow> holders False ino st = 0)"
  using locks.run_inv [OF assms locks_ok_new] by (auto simp: locks_ok_def)

theorem inode_locks_exclude_writers_witness:
  "run (step sample_mount) sample_start [Internal, Internal, Internal] sample_busy \<and>
   holders False 2 sample_busy = 1 \<and> holders True 2 sample_busy = 0"
proof -
  obtain t where r: "run (step sample_mount) sample_start [Internal, Internal, Internal] sample_busy"
    "p_workers sample_busy = [Locked t, Idle]" "t_ino t = 2" "\<not> wants_write t" by (rule sample_busy_run)
  then have "holders False 2 sample_busy = 1" by (simp add: holders_def holds_for_def)
  with r(1) inode_locks_exclude_writers [OF r(1) [unfolded sample_start_def], of 2] show ?thesis by auto
qed

text \<open>
  C11: every request is answered exactly once.  At any point of any run each request received so far either
  has exactly one reply, or is exactly once in the queue or with a worker and has no reply yet; a request that was not
  received has none.
\<close>

theorem requests_are_answered_once:
  assumes "run (step M) (pqfs_new n inner w) evs st"
  shows "occurrences m st = (if m < p_next st then 1 else 0) \<and>
    length (filter (\<lambda>r. fst r = m) (p_replies st)) \<le> 1 \<and>
    (\<not> outstanding st \<longrightarrow> mset (map fst (p_replies st)) = mset [0..<p_next st])"
proof -
  have ok: "accounted st" using replies.run_inv [OF assms accounted_new] .
  then have occ: "occurrences k st = (if k < p_next st then 1 else 0)" for k by (simp add: accounted_def)
  have "mset (map fst (p_replies st)) = mset [0..<p_next st]" if "\<not> outstanding st"
    by (rule accounted_all [OF ok that])
  with occ [of m] show ?thesis by (auto simp: occurrences_def split: if_splits)
qed

theorem requests_are_answered_once_witness:
  "occurrences 0 sample_busy = 1 \<and> p_next sample_busy = 1 \<and> p_replies sample_busy = []"
proof -
  obtain t where r: "run (step sample_mount) sample_start [Internal, Internal, Internal] sample_busy" by (rule sample_busy_run)
  have "p_next sample_busy = 1 \<and> p_replies sample_busy = []" by (simp add: sample_busy_def sample_run_defs)
  with requests_are_answered_once [OF r [unfolded sample_start_def], of 0] show ?thesis by simp
qed

text \<open>
  C12: no deadlock.  As long as a request is waiting for its reply, or the dispatcher is waiting for the lock of an inode, some worker can
  take a step.
\<close>

theorem no_deadlock:
  assumes "run (step M) (pqfs_new n inner w) evs st" and "outstanding st \<or> \<not> may_dispatch req st"
  shows "\<exists>k ev st'. advance M k st = Some (ev, st')"
proof -
  have ok: "locks_ok st" "pool_ok st" using orderly.run_inv [OF assms(1) orderly_new] by (simp_all add: orderly_def)
  have "outstanding st"
  proof (cases "outstanding st")
    case False
    with assms(2) obtain i where "writer (lock_of st i)" by (cases req) auto
    with ok(1) have "holders True i st = 1" by (simp add: locks_ok_def)
    then have "filter (holds_for True i) (p_workers st) \<noteq> []" by (auto simp: holders_def)
    then obtain ph where "ph \<in> set (p_workers st)" "held ph \<noteq> None" by (auto simp: filter_empty_conv holds_for_def split: option.splits)
    then show ?thesis by (auto simp: outstanding_def list_ex_iff dest: at_hand_held)
  qed
  then show ?thesis by (rule some_worker_advances [OF ok])
qed

theorem no_deadlock_witness: "outstanding sample_busy \<and> (\<exists>k ev st'. advance sample_mount k sample_busy = Some (ev, st'))"
proof -
  obtain t where r: "run (step sample_mount) sample_start [Internal, Internal, Internal] sample_busy"
    "p_workers sample_busy = [Locked t, Idle]" by (rule sample_busy_run)
  have "outstanding sample_busy" using r(2) by (simp add: outstanding_def)
  with no_deadlock [OF r(1) [unfolded sample_start_def], of StatfsRequest] show ?thesis by blast
qed

text \<open>
  C13: unmounting terminates.  When the file system is dropped in the middle of any run, the
  workers take at most \<open>work_left\<close> further steps (five for each queued job, at most five for each worker); they can run to an end, and wherever they
  end the queue is empty, all of them have left, and every request received has exactly one reply.
\<close>

theorem unmount_drains_the_queue:
  assumes "run (step M) (pqfs_new n inner w) evs st"
  shows "(\<forall>evs' st'. run (work_step M) (drop_pqfs M st) evs' st' \<longrightarrow> length evs' \<le> work_left st \<and>
      ((\<forall>ev st''. \<not> work_step M st' ev st'') \<longrightarrow>
       p_queue st' = [] \<and> set (p_workers st') = {Exited} \<and> mset (map fst (p_replies st')) = mset [0..<p_next st])) \<and>
    (\<exists>evs' st'. run (work_step M) (drop_pqfs M st) evs' st' \<and> (\<forall>ev st''. \<not> work_step M st' ev st''))"
proof -
  have ok: "orderly st" using orderly.run_inv [OF assms orderly_new] .
  have 1: "length evs' \<le> work_left st \<and> ((\<forall>ev st''. \<not> work_step M st' ev st'') \<longrightarrow>
       p_queue st' = [] \<and> set (p_workers st') = {Exited} \<and> mset (map fst (p_replies st')) = mset [0..<p_next st])"
    if "run (work_step M) (drop_pqfs M st) evs' st'" for evs' st'
    using unmount_drains(1) [OF ok, THEN mp, OF that] unmount_drains(3) [OF ok, THEN mp, OF that] by (rule conjI)
  show ?thesis by (rule conjI [OF _ unmount_drains(2) [OF ok]]) (intro allI impI 1)
qed

theorem unmount_drains_the_queue_witness:
  "\<exists>evs st. run (work_step sample_mount) (drop_pqfs sample_mount sample_busy) evs st \<and> length evs \<le> 5 \<and>
     set (p_workers st) = {Exited} \<and> map fst (p_replies st) = [0]"
proof -
  obtain t where r: "run (step sample_mount) sample_start [Internal, Internal, Internal] sample_busy"
    "p_workers sample_busy = [Locked t, Idle]" by (rule sample_busy_run)
  note d = unmount_drains_the_queue [OF r(1) [unfolded sample_start_def]]
  obtain evs st where e: "run (work_step sample_mount) (drop_pqfs sample_mount sample_busy) evs st" "\<forall>ev st''. \<not> work_step sample_mount st ev st''"
    using conjunct2 [OF d] by (elim exE conjE)
  note c = conjunct1 [OF d, THEN spec, THEN spec, THEN mp, OF e(1)]
  have n: "p_next sample_busy = 1" "p_queue sample_busy = []" by (simp_all add: sample_busy_def sample_run_defs)
  have "length evs \<le> 5" using conjunct1 [OF c] r(2) n(2) by (simp add: work_left_def)
  moreover have "set (p_workers st) = {Exited}" "mset (map fst (p_replies st)) = mset [0..<1]"
    using conjunct2 [OF c, THEN mp, OF e(2)] n(1) by simp_all
  moreover from this(2) have "map fst (p_replies st) = [0]" by (simp add: mset_single_iff del: mset_map)
  ultimately show ?thesis using e(1) by (intro exI conjI)
qed

end
