(* ===== verification/Contents.thy ===== *)
theory Contents
  imports Wrapper
begin

text \<open>
  File contents as the metadata and the data files give them: what a file contains, what the file
  operations of \<open>Ops\<close> do to it, and that the other handlers leave it alone.
\<close>

section \<open>Contents of a file\<close>

text \<open>
  \<open>carries P cr w f ck sz bs\<close>: with the encrypted content key \<open>ck\<close> and the size \<open>sz\<close> of an entry, the data
  file \<open>f\<close> stands for the contents \<open>bs\<close>.  An entry that has no content key yet has no contents.
\<close>

definition carries :: "prims \<Rightarrow> crypto \<Rightarrow> world \<Rightarrow> path \<Rightarrow> bytes \<Rightarrow> u64 \<Rightarrow> bytes \<Rightarrow> bool" where
  "carries P cr w f ck sz bs \<longleftrightarrow> unat sz = length bs \<and>
     (if ck = [] then bs = [] \<and> disk w f = None \<and> fault_free w \<and> aead_laws P
      else \<exists>key. decrypt_content_key P cr ck = Inr key \<and> holds_blocks P key w f bs)"

lemma carries_frame:
  "carries P cr w f ck sz bs \<Longrightarrow> disk w' f = disk w f \<Longrightarrow> fault_free w' \<Longrightarrow> carries P cr w' f ck sz bs"
  unfolding carries_def using blocks.holds_frame by (auto split: if_splits)

lemma carriesD: "carries P cr w f ck sz bs \<Longrightarrow> fault_free w \<and> aead_laws P \<and> length bs \<le> max_size"
  by (auto simp: carries_def holds_blocks_def split: if_splits)

lemma decrypt_content_key_nonempty: "decrypt_content_key P cr ck = Inr key \<Longrightarrow> ck \<noteq> [] \<and> length key = 32"
  by (auto simp: decrypt_content_key_def decrypt_def split: sum.splits if_splits)

text \<open>A new content key for an entry without one, and the old one otherwise.\<close>

lemma ensure_content_key_carries:
  assumes "carries P cr w f (e_content_key e) (e_size e) bs"
  obtains ck key w' where "ensure_content_key P cr e w = (Inr ck, w')" and "decrypt_content_key P cr ck = Inr key"
    and "holds_blocks P key w' f bs" and "disk w' = disk w" and "fault_free w'" and "clock w' = clock w" and "ids w' = ids w"
proof (cases "e_content_key e = []")
  case True
  have l: "aead_laws P" "fault_free w" "bs = []" using assms True by (simp_all add: carries_def)
  obtain ck w' k where ck: "bindE random_key (encrypt P cr) w = (Inr ck, w')" "disk w' = disk w" "faults w' = faults w"
    "ids w' = ids w" "clock w' = clock w" "decrypt P cr ck = Inr k" "length k = 32"
    by (rule random_sealedE [OF l(1), of cr w]) blast
  have ff: "fault_free w'" using ck(3) l(2) by (simp add: fault_free_def)
  show thesis
    by (rule that [of ck w' k])
      (use True ck l ff in \<open>simp_all add: ensure_content_key_def decrypt_content_key_def holds_blocks_def represents_def nblocks_def\<close>)
next
  case False
  with assms obtain key where "decrypt_content_key P cr (e_content_key e) = Inr key" "holds_blocks P key w f bs"
    by (auto simp: carries_def)
  with that [of "e_content_key e" w key] False carriesD [OF assms] show thesis by (simp add: ensure_content_key_def)
qed

lemma unat_of_nat_max: "n \<le> max_size \<Longrightarrow> unat (of_nat n :: u64) = n"
  by (simp add: max_size_def unat_of_nat)

lemma do_write_data_carries:
  assumes c: "carries P cr w f (e_content_key e) (e_size e) bs"
    and fits: "length (overwrite (unat (offset_or_zero off)) data bs) \<le> max_size"
  obtains ck sz w' where "do_write_data P cr e f off data w = (Inr (ck, sz), w')"
    and "carries P cr w' f ck sz (overwrite (unat (offset_or_zero off)) data bs)" and "\<forall>q. q \<noteq> f \<longrightarrow> disk w' q = disk w q"
proof -
  obtain ck key w1 where k: "ensure_content_key P cr e w = (Inr ck, w1)" "decrypt_content_key P cr ck = Inr key"
    "holds_blocks P key w1 f bs" "disk w1 = disk w" by (rule ensure_content_key_carries [OF c])
  have sz: "unat (e_size e) = length bs" using c by (simp add: carries_def)
  let ?bs = "overwrite (unat (offset_or_zero off)) data bs"
  obtain w' where w': "write_range P key f (e_size e) (offset_or_zero off) data w1 = (Inr (of_nat (length ?bs)), w')"
    "confined w1 f w'" "holds_blocks P key w' f ?bs" using blocks.wr_holds [OF k(3) sz fits] by blast
  have "do_write_data P cr e f off data w = (Inr (ck, of_nat (length ?bs)), w')"
    using k w'(1) by (simp add: do_write_data_def)
  moreover have "carries P cr w' f ck (of_nat (length ?bs)) ?bs"
    using k(2) w'(3) decrypt_content_key_nonempty [OF k(2)] unat_of_nat_max [OF fits] by (auto simp: carries_def)
  ultimately show thesis using that confinedD [OF w'(2)] k(4) by simp
qed

lemma do_truncate_carries:
  assumes c: "carries P cr w f (e_content_key e) (e_size e) bs" and fits: "unat n \<le> max_size"
  obtains ck w' where "do_truncate P cr e f n w = (Inr (ck, n), w')"
    and "carries P cr w' f ck n (resize (unat n) bs)" and "\<forall>q. q \<noteq> f \<longrightarrow> disk w' q = disk w q"
proof -
  obtain ck key w1 where k: "ensure_content_key P cr e w = (Inr ck, w1)" "decrypt_content_key P cr ck = Inr key"
    "holds_blocks P key w1 f bs" "disk w1 = disk w" by (rule ensure_content_key_carries [OF c])
  have sz: "unat (e_size e) = length bs" using c by (simp add: carries_def)
  obtain w' where w': "Blocks.truncate P key f (e_size e) n w1 = (Inr (), w')"
    "confined w1 f w'" "holds_blocks P key w' f (resize (unat n) bs)" using blocks.tr_holds [OF k(3) sz fits] by blast
  have "do_truncate P cr e f n w = (Inr (ck, n), w')" using k w'(1) by (simp add: do_truncate_def split: unit.split)
  moreover have "carries P cr w' f ck n (resize (unat n) bs)"
    using k(2) w'(3) decrypt_content_key_nonempty [OF k(2)] by (auto simp: carries_def)
  ultimately show thesis using that confinedD [OF w'(2)] k(4) by simp
qed

text \<open>Reading with the entry that describes the contents returns them.\<close>

lemma do_read_carries:
  assumes c: "carries P cr w f (e_content_key e) (e_size e) bs" and bound: "unat (offset_or_zero off) + unat len < 2 ^ 64"
  obtains w' where "do_read P cr e f off len w = (ReplyData (segment bs (unat (offset_or_zero off)) (unat len)), w')" and "quiet w w'"
proof (cases "disk w f = None")
  case True
  then have "bs = []"
    using c by (auto simp: carries_def holds_blocks_def represents_def file_bytes_def block_ok_def nblocks_zero
        dest!: spec [of _ 0] split: if_splits)
  with that [of w] True quiet_refl carriesD [OF c] show thesis by (simp add: do_read_def fs_exists_def segment_def)
next
  case False
  with c obtain key where k: "decrypt_content_key P cr (e_content_key e) = Inr key" "holds_blocks P key w f bs" "unat (e_size e) = length bs"
    by (auto simp: carries_def split: if_splits)
  have "unat len < 2 ^ 64" using unsigned_less [of len, where ?'a = nat] by simp
  then have "unat (ucast len :: u64) = unat len" by (simp add: unsigned_ucast_eq take_bit_nat_eq_self)
  with blocks.rd_holds [OF k(2,3), of "offset_or_zero off" "ucast len"] bound
  obtain w' where "read_range P key f (e_size e) (offset_or_zero off) (ucast len) w = (Inr (segment bs (unat (offset_or_zero off)) (unat len)), w')" "quiet w w'"
    by auto
  with that [of w'] k False show thesis by (simp add: do_read_def fs_exists_def)
qed

section \<open>What file operations leave alone\<close>

text \<open>\<open>only_file f d w\<close>: no file operation fails, and the files other than \<open>f\<close> are those of \<open>d\<close>.\<close>

definition only_file :: "path \<Rightarrow> (path \<rightharpoonup> bytes) \<Rightarrow> world \<Rightarrow> bool" where
  "only_file f d w \<longleftrightarrow> fault_free w \<and> (\<forall>q. q \<noteq> f \<longrightarrow> disk w q = d q)"

lemma only_file_tick [simp]: "only_file f d w \<Longrightarrow> only_file f d (tick w)"
  by (simp add: only_file_def)

lemma only_file_basic:
  "preserves (only_file f d) (fs_open_rw f)" "preserves (only_file f d) (fs_write_all_at f off ys)"
  "preserves (only_file f d) (fs_set_len f n)" "preserves (only_file f d) (fill_bytes k)"
proof -
  show "preserves (only_file f d) (fs_open_rw f)"
    unfolding fs_open_rw_def by (intro preserves_intros) (auto simp: preserves_def only_file_def split: option.splits)
  show "preserves (only_file f d) (fs_write_all_at f off ys)"
    unfolding fs_write_all_at_def by (intro preserves_intros) (auto simp: preserves_def only_file_def split: option.splits)
  show "preserves (only_file f d) (fs_set_len f n)"
    unfolding fs_set_len_def by (intro preserves_intros) (auto simp: preserves_def only_file_def split: option.splits)
  show "preserves (only_file f d) (fill_bytes k)" by (simp add: preserves_def fill_bytes_def only_file_def)
qed

lemma only_file_read: "preserves (only_file f d) (read_block P key f sz i)"
  unfolding read_block_def by (intro preserves_intros preserves_read_only) simp_all

lemma only_file_write_block: "preserves (only_file f d) (write_block P key f i pl)"
  unfolding write_block_def encrypt_block_def random_nonce_def by (intro preserves_intros only_file_basic)

lemma only_file_write_blocks: "preserves (only_file f d) (write_blocks P key f sz new_size old_blocks offset data ixs)"
proof (induction ixs)
  case (Cons i ixs)
  then show ?case
    unfolding write_blocks.simps by (intro preserves_intros only_file_read only_file_write_block) simp_all
qed (simp add: preserves_intros)

lemma only_file_write_range: "preserves (only_file f d) (write_range P key f sz offset data)"
  unfolding write_range_def by (intro preserves_intros only_file_write_blocks only_file_basic)

lemma only_file_truncate: "preserves (only_file f d) (Blocks.truncate P key f sz n)"
  unfolding Blocks.truncate_def
  by (intro preserves_intros only_file_write_range only_file_basic only_file_read only_file_write_block)

lemma only_file_ensure: "ensure_content_key P cr e w = (r, w') \<Longrightarrow> only_file f d w \<Longrightarrow> only_file f d w'"
proof -
  have "preserves (only_file f d) (bindE random_key (encrypt P cr))"
    unfolding random_key_def encrypt_def random_nonce_def by (intro preserves_intros only_file_basic)
  then show "ensure_content_key P cr e w = (r, w') \<Longrightarrow> only_file f d w \<Longrightarrow> only_file f d w'"
    by (fastforce simp: ensure_content_key_def preserves_def split: if_splits prod.splits sum.splits)
qed

lemma preservesD: "preserves I m \<Longrightarrow> I w \<Longrightarrow> m w = (r, w') \<Longrightarrow> I w'"
  unfolding preserves_def by (metis snd_conv)

lemma only_file_do_write: "do_write_data P cr e f off data w = (r, w') \<Longrightarrow> only_file f d w \<Longrightarrow> only_file f d w'"
  by (auto simp: do_write_data_def split: prod.splits sum.splits dest!: only_file_ensure
      dest: preservesD [OF only_file_write_range])

lemma only_file_do_truncate: "do_truncate P cr e f n w = (r, w') \<Longrightarrow> only_file f d w \<Longrightarrow> only_file f d w'"
  by (auto simp: do_truncate_def split: prod.splits sum.splits unit.splits dest!: only_file_ensure
      dest: preservesD [OF only_file_truncate])

text \<open>Reading changes no file.\<close>

lemma preserves_read_range:
  assumes "\<And>w. I w \<Longrightarrow> I (tick w)"
  shows "preserves I (read_range P key f sz off len)"
proof -
  have "preserves I (read_blocks P key f sz off e ixs out)" for e ixs out
  proof (induction ixs arbitrary: out)
    case (Cons i ixs)
    then show ?case
      unfolding read_blocks.simps read_block_def Let_def by (intro preserves_intros preserves_read_only assms) auto
  qed (simp add: preserves_intros)
  then show ?thesis
    unfolding read_range_def Let_def by (intro preserves_intros preserves_read_only assms) auto
qed

lemma do_read_keeps:
  assumes "do_read P cr e f off len w = (r, w')" and "I w" and "\<And>w. I w \<Longrightarrow> I (tick w)"
  shows "I w'"
  using assms(1,2) preservesD [OF preserves_read_range [of I, OF assms(3)]]
  by (auto simp: do_read_def split: if_splits sum.splits prod.splits)

section \<open>What metadata requests leave alone\<close>

definition content_of :: "entry \<Rightarrow> entry_kind \<times> u64 \<times> bytes" where
  "content_of e = (e_kind e, e_size e, e_content_key e)"

text \<open>Entries that stay keep kind, size and content key; a new file is empty and has a content key.\<close>

definition keeps_contents :: "prims \<Rightarrow> crypto \<Rightarrow> pqfs_inner \<Rightarrow> pqfs_inner \<Rightarrow> bool" where
  "keeps_contents P cr s s' \<longleftrightarrow> backend s' = backend s \<and> next_ino s \<le> next_ino s' \<and>
     (\<forall>i e'. bt_get i (entries s') = Some e' \<longrightarrow> (case bt_get i (entries s) of
        Some e \<Rightarrow> content_of e' = content_of e
      | None \<Rightarrow> next_ino s \<le> i \<and> (e_kind e' = File \<longrightarrow> e_size e' = 0 \<and> (\<exists>k. decrypt_content_key P cr (e_content_key e') = Inr k))))"

lemma keeps_contents_refl: "keeps_contents P cr s s"
  by (simp add: keeps_contents_def split: option.split)

lemma keeps_contents_cong:
  "entries s'' = entries s' \<Longrightarrow> backend s'' = backend s' \<Longrightarrow> next_ino s'' = next_ino s' \<Longrightarrow>
   keeps_contents P cr s s'' = keeps_contents P cr s s'"
  by (simp add: keeps_contents_def)

lemma keeps_contents_map:
  assumes "\<And>i e'. bt_get i (entries s') = Some e' \<Longrightarrow> \<exists>e. bt_get i (entries s) = Some e \<and> content_of e' = content_of e"
    and "backend s' = backend s" and "next_ino s' = next_ino s"
  shows "keeps_contents P cr s s'"
  using assms by (auto simp: keeps_contents_def dest!: assms(1))

lemma save_then_state:
  assumes "save_then P C cr rep s1 w1 = (rep', s', w')"
  shows "entries s' = entries s1" "backend s' = backend s1" "next_ino s' = next_ino s1" "children s' = children s1" "by_parent s' = by_parent s1"
proof -
  have "s' = s1 \<or> s' = s1\<lparr>dirty := False\<rparr>"
    using assms by (auto simp: save_then_def save_index_eq ret_def elim!: bindE_InrE split: prod.splits sum.splits)
  then show "entries s' = entries s1" "backend s' = backend s1" "next_ino s' = next_ino s1" "children s' = children s1" "by_parent s' = by_parent s1"
    by auto
qed

lemma keeps_contents_save: "keeps_contents P cr s s1 \<Longrightarrow> save_then P C cr rep s1 w1 = (rep', s', w') \<Longrightarrow> keeps_contents P cr s s'"
  using save_then_state [of P C cr rep s1 w1 rep' s' w'] keeps_contents_cong [of s' s1 P cr s] by simp

lemma insert_entry_sel:
  "entries (insert_entry e s) = bt_insert (e_ino e) e (entries s)" "backend (insert_entry e s) = backend s"
  "next_ino (insert_entry e s) = next_ino s"
  by (simp_all add: insert_entry_def Let_def link_def split: option.split)

lemma keeps_contents_with_new:
  assumes "e_ino e = next_ino s" and "unat (next_ino s) + 1 < 2 ^ 64" and "\<And>i e. bt_get i (entries s) = Some e \<Longrightarrow> i < next_ino s"
    and "e_kind e = File \<Longrightarrow> e_size e = 0 \<and> (\<exists>k. decrypt_content_key P cr (e_content_key e) = Inr k)"
  shows "keeps_contents P cr s (with_new e s)"
proof -
  have "next_ino s \<le> next_ino s + 1" using assms(2) by (simp add: word_le_nat_alt unat_plus_simple unat_word_ariths)
  with assms show ?thesis
    by (auto simp: keeps_contents_def with_new_def insert_entry_sel bt_get_insert split: option.split)
qed

lemma remove_entry_sel:
  "bt_get i (entries (snd (remove_entry j s))) = (if i = j then None else bt_get i (entries s))"
  "backend (snd (remove_entry j s)) = backend s" "next_ino (snd (remove_entry j s)) = next_ino s"
  by (auto simp: remove_entry_def bt_get_remove split: option.split)

lemma keeps_contents_remove: "keeps_contents P cr s (snd (remove_entry j s))"
  by (rule keeps_contents_map) (auto simp: remove_entry_sel bt_get_remove split: if_splits)

lemma relink_sel:
  "backend (fst (relink i p h n s w)) = backend s" "next_ino (fst (relink i p h n s w)) = next_ino s"
  "bt_get j (entries (fst (relink i p h n s w))) = Some e' \<Longrightarrow> \<exists>e. bt_get j (entries s) = Some e \<and> content_of e' = content_of e"
  by (auto simp: relink_def Let_def case_prod_beta bt_get_insert link_def content_of_def split: option.splits if_splits)

lemma rename_cases:
  assumes run: "rename P C cr par name np nm s w = (rep, s', w')"
  obtains (Refused) "s' = s" and "w' = w"
    | (Tail) i where "rename_tail P C cr i np (to_string_lossy nm) s w = (rep, s', w')"
    | (Replaced) i j where "rename_tail P C cr i np (to_string_lossy nm) (snd (remove_entry j s)) (remove_data (data_path s j) w) = (rep, s', w')"
proof (cases "find_child P cr s par name")
  case None
  with run Refused show ?thesis by (simp add: rename_def)
next
  case src: (Some src)
  show ?thesis
  proof (cases "bt_get np (entries s)")
    case None
    with run src Refused show ?thesis by (simp add: rename_def)
  next
    case e: (Some e)
    show ?thesis
    proof (cases "e_kind e = Dir \<and> \<not> (e_kind src = Dir \<and> is_descendant_of s np (e_ino src))")
      case False
      then have "s' = s \<and> w' = w" using run src e by (cases "e_kind e = Dir") (simp_all add: rename_def)
      then show ?thesis using Refused by blast
    next
      case True
      note req = rename_eq [OF src e conjunct1 [OF True] conjunct2 [OF True], where os' = nm and C = C and w = w]
      show ?thesis
      proof (cases "find_child P cr s np nm")
        case None
        from run show ?thesis unfolding req(1) [OF None] by (rule Tail)
      next
        case (Some ex)
        consider (same) "e_ino ex = e_ino src"
          | (fit) "e_ino ex \<noteq> e_ino src" "e_kind ex = Dir \<longleftrightarrow> e_kind src = Dir" "\<not> (e_kind ex = Dir \<and> has_children s (e_ino ex))"
          | (full) "e_ino ex \<noteq> e_ino src" "e_kind src = Dir" "e_kind ex = Dir" "has_children s (e_ino ex)"
          | (kind) "e_ino ex \<noteq> e_ino src" "e_kind src = Dir \<and> e_kind ex \<noteq> Dir \<or> e_kind src \<noteq> Dir \<and> e_kind ex = Dir" by blast
        then show ?thesis
        proof cases
          case same
          from run show ?thesis unfolding req(2) [OF Some same] by (rule Tail)
        next
          case fit
          from run show ?thesis unfolding req(3) [OF Some fit] by (rule Replaced)
        next
          case full
          with src e True Some run have "s' = s \<and> w' = w" by (simp add: rename_def)
          then show ?thesis using Refused by blast
        next
          case kind
          from kind(2) have "s' = s \<and> w' = w" using src e True Some run kind(1) by (elim disjE conjE) (simp_all add: rename_def)
          then show ?thesis using Refused by blast
        qed
      qed
    qed
  qed
qed

lemma keeps_contents_tail:
  assumes "rename_tail P C cr i np nm s1 w1 = (rep, s', w')" and s1: "s1 = s \<or> s1 = snd (remove_entry j s)"
  shows "keeps_contents P cr s s'"
proof -
  have r: "keeps_contents P cr s (fst (relink i p h ne s1 w2))" for p h ne w2
    by (rule keeps_contents_map)
      (use s1 relink_sel(1,2) [of i p h ne s1 w2] in \<open>auto simp: remove_entry_sel bt_get_remove dest!: relink_sel(3) split: if_splits\<close>)
  have "s' = s1 \<or> (\<exists>p h ne w2 w3. save_then P C cr ReplyOk (fst (relink i p h ne s1 w2)) w3 = (rep, s', w'))"
    using assms(1) by (auto simp: rename_tail_def case_prod_beta split: sum.splits prod.splits)
  then show ?thesis
  proof (elim disjE exE)
    assume "s' = s1"
    with s1 show ?thesis by (elim disjE) (simp_all add: keeps_contents_refl keeps_contents_remove)
  next
    fix p h ne w2 w3 assume "save_then P C cr ReplyOk (fst (relink i p h ne s1 w2)) w3 = (rep, s', w')"
    with r show ?thesis by (rule keeps_contents_save)
  qed
qed

lemma keeps_contents_rename:
  assumes "rename P C cr par name np nm s w = (rep, s', w')"
  shows "keeps_contents P cr s s'"
  using assms
proof (cases rule: rename_cases)
  case Refused
  then show ?thesis by (simp add: keeps_contents_refl)
next
  case Tail
  then show ?thesis by (rule keeps_contents_tail) (rule disjI1, rule refl)
next
  case Replaced
  then show ?thesis by (rule keeps_contents_tail) (rule disjI2, rule refl)
qed

lemma serve_keeps_contents:
  assumes ok: "fs_ok P cr N s" and N: "name_space P cr N" and adm: "admissible N r (ns_of P cr s)"
    and run: "serve P C cr r s w = (rep, s', w')"
  shows "keeps_contents P cr s s'"
proof -
  note below = fs_okD(6) [OF ok]
  have new: "keeps_contents P cr s s'"
    if "save_then P C cr rp (with_new e s) w1 = (rep, s', w')" "entry_for P cr s p nm' e" "unat (next_ino s) + 1 < 2 ^ 64"
      "e_kind e = File \<longrightarrow> e_size e = 0 \<and> (\<exists>k. decrypt_content_key P cr (e_content_key e) = Inr k)" for rp e w1 p nm'
    by (rule keeps_contents_save [OF keeps_contents_with_new that(1)]) (use that below in \<open>auto simp: entry_for_def\<close>)
  have may: "to_string_lossy nm \<in> N \<and> unat (next_ino s) + 1 < 2 ^ 64" if "may_add N p nm (ns_of P cr s)" for p nm
    using that by (simp add: may_add_def)
  show ?thesis
  proof (cases r)
    case (Create p nm mode)
    then have m: "to_string_lossy nm \<in> N" "unat (next_ino s) + 1 < 2 ^ 64" using adm may by auto
    show ?thesis
    proof (cases "find_child P cr s p nm")
      case None
      obtain e w1 where "create P C cr p nm mode s w = save_then P C cr (ReplyCreated TTL (attr_for e) 0 0 0) (with_new e s) w1"
        "entry_for P cr s p (to_string_lossy nm) e" "e_kind e = File" "e_size e = 0"
        "\<exists>k. decrypt_content_key P cr (e_content_key e) = Inr k \<and> length k = 32" by (rule create_run [OF N m(1) None])
      with new m(2) run Create show ?thesis by (metis serve.simps(1))
    next
      case (Some x)
      with run Create show ?thesis by (auto simp: create_def keeps_contents_refl)
    qed
  next
    case (Mkdir p nm mode)
    then have m: "to_string_lossy nm \<in> N" "unat (next_ino s) + 1 < 2 ^ 64" using adm may by auto
    show ?thesis
    proof (cases "find_child P cr s p nm")
      case None
      obtain e w1 where "mkdir P C cr p nm mode s w = save_then P C cr (ReplyEntry TTL (attr_for e) 0) (with_new e s) w1"
        "entry_for P cr s p (to_string_lossy nm) e" "e_kind e = Dir" by (rule mkdir_run [OF N m(1) None])
      with new [of _ e] m(2) run Mkdir show ?thesis by fastforce
    next
      case (Some x)
      with run Mkdir show ?thesis by (auto simp: mkdir_def keeps_contents_refl)
    qed
  next
    case (MakeSymlink p nm target)
    then have m: "to_string_lossy nm \<in> N" "unat (next_ino s) + 1 < 2 ^ 64" "length (to_string_lossy target) \<le> aead_max"
      using adm may by auto
    show ?thesis
    proof (cases "find_child P cr s p nm")
      case None
      obtain e w1 where "symlink P C cr p nm target s w = save_then P C cr (ReplyEntry TTL (attr_for e) 0) (with_new e s) w1"
        "entry_for P cr s p (to_string_lossy nm) e" "e_kind e = Symlink" by (rule symlink_run [OF N m(1) None m(3)])
      with new [of _ e] m(2) run MakeSymlink show ?thesis by fastforce
    next
      case (Some x)
      with run MakeSymlink show ?thesis by (auto simp: symlink_def keeps_contents_refl)
    qed
  next
    case (Unlink p nm)
    with run show ?thesis
      by (auto simp: unlink_def Let_def keeps_contents_refl dest!: keeps_contents_save [OF keeps_contents_remove]
          split: option.splits if_splits)
  next
    case (Rmdir p nm)
    with run show ?thesis
      by (auto simp: rmdir_def Let_def keeps_contents_refl dest!: keeps_contents_save [OF keeps_contents_remove]
          split: option.splits if_splits)
  next
    case (Rename p nm p' nm')
    with run show ?thesis by (auto intro: keeps_contents_rename)
  qed
qed

section \<open>What saving and syncing leave alone\<close>

lemma fault_free_random: "preserves fault_free (fill_bytes n)"
  by (simp add: preserves_def fill_bytes_def)

lemma fault_free_write:
  "preserves fault_free (fs_create f)" "preserves fault_free (fs_write_all_at f off ys)" "preserves fault_free (fs_rename f g)"
  unfolding fs_create_def fs_write_all_at_def fs_rename_def
  by (intro preserves_intros fault_free_tick; auto simp: preserves_def split: option.splits)+

lemma fault_free_encrypt: "preserves fault_free (encrypt P cr pl)"
  unfolding encrypt_def random_nonce_def by (intro preserves_intros fault_free_random)

lemma fault_free_replace: "preserves fault_free (replace_file tmp f dir bs)"
  unfolding replace_file_def
  by (intro preserves_intros fault_free_write preserves_read_only) simp_all

lemma fault_free_save_index: "preserves fault_free (save_index P C cr s)"
  unfolding save_index_eq by (intro preserves_intros fault_free_encrypt fault_free_replace)

section \<open>What the handlers keep\<close>

text \<open>
  \<open>keeps P cr N s w s' w'\<close>: the metadata stays well formed, files keep their contents as the entries
  describe them, the data files of inodes that are left are untouched, and file operations still succeed.
\<close>

definition keeps :: "prims \<Rightarrow> crypto \<Rightarrow> bytes set \<Rightarrow> pqfs_inner \<Rightarrow> world \<Rightarrow> pqfs_inner \<Rightarrow> world \<Rightarrow> bool" where
  "keeps P cr N s w s' w' \<longleftrightarrow> fs_ok P cr N s' \<and> keeps_contents P cr s s' \<and> fault_free w' \<and>
     (\<forall>i. bt_get i (entries s') \<noteq> None \<longrightarrow> disk w' (data_path s i) = disk w (data_path s i))"

lemma fault_free_save_then: "save_then P C cr rep s w = (rep', s', w') \<Longrightarrow> fault_free w \<Longrightarrow> fault_free w'"
  using preservesD [OF fault_free_save_index, of w P C cr s]
  by (cases "save_index P C cr s w") (auto simp: save_then_def split: sum.splits)

lemma serve_keeps:
  assumes ok: "fs_ok P cr N s" and N: "name_space P cr N" and C: "codec_laws entries_wf C"
    and adm: "admissible N r (ns_of P cr s)" and ff: "fault_free w" and run: "serve P C cr r s w = (rep, s', w')"
  shows "keeps P cr N s w s' w'"
proof -
  have "fault_free w'"
    using serve_implements [OF ok N adm, of C w] ff unfolding implements_def run
    by (elim disjE exE conjE) (metis prod.inject fault_free_save_then)+
  then show ?thesis
    using serve_served [OF ok N C adm run] serve_keeps_contents [OF ok N adm run] by (simp add: keeps_def served_def)
qed

text \<open>Saving the index.\<close>

lemma save_index_keeps:
  assumes ok: "fs_ok P cr N s" and N: "name_space P cr N" and C: "codec_laws entries_wf C"
    and ff: "fault_free w" and run: "save_index P C cr s w = (r, w')"
  shows "fault_free w'" and "disk w' (data_path s i) = disk w (data_path s i)" and "r = Inr s' \<Longrightarrow> s' = s\<lparr>dirty := False\<rparr>"
proof -
  have P: "aead_laws P" using N by (simp add: name_space_def)
  note out = save_index_outcome [OF P C fs_ok_entries_wf [OF N ok] run]
  show "fault_free w'" using preservesD [OF fault_free_save_index ff run] .
  show "disk w' (data_path s i) = disk w (data_path s i)" using out(1) by (simp add: saved_def)
  show "r = Inr s' \<Longrightarrow> s' = s\<lparr>dirty := False\<rparr>" by (rule out(2))
qed

lemma keeps_clean: "fs_ok P cr N s \<Longrightarrow> fault_free w' \<Longrightarrow> (\<And>i. disk w' (data_path s i) = disk w (data_path s i)) \<Longrightarrow>
  keeps P cr N s w (s\<lparr>dirty := b\<rparr>) w'"
  using keeps_contents_refl [of P cr s] keeps_contents_cong [of "s\<lparr>dirty := b\<rparr>" s P cr s] by (simp add: keeps_def)

lemma keeps_refl: "fs_ok P cr N s \<Longrightarrow> fault_free w \<Longrightarrow> keeps P cr N s w s w"
  by (simp add: keeps_def keeps_contents_refl)

lemma flush_keeps:
  assumes ok: "fs_ok P cr N s" and N: "name_space P cr N" and C: "codec_laws entries_wf C"
    and ff: "fault_free w" and run: "flush_reply P C cr s w = (rep, s', w')"
  shows "keeps P cr N s w s' w'"
proof (cases "dirty s")
  case True
  obtain r w1 where sv: "save_index P C cr s w = (r, w1)" by fastforce
  note k = save_index_keeps [OF ok N C ff sv]
  from run True sv have w1: "w' = w1" and s': "s' = (case r of Inl _ \<Rightarrow> s | Inr s' \<Rightarrow> s')"
    by (auto simp: flush_reply_def flush_index_def split: sum.splits)
  have "s' = s \<or> s' = s\<lparr>dirty := False\<rparr>" using s' k(3) by (cases r) auto
  then show ?thesis
    using keeps_clean [OF ok k(1,2), of False] keeps_clean [OF ok k(1,2), of "dirty s"] w1 by auto
next
  case False
  with run have "s' = s" "w' = w" by (simp_all add: flush_reply_def flush_index_def ret_def)
  then show ?thesis using keeps_refl [OF ok ff] by simp
qed

lemma sync_keeps:
  assumes "sync f w = (r, w')" and "fault_free w"
  shows "fault_free w'" and "disk w' = disk w"
proof -
  define I where "I = (\<lambda>v. fault_free v \<and> disk v = disk w)"
  have t: "I v \<Longrightarrow> I (tick v)" for v by (simp add: I_def)
  have "preserves I (bindE (fs_open f) (\<lambda>_. fs_sync_all f))"
    by (intro preserves_bindE preserves_read_only t)
  moreover have "I w" using assms(2) by (simp add: I_def)
  ultimately have "I w'"
    using assms(1) preservesD [of I "bindE (fs_open f) (\<lambda>_. fs_sync_all f)" w r w']
    by (cases "fs_exists f w") (simp_all add: sync_def ret_def)
  then show "fault_free w'" "disk w' = disk w" by (simp_all add: I_def)
qed

lemma sync_and_flush_keeps:
  assumes ok: "fs_ok P cr N s" and N: "name_space P cr N" and C: "codec_laws entries_wf C"
    and ff: "fault_free w" and run: "sync_and_flush P C cr ino s w = (rep, s', w')"
  shows "keeps P cr N s w s' w'"
proof -
  obtain r w1 where sy: "sync (data_path s ino) w = (r, w1)" by fastforce
  note k = sync_keeps [OF sy ff]
  have "s' = s \<and> w' = w1 \<or> flush_reply P C cr s w1 = (rep, s', w')"
    using run sy by (auto simp: sync_and_flush_def split: sum.splits)
  then have "keeps P cr N s w1 s' w'"
    using flush_keeps [OF ok N C k(1)] keeps_refl [OF ok k(1)] by auto
  with k(2) show ?thesis by (simp add: keeps_def)
qed

text \<open>Changing an entry without moving or renaming it.\<close>

definition same_place :: "entry \<Rightarrow> entry \<Rightarrow> bool" where
  "same_place e e' \<longleftrightarrow> e_ino e' = e_ino e \<and> e_parent e' = e_parent e \<and> e_name_hash e' = e_name_hash e \<and>
     e_name_encrypted e' = e_name_encrypted e \<and> e_kind e' = e_kind e \<and> e_link_target e' = e_link_target e"

lemma fs_ok_set_entry:
  assumes ok: "fs_ok P cr N s" and e: "bt_get ino (entries s) = Some e" and p: "same_place e e'"
    and ck: "vec_ok (e_content_key e')"
  shows "fs_ok P cr N (set_entry ino e' s)"
proof -
  let ?m = "bt_insert ino e' (entries s)"
  note D = fs_okD [OF ok]
  have get: "bt_get i ?m = Some x \<Longrightarrow> \<exists>y. bt_get i (entries s) = Some y \<and> same_place y x" for i x
    using e p by (auto simp: bt_get_insert same_place_def split: if_splits)
  have get': "bt_get i (entries s) = Some x \<Longrightarrow> \<exists>y. bt_get i ?m = Some y \<and> same_place x y" for i x
    using e p by (auto simp: bt_get_insert same_place_def)
  have rel: "parent_rel ?m = parent_rel (entries s)"
    by (auto simp: parent_rel_iff same_place_def dest!: get) (auto simp: same_place_def dest!: get')
  have links: "links (set_entry ino e' s) = links s"
    by (auto simp: links_iff set_entry_def same_place_def dest!: get) (auto simp: same_place_def dest!: get')
  have "index_ok (set_entry ino e' s)"
    using D(1) links e p by (auto simp: index_ok_def keys_ok_def indexes_def kids_def set_entry_def bt_get_insert bt_inv_insert same_place_def split: if_splits)
  moreover have "names_ok P cr N ?m"
    using D(2) e p ck by (auto simp: names_ok_def bt_get_insert same_place_def)
  moreover have "tree_ok ?m"
  proof (rule tree_okI)
    have "\<exists>p. bt_get q ?m = Some p \<and> e_kind p = Dir" if "bt_get q (entries s) = Some x" "e_kind x = Dir" for q x
      using get' [OF that(1)] that(2) by (auto simp: same_place_def)
    then show "\<exists>p. bt_get (e_parent x) ?m = Some p \<and> e_kind p = Dir" if "bt_get i ?m = Some x" for i x
      using get [OF that] tree_ok_parent [OF D(3)] by (fastforce simp: same_place_def)
    show "\<exists>e. bt_get FUSE_ROOT_ID ?m = Some e \<and> e_kind e = Dir \<and> e_parent e = FUSE_ROOT_ID"
      using tree_ok_root [OF D(3)] get' [of FUSE_ROOT_ID] by (auto simp: same_place_def)
    show "(i, FUSE_ROOT_ID) \<in> (parent_rel ?m)\<^sup>*" if "bt_get i ?m = Some x" for i x
      using get [OF that] tree_ok_rooted [OF D(3)] by (auto simp: rel)
  qed
  moreover have "bt_get i ?m = Some x \<Longrightarrow> i < next_ino s" for i x using D(6) get by blast
  ultimately show ?thesis by (simp add: fs_ok_def set_entry_def)
qed


lemma keeps_set_entry:
  assumes ok: "fs_ok P cr N s" and e: "bt_get ino (entries s) = Some e" and p: "same_place e e'" and c: "content_of e' = content_of e"
    and run: "save_then P C cr rep (set_entry ino e' s) w1 = (rep', s', w')"
    and N: "name_space P cr N" and C: "codec_laws entries_wf C" and w1: "fault_free w1" "disk w1 = disk w"
  shows "keeps P cr N s w s' w'"
proof -
  have "vec_ok (e_content_key e)" using fs_okD(2) [OF ok] e by (simp add: names_ok_def)
  with c have ok': "fs_ok P cr N (set_entry ino e' s)" by (intro fs_ok_set_entry [OF ok e p]) (simp add: content_of_def)
  have k: "keeps_contents P cr s (set_entry ino e' s)"
    by (rule keeps_contents_map) (use e c in \<open>auto simp: set_entry_def bt_get_insert split: if_splits\<close>)
  obtain r where sv: "save_index P C cr (set_entry ino e' s) w1 = (r, w')" "s' = set_entry ino e' s \<or> r = Inr s'"
    using run by (auto simp: save_then_def split: prod.splits sum.splits)
  note sk = save_index_keeps [OF ok' N C w1(1) sv(1)]
  have "fs_ok P cr N s'" using sv(2) sk(3) ok' by auto
  moreover have "disk w' (data_path s i) = disk w (data_path s i)" for i
    using sk(2) [of i] w1(2) data_path_frame [of "set_entry ino e' s" s] by (simp add: set_entry_def)
  ultimately show ?thesis using keeps_contents_save [OF k run] sk(1) by (simp add: keeps_def)
qed

lemma apply_setattr_run:
  assumes e: "bt_get ino (entries s) = Some e"
  obtains e' rep w1 where "apply_setattr P C cr ino mode uid gid at mt tr s w = save_then P C cr rep (set_entry ino e' s) w1"
    and "same_place e e'" and "\<not> (\<exists>c. rep = ReplyError c)"
    and "content_of e' = (case tr of None \<Rightarrow> content_of e | Some (ck, sz) \<Rightarrow> (e_kind e, sz, ck))"
    and "disk w1 = disk w" and "faults w1 = faults w"
proof -
  have t: "\<exists>n w'. time_or_now_nanos v u = (n, w') \<and> disk w' = disk u \<and> faults w' = faults u" for v u
    using now_nanos_run [of u] by (cases v) (auto simp: time_or_now_nanos_def)
  define e3 where "e3 = (let e1 = (case mode of None \<Rightarrow> e | Some m \<Rightarrow> e\<lparr>e_perm := perm_of m\<rparr>);
              e2 = (case uid of None \<Rightarrow> e1 | Some u \<Rightarrow> e1\<lparr>e_uid := u\<rparr>)
     in (case gid of None \<Rightarrow> e2 | Some g \<Rightarrow> e2\<lparr>e_gid := g\<rparr>))"
  have e3: "same_place e e3" "content_of e3 = content_of e"
    by (auto simp: e3_def same_place_def content_of_def Let_def split: option.split)
  obtain e4 w4 where 4: "(case at of None \<Rightarrow> (e3, w) | Some a \<Rightarrow> (case time_or_now_nanos a w of
      (n, w') \<Rightarrow> (e3\<lparr>e_times := (e_times e3)\<lparr>atime := n\<rparr>\<rparr>, w'))) = (e4, w4)"
    "same_place e e4" "content_of e4 = content_of e" "disk w4 = disk w" "faults w4 = faults w"
    using e3 t [of "the at" w] by (cases at) (auto simp: same_place_def content_of_def)
  obtain e5 w5 where 5: "(case mt of None \<Rightarrow> (e4, w4) | Some m \<Rightarrow> (case time_or_now_nanos m w4 of
      (n, w') \<Rightarrow> (e4\<lparr>e_times := (e_times e4)\<lparr>mtime := n\<rparr>\<rparr>, w'))) = (e5, w5)"
    "same_place e e5" "content_of e5 = content_of e" "disk w5 = disk w" "faults w5 = faults w"
    using 4(2-) t [of "the mt" w4] by (cases mt) (auto simp: same_place_def content_of_def)
  obtain e6 w6 where 6: "(case tr of None \<Rightarrow> (e5, w5) | Some (content_key, sz) \<Rightarrow> (case touch_modified (e_times e5) w5 of
      (t, w') \<Rightarrow> (e5\<lparr>e_content_key := content_key, e_size := sz, e_times := t\<rparr>, w'))) = (e6, w6)"
    "same_place e e6" "content_of e6 = (case tr of None \<Rightarrow> content_of e | Some (ck, sz) \<Rightarrow> (e_kind e, sz, ck))"
    "disk w6 = disk w" "faults w6 = faults w"
    using 5(2-) touch_run(3) [of "e_times e5" w5] by (cases tr) (auto simp: same_place_def content_of_def case_prod_beta)
  obtain t w7 where 7: "touch_changed (e_times e6) w6 = (t, w7)" "disk w7 = disk w" "faults w7 = faults w"
    using 6(4,5) touch_run(1) [of "e_times e6" w6] by (cases "touch_changed (e_times e6) w6") auto
  show thesis
  proof (rule that)
    show "apply_setattr P C cr ino mode uid gid at mt tr s w =
        save_then P C cr (ReplyAttr TTL (attr_for (e6\<lparr>e_times := t\<rparr>))) (set_entry ino (e6\<lparr>e_times := t\<rparr>) s) w7"
      unfolding apply_setattr_def e option.case Let_def
      by (simp only: 4(1) 5(1) 6(1) 7(1) prod.case e3_def [unfolded Let_def, symmetric])
  qed (use 6 7 in \<open>auto simp: same_place_def content_of_def\<close>)
qed

end
