(* ===== verification/Concurrency.thy ===== *)
theory Concurrency
  imports Scheduling Contents
begin

text \<open>
  The contents of files under every interleaving of the dispatcher and the workers: an invariant that ties
  the entries, the data files and the phases of the workers to the contents each file should have, and
  that every step keeps, changing the contents only as the label of the step says.
\<close>

section \<open>Admissible requests\<close>

fun request_ok :: "mount_env \<Rightarrow> bytes set \<Rightarrow> fuse_request \<Rightarrow> pqfs \<Rightarrow> bool" where
  "request_ok M N (MetaRequest r) st = admissible N r (ns_of (m_prims M) (m_crypto M) (p_inner st))"
| "request_ok M N (WriteRequest ino offset data) st = (unat (offset_or_zero offset) + length data \<le> max_size)"
| "request_ok M N (SetattrRequest ino ch (Some m)) st = (unat m \<le> max_size)"
| "request_ok M N _ st = True"

text \<open>Steps in which the dispatcher serves admissible requests only.\<close>

inductive good_step :: "mount_env \<Rightarrow> bytes set \<Rightarrow> pqfs \<Rightarrow> event \<Rightarrow> pqfs \<Rightarrow> bool" for M N where
  good_dispatcher: "p_open st \<Longrightarrow> may_dispatch req st \<Longrightarrow> request_ok M N req st \<Longrightarrow>
    good_step M N st Internal (dispatch M req (p_next st) (st\<lparr>p_next := p_next st + 1\<rparr>))"
| good_worker: "advance M k st = Some (ev, st') \<Longrightarrow> good_step M N st ev st'"

lemma good_step_step: "good_step M N st ev st' \<Longrightarrow> step M st ev st'"
  by (induction rule: good_step.induct) (rule step.intros; assumption)+

section \<open>The invariant\<close>

fun changed :: "(u64 \<Rightarrow> bytes) \<Rightarrow> event \<Rightarrow> u64 \<Rightarrow> bytes" where
  "changed c Internal = c"
| "changed c (Changed n i op) = c(i := file_spec (c i) op)"

definition task_ok :: "pqfs_inner \<Rightarrow> task \<Rightarrow> bool" where
  "task_ok s t \<longleftrightarrow> t_ino t < next_ino s \<and> (\<forall>e. bt_get (t_ino t) (entries s) = Some e \<longrightarrow> e_kind e = File) \<and>
     (case t_job t of ReadJob e f off sz \<Rightarrow> f = data_path s (t_ino t)
      | WriteJob f off data \<Rightarrow> f = data_path s (t_ino t) \<and> unat (offset_or_zero off) + length data \<le> max_size
      | SetattrJob f ch m \<Rightarrow> f = data_path s (t_ino t) \<and> unat m \<le> max_size)"

text \<open>
  The entry a job has read describes the contents as the current entry does; the result of a file operation
  describes the contents to come.
\<close>

fun phase_ok :: "mount_env \<Rightarrow> pqfs_inner \<Rightarrow> world \<Rightarrow> (u64 \<Rightarrow> bytes) \<Rightarrow> phase \<Rightarrow> bool" where
  "phase_ok M s w c (Fetched t e') = (wants_write t \<and>
     (\<forall>e. bt_get (t_ino t) (entries s) = Some e \<longrightarrow> content_of e = content_of e'))"
| "phase_ok M s w c (Transferred t r) = (wants_write t \<and>
     (bt_get (t_ino t) (entries s) \<noteq> None \<longrightarrow>
        carries (m_prims M) (m_crypto M) w (data_path s (t_ino t)) (fst r) (snd r) (c (t_ino t))))"
| "phase_ok M s w c ph = True"

fun transferred_on :: "u64 \<Rightarrow> phase \<Rightarrow> bool" where
  "transferred_on i (Transferred t r) = (t_ino t = i)"
| "transferred_on i ph = False"

definition settled_files :: "mount_env \<Rightarrow> pqfs_inner \<Rightarrow> world \<Rightarrow> phase list \<Rightarrow> (u64 \<Rightarrow> bytes) \<Rightarrow> bool" where
  "settled_files M s w phs c \<longleftrightarrow> (\<forall>i e. bt_get i (entries s) = Some e \<longrightarrow> e_kind e = File \<longrightarrow>
     (\<forall>k < length phs. \<not> transferred_on i (phs ! k)) \<longrightarrow>
     carries (m_prims M) (m_crypto M) w (data_path s i) (e_content_key e) (e_size e) (c i))"

definition tasks :: "pqfs \<Rightarrow> task set" where
  "tasks st = set (p_queue st) \<union> {t. \<exists>k < length (p_workers st). at_hand (p_workers st ! k) = Some t}"

definition consistent :: "mount_env \<Rightarrow> bytes set \<Rightarrow> path \<Rightarrow> pqfs \<Rightarrow> (u64 \<Rightarrow> bytes) \<Rightarrow> bool" where
  "consistent M N dir st c \<longleftrightarrow> mounted (m_prims M) (m_codec M) (m_crypto M) N dir (p_inner st) \<and> fault_free (p_world st) \<and>
     locks_ok st \<and> (\<forall>t \<in> tasks st. task_ok (p_inner st) t) \<and> (\<forall>i. next_ino (p_inner st) \<le> i \<longrightarrow> c i = []) \<and>
     (\<forall>k < length (p_workers st). phase_ok M (p_inner st) (p_world st) c (p_workers st ! k)) \<and>
     settled_files M (p_inner st) (p_world st) (p_workers st) c"

lemma consistentD:
  assumes "consistent M N dir st c"
  shows "mounted (m_prims M) (m_codec M) (m_crypto M) N dir (p_inner st)" "fault_free (p_world st)" "locks_ok st"
    "t \<in> tasks st \<Longrightarrow> task_ok (p_inner st) t" "next_ino (p_inner st) \<le> i \<Longrightarrow> c i = []"
    "k < length (p_workers st) \<Longrightarrow> phase_ok M (p_inner st) (p_world st) c (p_workers st ! k)"
    "settled_files M (p_inner st) (p_world st) (p_workers st) c"
    "fs_ok (m_prims M) (m_crypto M) N (p_inner st)" "name_space (m_prims M) (m_crypto M) N" "codec_laws entries_wf (m_codec M)"
    "aead_laws (m_prims M)"
  using assms by (simp_all add: consistent_def mounted_def name_space_def)

section \<open>Metadata requests\<close>

lemma carries_empty:
  assumes "aead_laws P" and "fault_free w" and "decrypt_content_key P cr ck = Inr k"
  shows "carries P cr w f ck 0 []"
  using assms decrypt_content_key_nonempty [OF assms(3)]
  by (simp add: carries_def holds_blocks_def represents_def nblocks_def)

lemma kept_entry:
  assumes "keeps P cr N s w s' w'" and "bt_get i (entries s') = Some e'" and "i < next_ino s"
  obtains e where "bt_get i (entries s) = Some e" and "content_of e' = content_of e"
  using assms by (fastforce simp: keeps_def keeps_contents_def split: option.splits)

lemma keepsD:
  assumes "keeps P cr N s w s' w'"
  shows "data_path s' = data_path s" "next_ino s \<le> next_ino s'" "fault_free w'" "fs_ok P cr N s'" "backend s' = backend s"
    "bt_get i (entries s') \<noteq> None \<Longrightarrow> disk w' (data_path s i) = disk w (data_path s i)"
  using assms data_path_frame [of s' s] by (simp_all add: keeps_def keeps_contents_def)

lemma consistent_keeps:
  assumes c: "consistent M N dir st c" and k: "keeps (m_prims M) (m_crypto M) N (p_inner st) (p_world st) s' w'"
    and st': "p_inner st' = s'" "p_world st' = w'" "p_workers st' = p_workers st" "lock_of st' = lock_of st" "tasks st' = tasks st"
  shows "consistent M N dir st' c"
proof -
  let ?s = "p_inner st" and ?w = "p_world st" and ?P = "m_prims M" and ?cr = "m_crypto M"
  note D = consistentD [OF c] and K = keepsD [OF k]
  have le: "i < next_ino ?s \<Longrightarrow> i < next_ino s'" for i using K(2) by (meson less_le_trans)
  have frame: "carries ?P ?cr ?w (data_path ?s i) ck sz bs \<Longrightarrow> bt_get i (entries s') \<noteq> None \<Longrightarrow> carries ?P ?cr w' (data_path s' i) ck sz bs" for i ck sz bs
    using carries_frame [of ?P ?cr ?w "data_path ?s i" ck sz bs w'] K(1,3,6) by simp
  have task: "task_ok s' t" if "task_ok ?s t" for t
    using that le [of "t_ino t"] kept_entry [OF k, of "t_ino t"] unfolding task_ok_def K(1) by (auto simp: content_of_def)
  have ph: "phase_ok M s' w' c ph" if "phase_ok M ?s ?w c ph" and "\<And>t. at_hand ph = Some t \<Longrightarrow> t_ino t < next_ino ?s" for ph
  proof (cases ph)
    case (Fetched t e)
    then show ?thesis using that kept_entry [OF k, of "t_ino t"] by fastforce
  next
    case (Transferred t r)
    have "bt_get (t_ino t) (entries s') \<noteq> None \<Longrightarrow> bt_get (t_ino t) (entries ?s) \<noteq> None"
      using that(2) [of t] Transferred kept_entry [OF k, of "t_ino t"] by fastforce
    then show ?thesis using that(1) Transferred frame by simp
  qed simp_all
  have files: "settled_files M s' w' (p_workers st) c"
    unfolding settled_files_def
  proof (intro allI impI)
    fix i e' assume e': "bt_get i (entries s') = Some e'" "e_kind e' = File"
      and no: "\<forall>k < length (p_workers st). \<not> transferred_on i (p_workers st ! k)"
    show "carries ?P ?cr w' (data_path s' i) (e_content_key e') (e_size e') (c i)"
    proof (cases "bt_get i (entries ?s)")
      case (Some e)
      then have "content_of e' = content_of e" using k e'(1) by (fastforce simp: keeps_def keeps_contents_def)
      with Some e' no D(7) show ?thesis by (intro frame) (auto simp: settled_files_def content_of_def)
    next
      case None
      with k e' obtain kk where "next_ino ?s \<le> i" "e_size e' = 0" "decrypt_content_key ?P ?cr (e_content_key e') = Inr kk"
        by (fastforce simp: keeps_def keeps_contents_def)
      with D(5) [of i] carries_empty [OF D(11) K(3)] show ?thesis by simp
    qed
  qed
  have tk: "t_ino t < next_ino ?s" if "k < length (p_workers st)" "at_hand (p_workers st ! k) = Some t" for k t
    using D(4) [of t] that by (auto simp: tasks_def task_ok_def)
  have "locks_ok st'" using D(3) st'(3,4) by (simp add: locks_ok_def holders_def)
  moreover have "mounted ?P (m_codec M) ?cr N dir s'" using D(1) K(4,5) by (simp add: mounted_def)
  moreover have "c i = []" if "next_ino s' \<le> i" for i using D(5) that K(2) by (meson order_trans)
  ultimately show ?thesis
    using K(3) files D(4,6) task ph tk unfolding consistent_def st' by blast
qed

section \<open>The dispatcher\<close>

lemma tasks_frames [simp]:
  "tasks (send_reply n rep st) = tasks st" "tasks (inode_lock i st) = tasks st"
  by (simp_all add: tasks_def)

lemma consistent_frame:
  assumes "consistent M N dir st c" and "p_inner st' = p_inner st" and "p_world st' = p_world st"
    and "p_workers st' = p_workers st" and "lock_of st' = lock_of st" and "tasks st' = tasks st"
  shows "consistent M N dir st' c"
  by (rule consistent_keeps [OF assms(1) keeps_refl [OF consistentD(8,2) [OF assms(1)]] assms(2-)])

lemma consistent_write_inner:
  assumes c: "consistent M N dir st c"
    and k: "\<And>rep s' w'. h (p_inner st) (p_world st) = (rep, s', w') \<Longrightarrow> keeps (m_prims M) (m_crypto M) N (p_inner st) (p_world st) s' w'"
  shows "consistent M N dir (write_inner h n st) c"
proof -
  obtain rep s' w' where h: "h (p_inner st) (p_world st) = (rep, s', w')" by (rule prod_cases3)
  show ?thesis
    by (rule consistent_keeps [OF c k [OF h]]) (simp_all add: write_inner_def h tasks_def)
qed

lemma consistent_spawn:
  assumes c: "consistent M N dir st c" and t: "task_ok (p_inner st) t"
  shows "consistent M N dir (spawn_job t (inode_lock i st)) c"
proof -
  have "tasks (spawn_job t (inode_lock i st)) \<subseteq> insert t (tasks st)" by (auto simp: tasks_def spawn_job_def)
  moreover have "lock_of (spawn_job t (inode_lock i st)) = lock_of st" by (simp add: spawn_job_def)
  ultimately show ?thesis
    using c t by (auto simp: consistent_def spawn_job_def locks_ok_def holders_def)
qed

lemma change_attr_keeps:
  assumes ok: "fs_ok P cr N s" and N: "name_space P cr N" and C: "codec_laws entries_wf C" and ff: "fault_free w"
    and run: "change_attr P C cr ino ch None s w = (rep, s', w')"
  shows "keeps P cr N s w s' w'"
proof (cases "bt_get ino (entries s)")
  case None
  with run keeps_refl [OF ok ff] show ?thesis by (simp add: change_attr_def apply_setattr_def)
next
  case (Some e)
  obtain e' rep' w1 where e': "change_attr P C cr ino ch None s w = save_then P C cr rep' (set_entry ino e' s) w1"
    "same_place e e'" "content_of e' = content_of e" "disk w1 = disk w" "faults w1 = faults w"
    unfolding change_attr_def
    by (rule apply_setattr_run [OF Some, of P C cr "ac_mode ch" "ac_uid ch" "ac_gid ch" "ac_atime ch" "ac_mtime ch" None w]) simp
  have "fault_free w1" using e'(5) ff by (simp add: fault_free_def)
  then show ?thesis using keeps_set_entry [OF ok Some e'(2,3) _ N C _ e'(4)] run e'(1) by metis
qed

lemma file_task:
  assumes c: "consistent M N dir st c" and e: "bt_get ino (entries (p_inner st)) = Some e" "e_kind e = File"
  shows "ino < next_ino (p_inner st)" "\<forall>x. bt_get ino (entries (p_inner st)) = Some x \<longrightarrow> e_kind x = File"
  using fs_okD(6) [OF consistentD(8) [OF c] e(1)] e by auto

lemma consistent_inode_lock: "consistent M N dir st c \<Longrightarrow> consistent M N dir (inode_lock i st) c"
  by (erule consistent_frame) simp_all

lemma consistent_reply: "consistent M N dir st c \<Longrightarrow> consistent M N dir (send_reply n rep st) c"
  by (erule consistent_frame) simp_all

lemma consistent_dispatch:
  assumes c: "consistent M N dir st c" and ok: "request_ok M N req st"
  shows "consistent M N dir (dispatch M req n st) c"
proof -
  note D = consistentD [OF c]
  note cl = consistent_inode_lock [OF c]
  note reply = consistent_reply [OF c] consistent_reply [OF cl]
  note h = consistent_write_inner [OF c] consistent_write_inner [OF cl]
  note keep = serve_keeps [OF D(8,9,10) _ D(2)] flush_keeps [OF D(8,9,10,2)] sync_and_flush_keeps [OF D(8,9,10,2)]
    change_attr_keeps [OF D(8,9,10,2)]
  show ?thesis
  proof (cases req)
    case (MetaRequest r)
    then show ?thesis using ok keep(1) by (auto intro!: h(1))
  next
    case (ReadRequest ino off sz)
    then show ?thesis
      using reply(2) by (auto simp: pqfs_read_def Let_def task_ok_def intro!: consistent_spawn [OF c] dest: file_task [OF c] split: option.split)
  next
    case (WriteRequest ino off data)
    then show ?thesis
      using reply(2) ok by (auto simp: pqfs_write_def Let_def task_ok_def intro!: consistent_spawn [OF c] dest: file_task [OF c] split: option.split entry_kind.split)
  next
    case (SetattrRequest ino ch sz)
    then show ?thesis
      using reply(2) ok h(2) keep(4)
      by (auto simp: pqfs_setattr_def Let_def task_ok_def intro!: consistent_spawn [OF c] dest: file_task [OF c] split: option.split)
  next
    case (FsyncRequest ino)
    then show ?thesis using keep(3) h(2) by (simp add: pqfs_fsync_def)
  next
    case (FlushRequest ino)
    then show ?thesis using keep(3) h(2) by (simp add: pqfs_flush_def)
  next
    case FsyncdirRequest
    then show ?thesis using keep(2) h(1) by (simp add: pqfs_fsyncdir_def)
  qed (simp_all add: read_inner_def reply)
qed

section \<open>The workers\<close>

text \<open>Who holds the lock of an inode for writing holds it alone.\<close>

lemma sole_writer:
  assumes ok: "locks_ok st" and k: "k < length (p_workers st)" and l: "l < length (p_workers st)" and "l \<noteq> k"
    and t: "held (p_workers st ! k) = Some t" "wants_write t" and u: "held (p_workers st ! l) = Some u"
  shows "t_ino u \<noteq> t_ino t"
proof
  assume same: "t_ino u = t_ino t"
  let ?i = "t_ino t"
  have "0 < holders True ?i st" using holders_pos [OF k, of True ?i] t by (simp add: holds_for_def)
  then have one: "holders True ?i st = 1" "holders False ?i st = 0" using ok by (auto simp: locks_ok_def split: if_splits)
  show False
  proof (cases "wants_write u")
    case True
    then have "2 \<le> holders True ?i st"
      unfolding holders_def using two_of_them [OF l k \<open>l \<noteq> k\<close>, of "holds_for True ?i"] t u same by (simp add: holds_for_def)
    with one show False by simp
  next
    case False
    with holders_pos [OF l, of False ?i] u same one show False by (simp add: holds_for_def)
  qed
qed

lemma held_phase_ok: "held ph = None \<Longrightarrow> phase_ok M s w c ph" "held ph = None \<Longrightarrow> \<not> transferred_on i ph"
  by (cases ph; simp)+

text \<open>A step of a worker that leaves the files alone and is not the end of a file operation.\<close>

lemma consistent_quiet:
  assumes c: "consistent M N dir st c" and k: "k < length (p_workers st)" and locks: "locks_ok st'"
    and st': "p_inner st' = p_inner st" "p_workers st' = (p_workers st)[k := ph]" "tasks st' \<subseteq> tasks st"
    and w: "disk (p_world st') = disk (p_world st)" "fault_free (p_world st')"
    and old: "\<And>i. \<not> transferred_on i (p_workers st ! k)"
    and new: "phase_ok M (p_inner st) (p_world st') c ph"
  shows "consistent M N dir st' c"
proof -
  note D = consistentD [OF c]
  have fr: "carries P cr (p_world st) f ck sz bs \<Longrightarrow> carries P cr (p_world st') f ck sz bs" for P cr f ck sz bs
    by (erule carries_frame) (simp_all add: w)
  have "phase_ok M (p_inner st) (p_world st') c (p_workers st ! l)" if "l < length (p_workers st)" for l
    using D(6) [OF that] fr by (cases "p_workers st ! l") auto
  with new have "\<forall>l < length (p_workers st'). phase_ok M (p_inner st) (p_world st') c (p_workers st' ! l)"
    using k by (simp add: st'(2) nth_list_update)
  moreover have "settled_files M (p_inner st) (p_world st') (p_workers st') c"
    unfolding settled_files_def
  proof (intro allI impI)
    fix i e assume e: "bt_get i (entries (p_inner st)) = Some e" "e_kind e = File"
      and no: "\<forall>l < length (p_workers st'). \<not> transferred_on i (p_workers st' ! l)"
    have "\<not> transferred_on i (p_workers st ! l)" if "l < length (p_workers st)" for l
      using no old that by (cases "l = k") (auto simp: st'(2) nth_list_update)
    with D(7) e have "carries (m_prims M) (m_crypto M) (p_world st) (data_path (p_inner st) i) (e_content_key e) (e_size e) (c i)"
      by (simp add: settled_files_def)
    then show "carries (m_prims M) (m_crypto M) (p_world st') (data_path (p_inner st) i) (e_content_key e) (e_size e) (c i)" by (rule fr)
  qed
  ultimately show ?thesis
    using D(1,4,5) w(2) locks st'(3) unfolding consistent_def st'(1) by blast
qed

text \<open>The step that does the file operation.\<close>

lemma consistent_io:
  assumes c: "consistent M N dir st c" and k: "k < length (p_workers st)" and locks: "locks_ok st'"
    and st': "p_inner st' = p_inner st" "p_workers st' = (p_workers st)[k := ph]" "tasks st' \<subseteq> tasks st"
    and t: "p_workers st ! k = Fetched t e"
    and w: "only_file (data_path (p_inner st) (t_ino t)) (disk (p_world st)) (p_world st')"
    and c': "\<And>i. i \<noteq> t_ino t \<Longrightarrow> c' i = c i"
    and new: "phase_ok M (p_inner st) (p_world st') c' ph" "bt_get (t_ino t) (entries (p_inner st)) = None \<or> transferred_on (t_ino t) ph"
  shows "consistent M N dir st' c'"
proof -
  let ?s = "p_inner st"
  note D = consistentD [OF c]
  have wr: "wants_write t" using D(6) [OF k] t by simp
  have ino: "t_ino t < next_ino ?s" using D(4) [of t] k t by (force simp: tasks_def task_ok_def)
  have ff: "fault_free (p_world st')" and files: "q \<noteq> data_path ?s (t_ino t) \<Longrightarrow> disk (p_world st') q = disk (p_world st) q" for q
    using w by (simp_all add: only_file_def)
  have fr: "carries P cr (p_world st) (data_path ?s i) ck sz bs \<Longrightarrow> carries P cr (p_world st') (data_path ?s i) ck sz bs"
    if "i \<noteq> t_ino t" for P cr i ck sz bs
    using that files by (elim carries_frame) (simp_all add: ff data_path_inj)
  have "phase_ok M ?s (p_world st') c' (p_workers st ! l)" if "l < length (p_workers st)" "l \<noteq> k" for l
    using D(6) [OF that(1)] fr c' sole_writer [OF D(3) k that _ wr] t by (cases "p_workers st ! l") auto
  with new(1) have "\<forall>l < length (p_workers st'). phase_ok M ?s (p_world st') c' (p_workers st' ! l)"
    using k by (simp add: st'(2) nth_list_update)
  moreover have "settled_files M ?s (p_world st') (p_workers st') c'"
    unfolding settled_files_def
  proof (intro allI impI)
    fix i x assume x: "bt_get i (entries ?s) = Some x" "e_kind x = File"
      and no: "\<forall>l < length (p_workers st'). \<not> transferred_on i (p_workers st' ! l)"
    have i: "i \<noteq> t_ino t" using new(2) no x k by (auto simp: st'(2))
    have "\<not> transferred_on i (p_workers st ! l)" if "l < length (p_workers st)" for l
      using no that t by (cases "l = k") (auto simp: st'(2) nth_list_update)
    with D(7) x have "carries (m_prims M) (m_crypto M) (p_world st) (data_path ?s i) (e_content_key x) (e_size x) (c i)"
      by (simp add: settled_files_def)
    with fr [OF i] c' [OF i] show "carries (m_prims M) (m_crypto M) (p_world st') (data_path ?s i) (e_content_key x) (e_size x) (c' i)" by simp
  qed
  moreover have "c' i = []" if "next_ino ?s \<le> i" for i using that ino c' [of i] D(5) by force
  ultimately show ?thesis
    using D(1,4) ff locks st'(3) unfolding consistent_def st'(1) by blast
qed


text \<open>Recording the result of a file operation in the entry, if the entry is still there.\<close>

definition records :: "prims \<Rightarrow> crypto \<Rightarrow> bytes set \<Rightarrow> pqfs_inner \<Rightarrow> world \<Rightarrow> u64 \<Rightarrow> bytes \<times> u64 \<Rightarrow> pqfs_inner \<Rightarrow> world \<Rightarrow> bool" where
  "records P cr N s w ino r s' w' \<longleftrightarrow> fs_ok P cr N s' \<and> backend s' = backend s \<and> next_ino s' = next_ino s \<and> fault_free w' \<and>
     (\<forall>i. disk w' (data_path s i) = disk w (data_path s i)) \<and>
     (\<forall>i. i \<noteq> ino \<longrightarrow> bt_get i (entries s') = bt_get i (entries s)) \<and>
     (case bt_get ino (entries s) of None \<Rightarrow> bt_get ino (entries s') = None
      | Some e \<Rightarrow> \<exists>e'. bt_get ino (entries s') = Some e' \<and> content_of e' = (e_kind e, snd r, fst r))"

lemma carries_vec_ok:
  assumes "carries P cr w f ck sz bs"
  shows "vec_ok ck"
proof (cases "ck = []")
  case False
  with assms obtain key where "decrypt_content_key P cr ck = Inr key" by (auto simp: carries_def)
  then have "decrypt P cr ck = Inr key" "length key = 32"
    by (auto simp: decrypt_content_key_def split: sum.splits if_splits)
  with decrypt_length [of P cr ck key] carriesD [OF assms] show ?thesis by (simp add: vec_ok_def)
qed simp

lemma records_set_entry:
  assumes ok: "fs_ok P cr N s" and e: "bt_get ino (entries s) = Some e" and p: "same_place e e'"
    and c: "content_of e' = (e_kind e, snd r, fst r)" and ck: "vec_ok (fst r)"
    and w': "fault_free w'" "\<And>i. disk w' (data_path s i) = disk w (data_path s i)"
  shows "records P cr N s w ino r (set_entry ino e' s\<lparr>dirty := b\<rparr>) w'"
  using fs_ok_set_entry [OF ok e p] c ck w' e
  by (auto simp: records_def set_entry_def bt_get_insert content_of_def)

lemma record_result_records:
  assumes ok: "fs_ok (m_prims M) (m_crypto M) N s" and N: "name_space (m_prims M) (m_crypto M) N" and C: "codec_laws entries_wf (m_codec M)"
    and ff: "fault_free w" and wr: "wants_write t" and run: "record_result M t r s w = (rep, s', w')"
    and ck: "bt_get (t_ino t) (entries s) \<noteq> None \<Longrightarrow> vec_ok (fst r)"
  shows "records (m_prims M) (m_crypto M) N s w (t_ino t) r s' w'"
proof (cases "bt_get (t_ino t) (entries s)")
  case None
  with run wr have "s' = s" "w' = w"
    by (auto simp: record_result_def wants_write_def commit_write_def change_attr_def apply_setattr_def split: job.splits)
  with ok ff None show ?thesis by (simp add: records_def)
next
  case (Some e)
  note ck = ck [unfolded Some, simplified]
  show ?thesis
  proof (cases "t_job t")
    case (WriteJob f off data)
    obtain ts w1 where ts: "touch_modified (e_times e) w = (ts, w1)" "w1 = drop_clock w"
      using touch_run(3) [of "e_times e" w] by (metis prod.collapse)
    let ?e = "e\<lparr>e_content_key := fst r, e_size := snd r, e_times := ts\<rparr>"
    have "s' = set_entry (t_ino t) ?e s\<lparr>dirty := True\<rparr>" "w' = w1"
      using run WriteJob Some ts by (simp_all add: record_result_def commit_write_def mark_dirty_def)
    then show ?thesis
      using records_set_entry [OF ok Some, of ?e r w' w True] ck ff ts(2) by (simp add: same_place_def content_of_def)
  next
    case (SetattrJob f ch m)
    obtain e' rep' w1 where e': "change_attr (m_prims M) (m_codec M) (m_crypto M) (t_ino t) ch (Some r) s w =
        save_then (m_prims M) (m_codec M) (m_crypto M) rep' (set_entry (t_ino t) e' s) w1"
      "same_place e e'" "content_of e' = (e_kind e, snd r, fst r)" "disk w1 = disk w" "faults w1 = faults w"
      unfolding change_attr_def
      by (rule apply_setattr_run [OF Some, of "m_prims M" "m_codec M" "m_crypto M" "ac_mode ch" "ac_uid ch" "ac_gid ch" "ac_atime ch" "ac_mtime ch" "Some r" w])
        (simp add: case_prod_beta)
    let ?s = "set_entry (t_ino t) e' s"
    have ok1: "fs_ok (m_prims M) (m_crypto M) N ?s" using fs_ok_set_entry [OF ok Some e'(2)] e'(3) ck by (simp add: content_of_def)
    have ff1: "fault_free w1" using e'(5) ff by (simp add: fault_free_def)
    obtain x w2 where sv: "save_index (m_prims M) (m_codec M) (m_crypto M) ?s w1 = (x, w2)" by fastforce
    note sk = save_index_keeps [OF ok1 N C ff1 sv]
    have w2: "w' = w2" "s' = ?s \<or> x = Inr s'"
      using run SetattrJob e'(1) sv by (auto simp: record_result_def save_then_def split: sum.splits)
    have "s' = ?s\<lparr>dirty := dirty s'\<rparr>" using w2(2) sk(3) by auto
    moreover have "disk w' (data_path s i) = disk w (data_path s i)" for i
      using sk(2) [of i] e'(4) w2(1) data_path_frame [of ?s s] by (simp add: set_entry_def)
    ultimately show ?thesis
      using records_set_entry [OF ok Some e'(2,3) ck, of w' w "dirty s'"] sk(1) w2(1) by simp
  qed (use wr in \<open>simp add: wants_write_def\<close>)
qed

lemma consistent_commit:
  assumes c: "consistent M N dir st c" and k: "k < length (p_workers st)" and locks: "locks_ok st'"
    and t: "p_workers st ! k = Transferred t r"
    and rec: "records (m_prims M) (m_crypto M) N (p_inner st) (p_world st) (t_ino t) r (p_inner st') (p_world st')"
    and st': "p_workers st' = (p_workers st)[k := Idle]" "tasks st' \<subseteq> tasks st"
  shows "consistent M N dir st' c"
proof -
  let ?s = "p_inner st" and ?s' = "p_inner st'" and ?P = "m_prims M" and ?cr = "m_crypto M" and ?i = "t_ino t"
  note D = consistentD [OF c]
  have wr: "wants_write t" and car: "bt_get ?i (entries ?s) \<noteq> None \<Longrightarrow>
      carries ?P ?cr (p_world st) (data_path ?s ?i) (fst r) (snd r) (c ?i)" using D(6) [OF k] t by simp_all
  have R: "fs_ok ?P ?cr N ?s'" "backend ?s' = backend ?s" "next_ino ?s' = next_ino ?s" "fault_free (p_world st')"
    "\<And>i. disk (p_world st') (data_path ?s i) = disk (p_world st) (data_path ?s i)"
    "\<And>i. i \<noteq> ?i \<Longrightarrow> bt_get i (entries ?s') = bt_get i (entries ?s)"
    using rec by (simp_all add: records_def)
  have dp: "data_path ?s' = data_path ?s" by (rule data_path_frame [OF R(2)])
  have mine: "\<exists>e. bt_get ?i (entries ?s) = Some e \<and> content_of e' = (e_kind e, snd r, fst r)" if "bt_get ?i (entries ?s') = Some e'" for e'
    using rec that by (auto simp: records_def split: option.splits)
  have fr: "carries ?P ?cr (p_world st) (data_path ?s i) ck sz bs \<Longrightarrow> carries ?P ?cr (p_world st') (data_path ?s i) ck sz bs" for i ck sz bs
    by (erule carries_frame) (simp_all add: R)
  have kind: "e_kind e' = File" if "bt_get i (entries ?s') = Some e'" "\<forall>e. bt_get i (entries ?s) = Some e \<longrightarrow> e_kind e = File" for i e'
    using that mine R(6) [of i] by (cases "i = ?i") (auto simp: content_of_def)
  have "task_ok ?s' u" if "task_ok ?s u" for u
    using that kind [of "t_ino u"] unfolding task_ok_def dp R(3) by blast
  moreover have "phase_ok M ?s' (p_world st') c (p_workers st' ! l)" if "l < length (p_workers st')" for l
  proof (cases "l = k")
    case True
    with k show ?thesis by (simp add: st'(1))
  next
    case False
    have l: "l < length (p_workers st)" using that by (simp add: st'(1))
    have "phase_ok M ?s' (p_world st') c (p_workers st ! l)"
      using D(6) [OF l] fr R(6) sole_writer [OF D(3) k l False _ wr] t by (cases "p_workers st ! l") (auto simp: dp)
    with False show ?thesis by (simp add: st'(1))
  qed
  moreover have "settled_files M ?s' (p_world st') (p_workers st') c"
    unfolding settled_files_def
  proof (intro allI impI)
    fix i e' assume e': "bt_get i (entries ?s') = Some e'" "e_kind e' = File"
      and no: "\<forall>l < length (p_workers st'). \<not> transferred_on i (p_workers st' ! l)"
    show "carries ?P ?cr (p_world st') (data_path ?s' i) (e_content_key e') (e_size e') (c i)"
    proof (cases "i = ?i")
      case True
      with e' mine car fr show ?thesis by (fastforce simp: dp content_of_def)
    next
      case False
      have "\<not> transferred_on i (p_workers st ! l)" if "l < length (p_workers st)" for l
        using no that t False by (cases "l = k") (auto simp: st'(1) nth_list_update)
      then show ?thesis using e' D(7) False R(6) [of i] by (simp add: dp settled_files_def fr)
    qed
  qed
  moreover have "mounted ?P (m_codec M) ?cr N dir ?s'" using D(1) R(1,2) by (simp add: mounted_def)
  ultimately show ?thesis
    using D(4,5) R(3,4) locks st'(2) unfolding consistent_def by (metis (no_types, lifting) subsetD)
qed

text \<open>The file operation of a job on an entry that describes the contents.\<close>

lemma job_io_carries:
  assumes c: "carries (m_prims M) (m_crypto M) w (data_path s (t_ino t)) (e_content_key e) (e_size e) bs"
    and t: "task_ok s t" "wants_write t"
  obtains r w' where "job_io M t e w = (Inr r, w')"
    and "carries (m_prims M) (m_crypto M) w' (data_path s (t_ino t)) (fst r) (snd r) (file_spec bs (job_op t))"
proof (cases "t_job t")
  case (WriteJob f off data)
  then have f: "f = data_path s (t_ino t)" "unat (offset_or_zero off) + length data \<le> max_size" using t(1) by (simp_all add: task_ok_def)
  have "length (overwrite (unat (offset_or_zero off)) data bs) \<le> max_size" using f(2) carriesD [OF c] by simp
  then obtain ck sz w' where
    "do_write_data (m_prims M) (m_crypto M) e (data_path s (t_ino t)) off data w = (Inr (ck, sz), w')"
    "carries (m_prims M) (m_crypto M) w' (data_path s (t_ino t)) ck sz (overwrite (unat (offset_or_zero off)) data bs)"
    by (rule do_write_data_carries [OF c])
  with that [of "(ck, sz)" w'] WriteJob f(1) show thesis by (simp add: job_io_def job_op_def)
next
  case (SetattrJob f ch m)
  then have f: "f = data_path s (t_ino t)" "unat m \<le> max_size" using t(1) by (simp_all add: task_ok_def)
  obtain ck w' where
    "do_truncate (m_prims M) (m_crypto M) e (data_path s (t_ino t)) m w = (Inr (ck, m), w')"
    "carries (m_prims M) (m_crypto M) w' (data_path s (t_ino t)) ck m (resize (unat m) bs)"
    by (rule do_truncate_carries [OF c f(2)])
  with that [of "(ck, m)" w'] SetattrJob f(1) show thesis by (simp add: job_io_def job_op_def)
qed (use t in \<open>simp add: wants_write_def\<close>)

lemma job_io_only_file:
  assumes "job_io M t e w = (x, w')" and "task_ok s t" and "wants_write t" and "fault_free w"
  shows "only_file (data_path s (t_ino t)) (disk w) w'"
proof -
  have "only_file (data_path s (t_ino t)) (disk w) w" using assms(4) by (simp add: only_file_def)
  then show ?thesis
    using assms(1-3) only_file_do_write only_file_do_truncate
    by (cases "t_job t") (auto simp: job_io_def task_ok_def wants_write_def)
qed

lemma finish_frames [simp]:
  "p_inner (finish k t rep st) = p_inner st" "p_world (finish k t rep st) = p_world st"
  "p_workers (finish k t rep st) = (p_workers st)[k := Idle]" "p_queue (finish k t rep st) = p_queue st"
  by (simp_all add: finish_def)

lemma tasks_set_worker:
  assumes "p_workers st' = (p_workers st)[k := ph]" and "set (p_queue st') \<subseteq> set (p_queue st)"
    and "at_hand ph = None \<or> (\<exists>t. at_hand ph = Some t \<and> t \<in> tasks st)"
  shows "tasks st' \<subseteq> tasks st"
proof
  fix u assume "u \<in> tasks st'"
  then consider "u \<in> set (p_queue st')" | l where "l < length (p_workers st)" "at_hand ((p_workers st)[k := ph] ! l) = Some u"
    by (auto simp: tasks_def assms(1))
  then show "u \<in> tasks st"
  proof cases
    case 1
    with assms(2) show ?thesis by (auto simp: tasks_def)
  next
    case (2 l)
    then show ?thesis using assms(3) by (cases "l = k") (auto simp: tasks_def)
  qed
qed

lemma carries_content:
  "content_of e' = content_of e \<Longrightarrow> carries P cr w f (e_content_key e) (e_size e) bs \<Longrightarrow> carries P cr w f (e_content_key e') (e_size e') bs"
  by (simp add: content_of_def)

text \<open>While a job holds the lock of an inode and has not done its file operation, the entry describes the contents.\<close>

lemma locked_carries:
  assumes c: "consistent M N dir st c" and k: "k < length (p_workers st)" and t: "held (p_workers st ! k) = Some t"
    and nt: "\<not> transferred_on (t_ino t) (p_workers st ! k)" and e: "bt_get (t_ino t) (entries (p_inner st)) = Some e"
  shows "carries (m_prims M) (m_crypto M) (p_world st) (data_path (p_inner st) (t_ino t)) (e_content_key e) (e_size e) (c (t_ino t))"
proof -
  note D = consistentD [OF c]
  have "\<not> transferred_on (t_ino t) (p_workers st ! l)" if l: "l < length (p_workers st)" for l
  proof
    assume a: "transferred_on (t_ino t) (p_workers st ! l)"
    then obtain u r where u: "p_workers st ! l = Transferred u r" "t_ino u = t_ino t" by (cases "p_workers st ! l") auto
    have "wants_write u" using D(6) [OF l] u(1) by simp
    then show False using sole_writer [OF D(3) l k, of u t] u t nt a by (cases "k = l") auto
  qed
  moreover have "t \<in> tasks st" using at_hand_held [OF t] k by (auto simp: tasks_def)
  then have "e_kind e = File" using D(4) e by (simp add: task_ok_def)
  ultimately show ?thesis using D(7) e by (simp add: settled_files_def)
qed

lemma advance_tasks:
  assumes "advance M k st = Some (ev, st')"
  shows "tasks st' \<subseteq> tasks st"
proof -
  note k = advance_index [OF assms]
  have mine: "t \<in> tasks st" if "at_hand (p_workers st ! k) = Some t" for t using that k by (auto simp: tasks_def)
  have step: "\<exists>ph. p_workers st' = (p_workers st)[k := ph] \<and> set (p_queue st') \<subseteq> set (p_queue st) \<and>
      (at_hand ph = None \<or> (\<exists>t. at_hand ph = Some t \<and> t \<in> tasks st))"
    using assms
  proof (cases rule: advance_cases)
    case (Take t q)
    then show ?thesis by (intro exI [of _ "Blocked t"]) (auto simp: tasks_def)
  next
    case Leave
    then show ?thesis by (intro exI [of _ Exited]) auto
  next
    case (Lock t)
    then show ?thesis using mine by (intro exI [of _ "Locked t"]) auto
  next
    case (Fetch t e)
    then show ?thesis using mine by (intro exI [of _ "Fetched t e"]) auto
  next
    case (Transfer t e r w)
    then show ?thesis using mine by (intro exI [of _ "Transferred t r"]) auto
  qed (intro exI [of _ Idle]; auto)+
  then show ?thesis by (elim exE conjE) (rule tasks_set_worker)
qed

lemma fetched_job_carries:
  assumes c: "consistent M N dir st c" and k: "k < length (p_workers st)" and ph: "p_workers st ! k = Fetched t e"
    and x: "bt_get (t_ino t) (entries (p_inner st)) \<noteq> None" and io: "job_io M t e (p_world st) = (z, w)"
  obtains r where "z = Inr r"
    and "carries (m_prims M) (m_crypto M) w (data_path (p_inner st) (t_ino t)) (fst r) (snd r)
      (changed c (Changed (t_id t) (t_ino t) (job_op t)) (t_ino t))"
proof -
  note D = consistentD [OF c]
  have wr: "wants_write t" and t: "task_ok (p_inner st) t" using D(6) [OF k] ph D(4) [of t] k by (force simp: tasks_def)+
  from x obtain y where y: "bt_get (t_ino t) (entries (p_inner st)) = Some y" by blast
  have "content_of e = content_of y" using D(6) [OF k] ph y by simp
  note car = carries_content [OF this locked_carries [OF c k _ _ y]]
  show thesis by (rule job_io_carries [OF car t wr]) (use ph io that in simp_all)
qed

lemma consistent_advance:
  assumes c: "consistent M N dir st c" and adv: "advance M k st = Some (ev, st')"
  shows "consistent M N dir st' (changed c ev)"
proof -
  note D = consistentD [OF c] and k = advance_index [OF adv] and ts = advance_tasks [OF adv]
  have locks: "locks_ok st'" by (rule locks_ok_advance [OF D(3) adv])
  have fetched: "wants_write t \<and> task_ok (p_inner st) t" if "p_workers st ! k = Fetched t e" for t e
    using that D(6) [OF k] D(4) [of t] k by (force simp: tasks_def)
  note quiet = consistent_quiet [OF c k locks _ _ ts] and io = consistent_io [OF c k locks _ _ ts]
  from adv show ?thesis
  proof (cases rule: advance_cases)
    case (Take t q)
    then have "consistent M N dir st' c" using D(2) by (intro quiet [of "Blocked t"]) simp_all
    then show ?thesis by (simp add: Take(3))
  next
    case Leave
    then have "consistent M N dir st' c" using D(2) by (intro quiet [of Exited]) simp_all
    then show ?thesis by (simp add: Leave(4))
  next
    case (Lock t)
    then have "consistent M N dir st' c" using D(2) by (intro quiet [of "Locked t"]) simp_all
    then show ?thesis by (simp add: Lock(3))
  next
    case (Read t e f off sz rep w)
    have "fault_free w \<and> disk w = disk (p_world st)"
      by (rule do_read_keeps [OF Read(3), of "\<lambda>v. fault_free v \<and> disk v = disk (p_world st)"]) (use D(2) in simp_all)
    with Read have "consistent M N dir st' c" by (intro quiet [of Idle]) simp_all
    then show ?thesis by (simp add: Read(4))
  next
    case (Gone t)
    then have "consistent M N dir st' c" using D(2) by (intro quiet [of Idle]) simp_all
    then show ?thesis by (simp add: Gone(4))
  next
    case (Fetch t e)
    then have "consistent M N dir st' c" using D(2) by (intro quiet [of "Fetched t e"]) simp_all
    then show ?thesis by (simp add: Fetch(4))
  next
    case (Fail t e code w)
    note f = fetched [OF Fail(1)]
    have "bt_get (t_ino t) (entries (p_inner st)) = None"
      by (rule ccontr) (rule fetched_job_carries [OF c k Fail(1) _ Fail(2)], simp_all)
    then have "consistent M N dir st' c"
      by (intro io [of Idle t e]) (use Fail job_io_only_file [OF Fail(2) _ _ D(2)] f in simp_all)
    then show ?thesis by (simp add: Fail(3))
  next
    case (Transfer t e r w)
    note f = fetched [OF Transfer(1)]
    let ?c = "changed c (Changed (t_id t) (t_ino t) (job_op t))"
    have "carries (m_prims M) (m_crypto M) w (data_path (p_inner st) (t_ino t)) (fst r) (snd r) (?c (t_ino t))"
      if "bt_get (t_ino t) (entries (p_inner st)) \<noteq> None"
      by (rule fetched_job_carries [OF c k Transfer(1) that Transfer(2)]) simp
    then have "consistent M N dir st' ?c"
      by (intro io [of "Transferred t r" t e]) (use Transfer f job_io_only_file [OF Transfer(2) _ _ D(2)] in simp_all)
    then show ?thesis by (simp only: Transfer(3))
  next
    case (Commit t r rep s w)
    have wr: "wants_write t" and car: "bt_get (t_ino t) (entries (p_inner st)) \<noteq> None \<Longrightarrow> vec_ok (fst r)"
      using D(6) [OF k] Commit(1) carries_vec_ok by simp_all blast
    have "consistent M N dir st' c"
      by (intro consistent_commit [OF c k locks Commit(1) _ _ ts])
        (use Commit record_result_records [OF D(8,9,10,2) wr Commit(2) car] in simp_all)
    then show ?thesis by (simp add: Commit(3))
  qed
qed

interpretation contents: simulation "good_step M N" "consistent M N dir" changed for M N dir
proof
  fix st c ev st' assume c: "consistent M N dir st c" and s: "good_step M N st ev st'"
  from s show "consistent M N dir st' (changed c ev)"
  proof cases
    case (good_dispatcher req)
    have "consistent M N dir (st\<lparr>p_next := p_next st + 1\<rparr>) c" by (rule consistent_frame [OF c]) (simp_all add: tasks_def)
    moreover have "request_ok M N req (st\<lparr>p_next := p_next st + 1\<rparr>)" using good_dispatcher(5)
      by (cases "(M, N, req, st)" rule: request_ok.cases) simp_all
    ultimately show ?thesis using good_dispatcher(1,2) consistent_dispatch by simp
  next
    case (good_worker k)
    then show ?thesis by (rule consistent_advance [OF c])
  qed
qed

section \<open>Running one job\<close>

lemma good_run: "good_step M N s e s' \<Longrightarrow> run (good_step M N) s' es s'' \<Longrightarrow> run (good_step M N) s (e # es) s''"
  by (rule run_cons)

lemma run_append: "run stp s es s' \<Longrightarrow> run stp s' es' s'' \<Longrightarrow> run stp s (es @ es') s''"
  by (induction rule: run.induct) (auto intro: run_cons)

lemma work_run: "advance M k s = Some (e, s') \<Longrightarrow> run (work_step M) s' es s'' \<Longrightarrow> run (work_step M) s (e # es) s''"
  by (rule run_cons) (auto simp: work_step_def dest: advance_index)

lemma work_run_good: "run (work_step M) s es s' \<Longrightarrow> run (good_step M N) s es s'"
  by (induction rule: run.induct) (auto simp: work_step_def intro: run.intros good_worker)

text \<open>A worker that has taken a changing job and finds the lock free runs it to its end in four steps.\<close>

lemma job_run:
  assumes c: "consistent M N dir st c" and k: "k < length (p_workers st)" "p_workers st ! k = Blocked t" "can_lock t st"
    and wr: "wants_write t" and e: "bt_get (t_ino t) (entries (p_inner st)) = Some e"
  obtains r w1 rep s' w' where
    "run (work_step M) st [Internal, Internal, Changed (t_id t) (t_ino t) (job_op t), Internal]
       (finish k t rep (set_worker k (Transferred t r) (set_worker k (Fetched t e) (set_worker k (Locked t) (acquire t st)))
          \<lparr>p_inner := s', p_world := w'\<rparr>))"
    and "job_io M t e (p_world st) = (Inr r, w1)" and "record_result M t r (p_inner st) w1 = (rep, s', w')"
    and "carries (m_prims M) (m_crypto M) w1 (data_path (p_inner st) (t_ino t)) (fst r) (snd r) (file_spec (c (t_ino t)) (job_op t))"
proof -
  define st1 where "st1 = set_worker k (Locked t) (acquire t st)"
  define st2 where "st2 = set_worker k (Fetched t e) st1"
  have a1: "advance M k st = Some (Internal, st1)" using k by (simp add: advance_def st1_def)
  have a2: "advance M k st1 = Some (Internal, st2)"
    using k wr e by (simp add: advance_def st1_def st2_def fetch_def wants_write_def split: job.splits)
  have "consistent M N dir st1 c" using consistent_advance [OF c a1] by simp
  then have "carries (m_prims M) (m_crypto M) (p_world st) (data_path (p_inner st) (t_ino t)) (e_content_key e) (e_size e) (c (t_ino t))"
    using locked_carries [of M N dir st1 c k t e] k e by (simp add: st1_def)
  moreover have "t \<in> tasks st" using k by (force simp: tasks_def)
  then have "task_ok (p_inner st) t" using consistentD(4) [OF c] by blast
  ultimately obtain r w1 where io: "job_io M t e (p_world st) = (Inr r, w1)"
    "carries (m_prims M) (m_crypto M) w1 (data_path (p_inner st) (t_ino t)) (fst r) (snd r) (file_spec (c (t_ino t)) (job_op t))"
    using job_io_carries wr by blast
  define st3 where "st3 = set_worker k (Transferred t r) (st2\<lparr>p_world := w1\<rparr>)"
  have a3: "advance M k st2 = Some (Changed (t_id t) (t_ino t) (job_op t), st3)"
    using k io by (simp add: advance_def st1_def st2_def st3_def transfer_def)
  obtain rep s' w' where rr: "record_result M t r (p_inner st) w1 = (rep, s', w')" by (rule prod_cases3)
  have a4: "advance M k st3 = Some (Internal, finish k t rep (st3\<lparr>p_inner := s', p_world := w'\<rparr>))"
    using k rr by (simp add: advance_def st1_def st2_def st3_def commit_def)
  have "st3\<lparr>p_inner := s', p_world := w'\<rparr> = set_worker k (Transferred t r) st2\<lparr>p_inner := s', p_world := w'\<rparr>"
    by (simp add: st3_def set_worker_def)
  then show thesis
    using that [OF _ io(1) rr io(2)] work_run [OF a1 work_run [OF a2 work_run [OF a3 work_run [OF a4 run_nil]]]]
    by (simp add: st2_def st1_def)
qed

lemma finish_lock:
  assumes "can_lock t st"
  shows "lock_of (finish k t rep (set_worker k p3 (set_worker k p2 (set_worker k p1 (acquire t st)))\<lparr>p_inner := s, p_world := w\<rparr>)) = lock_of st"
  using assms by (auto simp: finish_def can_lock_def Let_def fun_eq_iff)

section \<open>Contents along a run\<close>

text \<open>The operations on one inode, in the order in which they were done.\<close>

fun changes_of :: "u64 \<Rightarrow> event list \<Rightarrow> file_op list" where
  "changes_of i [] = []"
| "changes_of i (Internal # evs) = changes_of i evs"
| "changes_of i (Changed n j op # evs) = (if j = i then op # changes_of i evs else changes_of i evs)"

lemma foldl_changed: "foldl changed c evs i = foldl file_spec (c i) (changes_of i evs)"
  by (induction i evs arbitrary: c rule: changes_of.induct) auto

text \<open>What the files of a file system just mounted contain.\<close>

definition contains_initially :: "mount_env \<Rightarrow> pqfs_inner \<Rightarrow> world \<Rightarrow> (u64 \<Rightarrow> bytes) \<Rightarrow> bool" where
  "contains_initially M s w c \<longleftrightarrow> (\<forall>i. next_ino s \<le> i \<longrightarrow> c i = []) \<and>
     (\<forall>i e. bt_get i (entries s) = Some e \<longrightarrow> e_kind e = File \<longrightarrow>
        carries (m_prims M) (m_crypto M) w (data_path s i) (e_content_key e) (e_size e) (c i))"

lemma consistent_new:
  assumes "mounted (m_prims M) (m_codec M) (m_crypto M) N dir inner" and "fault_free w" and "contains_initially M inner w c"
  shows "consistent M N dir (pqfs_new n inner w) c"
proof -
  have "tasks (pqfs_new n inner w) = {}" by (auto simp: tasks_def pqfs_new_def)
  then show ?thesis
    using assms locks_ok_new [of n inner w]
    by (auto simp: consistent_def pqfs_new_def contains_initially_def settled_files_def)
qed

lemma good_run_step: "run (good_step M N) s es s' \<Longrightarrow> run (step M) s es s'"
  by (induction rule: run.induct) (auto intro: run.intros good_step_step)

lemma uint_lt_unat: "uint (x :: i64) < 2 ^ 63 \<Longrightarrow> unat x < 2 ^ 63"
  by (metis of_nat_less_iff of_nat_power of_nat_numeral uint_nat)

lemma sint_lt63: "sint (off :: i64) < 2 ^ 63" using sint_lt [of off] by simp

lemma sint_nonneg: "\<not> sint (off :: i64) < 0 \<Longrightarrow> uint off < 2 ^ 63"
proof -
  assume a: "\<not> sint off < 0"
  have b: "uint off = take_bit 64 (sint off)" using uint_sint [of off] by simp
  have c: "take_bit 64 (sint off) = sint off" 
  proof (rule take_bit_int_eq_self)
    show "0 \<le> sint off" using a by linarith
    have "(2 :: int) ^ 63 < 2 ^ 64" by simp
    then show "sint off < 2 ^ 64" by (rule less_trans [OF sint_lt63])
  qed
  show ?thesis unfolding b c by (rule sint_lt63)
qed

text \<open>A signed offset and a 32-bit length never overflow.\<close>

lemma offset_plus_len: "unat (offset_or_zero off) + unat (len :: u32) < 2 ^ 64"
proof -
  have "unat (offset_or_zero off) < 2 ^ 63"
    using uint_lt_unat [OF sint_nonneg, of off] by (cases "sint off < 0") (simp_all add: offset_or_zero_def)
  moreover have "unat len < 2 ^ 32" using unsigned_less [of len, where ?'a = nat] by simp
  ultimately show ?thesis by simp
qed

lemma no_writer_settled:
  assumes c: "consistent M N dir st c" and none: "holders True ino st = 0"
    and e: "bt_get ino (entries (p_inner st)) = Some e" "e_kind e = File"
  shows "carries (m_prims M) (m_crypto M) (p_world st) (data_path (p_inner st) ino) (e_content_key e) (e_size e) (c ino)"
proof -
  note D = consistentD [OF c]
  have "\<not> transferred_on ino (p_workers st ! l)" if l: "l < length (p_workers st)" for l
    using D(6) [OF l] holders_pos [OF l, of True ino] none by (cases "p_workers st ! l") (auto simp: holds_for_def)
  then show ?thesis using D(7) e by (simp add: settled_files_def)
qed

end
