(* ===== verification/Footprint.thy ===== *)
theory Footprint
  imports Concurrency
begin

text \<open>
  Which files serving a mounted volume touches, whatever is requested and whichever file operations fail: the index,
  its temporary file and the data files, and none besides.
\<close>

section \<open>Files of a mounted volume\<close>

definition served_files :: "path \<Rightarrow> path set" where
  "served_files dir = {dir @ [INDEX_FILE], dir @ [''pqfs.tmp'']} \<union> range (\<lambda>f. dir @ [''data'', f])"

text \<open>\<open>confined dir d w\<close>: outside the files of the mounted volume at \<open>dir\<close> the files are those of \<open>d\<close>.\<close>

definition confined :: "path \<Rightarrow> (path \<rightharpoonup> bytes) \<Rightarrow> world \<Rightarrow> bool" where
  "confined dir d w \<longleftrightarrow> (\<forall>q. q \<notin> served_files dir \<longrightarrow> disk w q = d q)"

lemma confined_same: "disk w' = disk w \<Longrightarrow> confined dir d w \<Longrightarrow> confined dir d w'"
  by (simp add: confined_def)

lemma confined_tick: "confined dir d w \<Longrightarrow> confined dir d (tick w)"
  by (simp add: confined_def)

lemma served_data_path: "backend s = dir \<Longrightarrow> data_path s i \<in> served_files dir"
  by (simp add: served_files_def data_path_def)

lemma served_index: "dir @ [INDEX_FILE] \<in> served_files dir" "dir @ [''pqfs.tmp''] \<in> served_files dir"
  by (simp_all add: served_files_def)

named_theorems confines

lemma confines_files:
  assumes "f \<in> served_files dir"
  shows "preserves (confined dir d) (fs_open_rw f)" "preserves (confined dir d) (fs_write_all_at f off ys)"
    "preserves (confined dir d) (fs_set_len f n)" "preserves (confined dir d) (fs_create f)"
    "preserves (confined dir d) (fs_remove_file f)"
    "g \<in> served_files dir \<Longrightarrow> preserves (confined dir d) (fs_rename f g)"
  unfolding fs_open_rw_def fs_write_all_at_def fs_set_len_def fs_create_def fs_remove_file_def fs_rename_def
  by (intro preserves_intros confined_tick; use assms in \<open>auto simp: preserves_def confined_def split: option.splits\<close>)+

lemma confines_random [confines]: "preserves (confined dir d) (fill_bytes k)"
  by (simp add: preserves_def fill_bytes_def confined_def)

lemma confines_encrypt [confines]:
  "preserves (confined dir d) (encrypt P cr pl)" "preserves (confined dir d) (encrypt_filename P cr nm)"
  "preserves (confined dir d) random_key"
  unfolding encrypt_def encrypt_filename_def random_nonce_def random_key_def by (intro preserves_intros confines)+

lemma confines_save_index: "backend s = dir \<Longrightarrow> preserves (confined dir d) (save_index P C cr s)"
  unfolding save_index_eq replace_file_def
  by (intro preserves_intros confines confines_files preserves_read_only confined_tick) (simp_all add: served_index)

section \<open>File operations\<close>

lemma confines_read_block: "preserves (confined dir d) (read_block P key f sz i)"
  unfolding read_block_def by (intro preserves_intros preserves_read_only confined_tick)

lemma confines_write_block: "f \<in> served_files dir \<Longrightarrow> preserves (confined dir d) (write_block P key f i pl)"
  unfolding write_block_def encrypt_block_def random_nonce_def by (intro preserves_intros confines confines_files)

lemma confines_write_range:
  assumes "f \<in> served_files dir"
  shows "preserves (confined dir d) (write_range P key f sz offset data)"
proof -
  have "preserves (confined dir d) (write_blocks P key f sz new_size old_blocks offset data ixs)" for new_size old_blocks ixs
  proof (induction ixs)
    case (Cons i ixs)
    then show ?case
      unfolding write_blocks.simps by (intro preserves_intros confines_read_block confines_write_block assms) simp_all
  qed (simp add: preserves_intros)
  then show ?thesis unfolding write_range_def by (intro preserves_intros confines_files assms)
qed

lemma confines_truncate: "f \<in> served_files dir \<Longrightarrow> preserves (confined dir d) (Blocks.truncate P key f sz n)"
  unfolding Blocks.truncate_def
  by (intro preserves_intros confines_files confines_write_range confines_read_block confines_write_block)

lemma confined_ensure: "ensure_content_key P cr e w = (r, w') \<Longrightarrow> confined dir d w \<Longrightarrow> confined dir d w'"
proof -
  have "preserves (confined dir d) (bindE random_key (encrypt P cr))" by (intro preserves_intros confines)
  then show "ensure_content_key P cr e w = (r, w') \<Longrightarrow> confined dir d w \<Longrightarrow> confined dir d w'"
    by (fastforce simp: ensure_content_key_def preserves_def split: if_splits prod.splits sum.splits)
qed

definition job_file :: "task \<Rightarrow> path" where
  "job_file t = (case t_job t of ReadJob _ f _ _ \<Rightarrow> f | WriteJob f _ _ \<Rightarrow> f | SetattrJob f _ _ \<Rightarrow> f)"

lemma confined_job_io:
  assumes "job_io M t e w = (r, w')" and "job_file t \<in> served_files dir" and "confined dir d w"
  shows "confined dir d w'"
  using assms
  by (auto simp: job_io_def job_file_def do_write_data_def do_truncate_def split: job.splits prod.splits sum.splits unit.splits
      dest!: confined_ensure [where dir = dir and d = d] dest: preservesD [OF confines_write_range] preservesD [OF confines_truncate])

section \<open>Handlers\<close>

definition stays :: "path \<Rightarrow> (path \<rightharpoonup> bytes) \<Rightarrow> handler \<Rightarrow> bool" where
  "stays dir d h \<longleftrightarrow> (\<forall>s w rep s' w'. h s w = (rep, s', w') \<longrightarrow> backend s = dir \<longrightarrow> confined dir d w \<longrightarrow>
     backend s' = dir \<and> confined dir d w')"

lemma staysI:
  "(\<And>s w rep s' w'. h s w = (rep, s', w') \<Longrightarrow> backend s = dir \<Longrightarrow> confined dir d w \<Longrightarrow> backend s' = dir \<and> confined dir d w') \<Longrightarrow>
   stays dir d h"
  by (simp add: stays_def)

lemma staysD:
  "stays dir d h \<Longrightarrow> h s w = (rep, s', w') \<Longrightarrow> backend s = dir \<Longrightarrow> confined dir d w \<Longrightarrow> backend s' = dir \<and> confined dir d w'"
  by (auto simp: stays_def)

lemma save_then_confined:
  assumes "save_then P C cr rep s w = (rep', s', w')" and "backend s = dir" and "confined dir d w"
  shows "backend s' = dir \<and> confined dir d w'"
proof -
  have "confined dir d w'"
    using assms(1) preservesD [OF confines_save_index [OF assms(2)] assms(3)]
    by (auto simp: save_then_def split: prod.splits sum.splits)
  with save_then_state(2) [OF assms(1)] assms(2) show ?thesis by simp
qed

lemma encrypt_confined:
  "encrypt_filename P cr nm w = (r, w') \<Longrightarrow> confined dir d w \<Longrightarrow> confined dir d w'"
  "bindE random_key (encrypt P cr) w = (x, w') \<Longrightarrow> confined dir d w \<Longrightarrow> confined dir d w'"
  by (auto intro: preservesD [OF confines_encrypt(2)] preservesD [OF preserves_bindE [OF confines_encrypt(3,1)]])

lemma clock_confined:
  "timestamps_now w = (t, w') \<Longrightarrow> confined dir d w \<Longrightarrow> confined dir d w'"
  "touch_modified x w = (t, w') \<Longrightarrow> confined dir d w \<Longrightarrow> confined dir d w'"
  "relink i p h n s w = (s', w') \<Longrightarrow> confined dir d w \<Longrightarrow> confined dir d w' \<and> backend s' = backend s"
proof -
  have t: "disk (snd (timestamps_now w)) = disk w" "disk (snd (touch_modified x w)) = disk w" for x w
    using touch_run(2,3) by (metis drop_clock_sel(1))+
  show "timestamps_now w = (t, w') \<Longrightarrow> confined dir d w \<Longrightarrow> confined dir d w'"
    "touch_modified x w = (t, w') \<Longrightarrow> confined dir d w \<Longrightarrow> confined dir d w'"
    using t by (metis confined_same snd_conv)+
  show "relink i p h n s w = (s', w') \<Longrightarrow> confined dir d w \<Longrightarrow> confined dir d w' \<and> backend s' = backend s"
    using relink_sel(1) [of i p h n s w] relink_frame(2) [of i s _ p h n w]
    by (auto simp: confined_def relink_def split: option.splits)
qed

lemma allocate_backend: "allocate_ino s = (i, s') \<Longrightarrow> backend s' = backend s"
  by (auto simp: allocate_ino_def)

lemma remove_data_confined: "f \<in> served_files dir \<Longrightarrow> confined dir d w \<Longrightarrow> confined dir d (remove_data f w)"
  using confines_files(5) [of f dir d] by (auto simp: remove_data_def preserves_def)

lemmas confined_rules = save_then_confined encrypt_confined clock_confined allocate_backend

lemma stays_create: "stays dir d (create P C cr p nm mode)"
proof (rule staysI)
  fix s w rep s' w' assume run: "create P C cr p nm mode s w = (rep, s', w')" and s: "backend s = dir" "confined dir d w"
  obtain i s1 where i: "allocate_ino s = (i, s1)" "backend s1 = dir" using s(1) by (auto simp: allocate_ino_def)
  obtain x w1 where x: "encrypt_filename P cr (to_string_lossy nm) w = (x, w1)" by fastforce
  obtain y w2 where y: "bindE random_key (encrypt P cr) w1 = (y, w2)" by fastforce
  obtain t w3 where t: "timestamps_now w2 = (t, w3)" by fastforce
  have w1: "confined dir d w1" using encrypt_confined(1) [OF x s(2)] .
  have w2: "confined dir d w2" using encrypt_confined(2) [OF y w1] .
  have w3: "confined dir d w3" using clock_confined(1) [OF t w2] .
  show "backend s' = dir \<and> confined dir d w'"
    using run s w1 w2 w3 i
    by (auto simp: create_def Let_def x y t insert_entry_sel split: if_splits sum.splits dest!: save_then_confined [of _ _ _ _ _ w3 _ _ _ dir d])
qed

lemma stays_mkdir: "stays dir d (mkdir P C cr p nm mode)"
proof (rule staysI)
  fix s w rep s' w' assume run: "mkdir P C cr p nm mode s w = (rep, s', w')" and s: "backend s = dir" "confined dir d w"
  obtain i s1 where i: "allocate_ino s = (i, s1)" "backend s1 = dir" using s(1) by (auto simp: allocate_ino_def)
  obtain x w1 where x: "encrypt_filename P cr (to_string_lossy nm) w = (x, w1)" by fastforce
  obtain t w2 where t: "timestamps_now w1 = (t, w2)" by fastforce
  have w1: "confined dir d w1" using encrypt_confined(1) [OF x s(2)] .
  have w2: "confined dir d w2" using clock_confined(1) [OF t w1] .
  show "backend s' = dir \<and> confined dir d w'"
    using run s w1 w2 i
    by (auto simp: mkdir_def Let_def x t insert_entry_sel split: if_splits sum.splits dest!: save_then_confined [of _ _ _ _ _ w2 _ _ _ dir d])
qed

lemma stays_symlink: "stays dir d (symlink P C cr p nm target)"
proof (rule staysI)
  fix s w rep s' w' assume run: "symlink P C cr p nm target s w = (rep, s', w')" and s: "backend s = dir" "confined dir d w"
  obtain i s1 where i: "allocate_ino s = (i, s1)" "backend s1 = dir" using s(1) by (auto simp: allocate_ino_def)
  obtain x w1 where x: "encrypt_filename P cr (to_string_lossy target) w = (x, w1)" by fastforce
  obtain y w2 where y: "encrypt_filename P cr (to_string_lossy nm) w1 = (y, w2)" by fastforce
  obtain t w3 where t: "timestamps_now w2 = (t, w3)" by fastforce
  have w1: "confined dir d w1" using encrypt_confined(1) [OF x s(2)] .
  have w2: "confined dir d w2" using encrypt_confined(1) [OF y w1] .
  have w3: "confined dir d w3" using clock_confined(1) [OF t w2] .
  show "backend s' = dir \<and> confined dir d w'"
    using run s w1 w2 w3 i
    by (auto simp: symlink_def Let_def x y t insert_entry_sel split: if_splits sum.splits dest!: save_then_confined [of _ _ _ _ _ w3 _ _ _ dir d])
qed

lemma remove_entry_data_path: "data_path (snd (remove_entry j s)) = data_path s"
  by (rule data_path_frame) (rule remove_entry_sel(2))

lemma stays_remove: "stays dir d (unlink P C cr p nm)" "stays dir d (rmdir P C cr p nm)"
proof -
  have rm: "confined (backend s) d (remove_data (data_path s i) w)" if "confined (backend s) d w" for s w i
    using remove_data_confined [OF served_data_path] that by blast
  show "stays dir d (unlink P C cr p nm)"
    by (rule staysI) (auto simp: unlink_def Let_def remove_entry_sel remove_entry_data_path rm
        split: option.splits if_splits dest!: save_then_confined [where dir = dir and d = d])
  show "stays dir d (rmdir P C cr p nm)"
    by (rule staysI) (auto simp: rmdir_def remove_entry_sel
        split: option.splits if_splits dest!: save_then_confined [where dir = dir and d = d])
qed

lemma stays_rename_tail: "stays dir d (rename_tail P C cr i p nm)"
proof (rule staysI)
  fix s w rep s' w' assume run: "rename_tail P C cr i p nm s w = (rep, s', w')" and s: "backend s = dir" "confined dir d w"
  obtain x w1 where x: "encrypt_filename P cr nm w = (x, w1)" by fastforce
  have w1: "confined dir d w1" using encrypt_confined(1) [OF x s(2)] .
  show "backend s' = dir \<and> confined dir d w'"
  proof (cases x)
    case (Inl e)
    with run x s w1 show ?thesis by (simp add: rename_tail_def)
  next
    case (Inr ne)
    obtain s2 w2 where y: "relink i p (hash_filename P cr nm) ne s w1 = (s2, w2)" by fastforce
    note c = clock_confined(3) [OF y w1]
    from run x Inr y have "save_then P C cr ReplyOk s2 w2 = (rep, s', w')" by (simp add: rename_tail_def)
    then show ?thesis by (rule save_then_confined) (use c s in simp_all)
  qed
qed

lemma stays_rename: "stays dir d (rename P C cr p nm p' nm')"
proof (rule staysI)
  fix s w rep s' w' assume "rename P C cr p nm p' nm' s w = (rep, s', w')" and s: "backend s = dir" "confined dir d w"
  then show "backend s' = dir \<and> confined dir d w'"
  proof (cases rule: rename_cases)
    case (Replaced i j)
    show ?thesis
      by (rule staysD [OF stays_rename_tail Replaced])
        (use s remove_data_confined [OF served_data_path] in \<open>simp_all add: remove_entry_sel\<close>)
  qed (use s staysD [OF stays_rename_tail] in auto)
qed

lemma stays_serve: "stays dir d (serve P C cr r)"
  by (cases r) (simp_all add: stays_create stays_mkdir stays_symlink stays_remove stays_rename)

lemma stays_flush: "stays dir d (flush_reply P C cr)"
proof (rule staysI)
  fix s w rep s' w' assume run: "flush_reply P C cr s w = (rep, s', w')" and s: "backend s = dir" "confined dir d w"
  obtain x w1 where x: "save_index P C cr s w = (x, w1)" by fastforce
  have "confined dir d w1" by (rule preservesD [OF confines_save_index [OF s(1)] s(2) x])
  moreover have "backend s2 = dir" if "x = Inr s2" for s2
    using x that s(1) by (auto simp: save_index_eq ret_def elim!: bindE_InrE)
  ultimately show "backend s' = dir \<and> confined dir d w'"
    using run s x by (auto simp: flush_reply_def flush_index_def ret_def split: if_splits sum.splits)
qed

lemma confines_sync: "preserves (confined dir d) (sync f)"
proof -
  have "preserves (confined dir d) (bindE (fs_open f) (\<lambda>_. fs_sync_all f))"
    by (intro preserves_intros preserves_read_only confined_tick)
  then show ?thesis by (auto simp: preserves_def sync_def ret_def)
qed

lemma stays_sync_and_flush: "stays dir d (sync_and_flush P C cr ino)"
proof (rule staysI)
  fix s w rep s' w' assume run: "sync_and_flush P C cr ino s w = (rep, s', w')" and s: "backend s = dir" "confined dir d w"
  obtain x w1 where x: "sync (data_path s ino) w = (x, w1)" by fastforce
  have "confined dir d w1" by (rule preservesD [OF confines_sync s(2) x])
  then show "backend s' = dir \<and> confined dir d w'"
    using run s x staysD [OF stays_flush, of P C cr s w1 rep s' w' dir d] by (auto simp: sync_and_flush_def split: sum.splits)
qed

lemma stays_change_attr: "stays dir d (change_attr P C cr ino ch tr)"
proof (rule staysI)
  fix s w rep s' w' assume run: "change_attr P C cr ino ch tr s w = (rep, s', w')" and s: "backend s = dir" "confined dir d w"
  show "backend s' = dir \<and> confined dir d w'"
  proof (cases "bt_get ino (entries s)")
    case None
    with run s show ?thesis by (simp add: change_attr_def apply_setattr_def)
  next
    case (Some e)
    obtain e' rep' w1 where e': "change_attr P C cr ino ch tr s w = save_then P C cr rep' (set_entry ino e' s) w1" "disk w1 = disk w"
      unfolding change_attr_def using apply_setattr_run [OF Some, of P C cr "ac_mode ch" "ac_uid ch" "ac_gid ch" "ac_atime ch" "ac_mtime ch" tr w] by metis
    from run e'(1) have "save_then P C cr rep' (set_entry ino e' s) w1 = (rep, s', w')" by simp
    then show ?thesis by (rule save_then_confined) (use s e'(2) confined_same in \<open>simp_all add: set_entry_def\<close>)
  qed
qed

lemma stays_record_result: "stays dir d (record_result M t r)"
proof (cases "t_job t")
  case (WriteJob f off data)
  show ?thesis
    by (rule staysI) (auto simp: record_result_def WriteJob commit_write_def Let_def mark_dirty_def set_entry_def
        split: option.splits prod.splits dest: clock_confined(2))
next
  case (ReadJob e f off len)
  then show ?thesis by (auto simp: record_result_def intro: staysI)
next
  case (SetattrJob f ch m)
  then show ?thesis by (simp add: record_result_def stays_change_attr)
qed

section \<open>Runs\<close>

definition footprint :: "path \<Rightarrow> (path \<rightharpoonup> bytes) \<Rightarrow> pqfs \<Rightarrow> bool" where
  "footprint dir d st \<longleftrightarrow> backend (p_inner st) = dir \<and> confined dir d (p_world st) \<and>
     (\<forall>t \<in> tasks st. job_file t \<in> served_files dir)"

lemma footprint_frame:
  assumes "footprint dir d st" and "p_inner st' = p_inner st" and "p_world st' = p_world st" and "tasks st' \<subseteq> tasks st"
  shows "footprint dir d st'"
  using assms by (auto simp: footprint_def)

lemma footprint_handler:
  assumes "footprint dir d st" and "stays dir d h" and "h (p_inner st) (p_world st) = (rep, s, w)"
    and "p_inner st' = s" and "p_world st' = w" and "tasks st' \<subseteq> tasks st"
  shows "footprint dir d st'"
  using assms(1,4-) staysD [OF assms(2,3)] by (auto simp: footprint_def)

lemma footprint_write_inner:
  assumes "footprint dir d st" and "stays dir d h"
  shows "footprint dir d (write_inner h n st)"
proof -
  obtain rep s w where h: "h (p_inner st) (p_world st) = (rep, s, w)" by (rule prod_cases3)
  show ?thesis by (rule footprint_handler [OF assms h]) (simp_all add: write_inner_def h tasks_def)
qed

lemma footprint_lock: "footprint dir d st \<Longrightarrow> footprint dir d (inode_lock i st)"
  by (erule footprint_frame) simp_all

lemma footprint_reply: "footprint dir d st \<Longrightarrow> footprint dir d (send_reply n rep st)"
  by (erule footprint_frame) simp_all

lemma footprint_spawn:
  assumes "footprint dir d st" and "job_file t = data_path (p_inner st) ino"
  shows "footprint dir d (spawn_job t st)"
proof -
  have "tasks (spawn_job t st) \<subseteq> insert t (tasks st)" by (auto simp: tasks_def spawn_job_def)
  then show ?thesis
    using assms served_data_path [of "p_inner st" dir ino] by (auto simp: footprint_def spawn_job_def)
qed

lemma footprint_dispatch:
  assumes f: "footprint dir d st"
  shows "footprint dir d (dispatch M req n st)"
proof -
  note l = footprint_lock [OF f]
  note w = footprint_write_inner [OF f] footprint_write_inner [OF l]
  note r = footprint_reply [OF f] footprint_reply [OF l]
  note s = footprint_spawn [OF l]
  show ?thesis
    by (cases req)
      (auto simp: pqfs_read_def pqfs_write_def pqfs_setattr_def pqfs_fsync_def pqfs_flush_def pqfs_fsyncdir_def read_inner_def
        job_file_def Let_def r intro!: s w stays_serve stays_flush stays_sync_and_flush stays_change_attr split: option.split entry_kind.split)
qed

lemma footprint_advance:
  assumes f: "footprint dir d st" and adv: "advance M k st = Some (ev, st')"
  shows "footprint dir d st'"
proof -
  have k: "k < length (p_workers st)" by (rule advance_index [OF adv])
  have B: "backend (p_inner st) = dir" "confined dir d (p_world st)" "\<And>t. t \<in> tasks st \<Longrightarrow> job_file t \<in> served_files dir"
    using f by (simp_all add: footprint_def)
  have mine: "t \<in> tasks st" if "at_hand (p_workers st ! k) = Some t" for t using that k by (auto simp: tasks_def)
  have I: "footprint dir d st'" if "p_inner st' = p_inner st" "confined dir d (p_world st')" "p_workers st' = (p_workers st)[k := ph]"
    "set (p_queue st') \<subseteq> set (p_queue st)" "at_hand ph = None \<or> (\<exists>t. at_hand ph = Some t \<and> t \<in> tasks st)" for ph
    using that(1,2) tasks_set_worker [OF that(3-5)] B by (auto simp: footprint_def)
  from adv show ?thesis
  proof (cases rule: advance_cases)
    case (Take t q)
    show ?thesis by (rule I [of "Blocked t"]) (use Take B in \<open>auto simp: tasks_def\<close>)
  next
    case Leave
    show ?thesis by (rule I [of Exited]) (use Leave B in auto)
  next
    case (Lock t)
    show ?thesis by (rule I [of "Locked t"]) (use Lock B mine in auto)
  next
    case (Read t e fl off sz rep w)
    have "confined dir d w" by (rule do_read_keeps [OF Read(3), of "confined dir d"]) (use B confined_tick in auto)
    then show ?thesis by (intro I [of Idle]) (use Read in auto)
  next
    case (Gone t)
    show ?thesis by (rule I [of Idle]) (use Gone B in auto)
  next
    case (Fetch t e)
    show ?thesis by (rule I [of "Fetched t e"]) (use Fetch B mine in auto)
  next
    case (Fail t e code w)
    have "confined dir d w" by (rule confined_job_io [OF Fail(2)]) (use B mine Fail(1) in auto)
    then show ?thesis by (intro I [of Idle]) (use Fail in auto)
  next
    case (Transfer t e r w)
    have "confined dir d w" by (rule confined_job_io [OF Transfer(2)]) (use B mine Transfer(1) in auto)
    then show ?thesis by (intro I [of "Transferred t r"]) (use Transfer mine in auto)
  next
    case (Commit t r rep s w)
    have "tasks st' \<subseteq> tasks st" by (rule tasks_set_worker [of _ _ k Idle]) (use Commit in auto)
    then show ?thesis by (intro footprint_handler [OF f stays_record_result Commit(2)]) (use Commit in simp_all)
  qed
qed

interpretation footprint: invariant "step M" "footprint dir d" for M dir d
proof
  fix st e st' assume f: "footprint dir d st" and s: "step M st e st'"
  from s show "footprint dir d st'"
  proof cases
    case (dispatcher req)
    have "footprint dir d (st\<lparr>p_next := p_next st + 1\<rparr>)" by (rule footprint_frame [OF f]) (simp_all add: tasks_def)
    then show ?thesis using dispatcher footprint_dispatch by simp
  next
    case (worker k)
    then show ?thesis by (rule footprint_advance [OF f])
  qed
qed

lemma footprint_new: "footprint (backend inner) (disk w) (pqfs_new n inner w)"
  by (auto simp: footprint_def confined_def tasks_def pqfs_new_def)

lemma footprint_drop:
  assumes f: "footprint dir d st"
  shows "footprint dir d (drop_pqfs M st)"
proof -
  obtain rep s w where h: "flush_reply (m_prims M) (m_codec M) (m_crypto M) (p_inner st) (p_world st) = (rep, s, w)" by (rule prod_cases3)
  have "p_inner (drop_pqfs M st) = s \<and> p_world (drop_pqfs M st) = w"
    using h by (auto simp: flush_reply_def drop_pqfs_def split: prod.splits sum.splits)
  moreover have "tasks (drop_pqfs M st) = tasks st" by (simp add: drop_pqfs_def tasks_def split: prod.split sum.split)
  ultimately show ?thesis using footprint_handler [OF f stays_flush h] by simp
qed

end
