(* ===== verification/Coherence.thy ===== *)
theory Coherence
  imports Concurrency
begin

text \<open>
  What clients see of the concurrent file system: updates, reads, the race of a read with a
  truncation, and what an unmount leaves behind.
\<close>

section \<open>Requests that arrive\<close>

definition received :: "mount_env \<Rightarrow> fuse_request \<Rightarrow> pqfs \<Rightarrow> pqfs" where
  "received M req st = dispatch M req (p_next st) (st\<lparr>p_next := p_next st + 1\<rparr>)"

section \<open>A file system at rest\<close>

definition idle :: "pqfs \<Rightarrow> bool" where
  "idle st \<longleftrightarrow> p_open st \<and> p_queue st = [] \<and> 2 \<le> length (p_workers st) \<and> set (p_workers st) = {Idle}"

lemma idle_worker: "idle st \<Longrightarrow> k < length (p_workers st) \<Longrightarrow> p_workers st ! k = Idle"
  using nth_mem by (fastforce simp: idle_def)

lemma idle_locks: "idle st \<Longrightarrow> locks_ok st \<Longrightarrow> \<not> writer (lock_of st i) \<and> readers (lock_of st i) = 0"
  by (auto simp: idle_def locks_ok_def holders_def holds_for_def filter_empty_conv split: if_splits)

lemma idle_can_lock: "idle st \<Longrightarrow> locks_ok st \<Longrightarrow> can_lock t st"
  using idle_locks [of st] by (simp add: can_lock_def Let_def)

lemma received_step:
  assumes "p_open st" and "may_dispatch req st" and "request_ok M N req st"
  shows "good_step M N st Internal (received M req st)"
  unfolding received_def using assms by (rule good_dispatcher)

text \<open>A write that is alone in the queue is done and acknowledged; it changes no file but the data file.\<close>

lemma queued_write_run:
  assumes c: "consistent M N dir st c" and q: "p_queue st = [t]" and w0: "0 < length (p_workers st)" "p_workers st ! 0 = Idle"
    and t: "t_ino t = ino" "t_job t = WriteJob (data_path (p_inner st) ino) off data" and cl: "can_lock t st"
    and e: "bt_get ino (entries (p_inner st)) = Some e" "e_kind e = File"
  obtains st' e' where "run (work_step M) st [Internal, Internal, Internal, Changed (t_id t) ino (WriteAt (offset_or_zero off) data), Internal] st'"
    and "p_workers st' = p_workers st" and "p_queue st' = []" and "p_open st' = p_open st" and "p_next st' = p_next st"
    and "bt_get ino (entries (p_inner st')) = Some e'" and "e_kind e' = File"
    and "p_replies st' = p_replies st @ [(t_id t, ReplyWritten (of_nat (length data)))]"
    and "unat (e_size e') = length (overwrite (unat (offset_or_zero off)) data (c ino))"
    and "only_file (data_path (p_inner st) ino) (disk (p_world st)) (p_world st')"
proof -
  define st2 where "st2 = set_worker 0 (Blocked t) (st\<lparr>p_queue := []\<rparr>)"
  have a2: "advance M 0 st = Some (Internal, st2)" using w0 q by (simp add: st2_def advance_def)
  have c2: "consistent M N dir st2 c" using consistent_advance [OF c a2] by simp
  have F2: "p_inner st2 = p_inner st" "p_world st2 = p_world st" "p_workers st2 = (p_workers st)[0 := Blocked t]"
    "p_queue st2 = []" "p_open st2 = p_open st" "p_next st2 = p_next st" "p_replies st2 = p_replies st" "lock_of st2 = lock_of st"
    by (simp_all add: st2_def)
  have cl2: "can_lock t st2" using cl by (simp add: can_lock_def F2)
  have e2: "bt_get (t_ino t) (entries (p_inner st2)) = Some e" using e t by (simp add: F2)
  have b2: "0 < length (p_workers st2)" "p_workers st2 ! 0 = Blocked t" using w0 by (simp_all add: F2)
  have wr: "wants_write t" by (simp add: wants_write_def t)
  obtain r w1 rep s' w' where r: "run (work_step M) st2 [Internal, Internal, Changed (t_id t) (t_ino t) (job_op t), Internal]
       (finish 0 t rep (set_worker 0 (Transferred t r) (set_worker 0 (Fetched t e) (set_worker 0 (Locked t) (acquire t st2)))
          \<lparr>p_inner := s', p_world := w'\<rparr>))" (is "run _ _ _ ?st'")
    and io: "job_io M t e (p_world st2) = (Inr r, w1)" and rr: "record_result M t r (p_inner st2) w1 = (rep, s', w')"
    and car: "carries (m_prims M) (m_crypto M) w1 (data_path (p_inner st2) (t_ino t)) (fst r) (snd r) (file_spec (c (t_ino t)) (job_op t))"
    by (rule job_run [OF c2 b2 cl2 wr e2])
  define stF where "stF = ?st'"
  have F: "p_workers stF = (p_workers st)[0 := Idle]" "p_queue stF = []" "p_open stF = p_open st" "p_next stF = p_next st"
    "p_replies stF = p_replies st @ [(t_id t, rep)]" "p_inner stF = s'" "p_world stF = w'"
    by (simp_all add: stF_def finish_def F2)
  have idle0: "(p_workers st)[0 := Idle] = p_workers st" using w0(2) by (metis list_update_id)
  have rep: "rep = ReplyWritten (of_nat (length data))" "w' = drop_clock w1"
    "\<exists>e'. bt_get ino (entries s') = Some e' \<and> e_kind e' = File \<and> e_size e' = snd r"
    using rr e unfolding F2 by (auto simp: record_result_def t commit_write_def case_prod_beta Let_def mark_dirty_def set_entry_def bt_get_insert)
  then obtain e' where e': "bt_get ino (entries s') = Some e'" "e_kind e' = File" "e_size e' = snd r" by blast
  have "t \<in> tasks st" using q by (simp add: tasks_def)
  note D = consistentD [OF c]
  have "only_file (data_path (p_inner st) ino) (disk (p_world st)) w1"
    using job_io_only_file [OF io [unfolded F2] D(4) [OF \<open>t \<in> tasks st\<close>] wr D(2)] t(1) by simp
  then have "only_file (data_path (p_inner st) ino) (disk (p_world st)) (p_world stF)" by (simp add: only_file_def F rep(2))
  moreover have op: "job_op t = WriteAt (offset_or_zero off) data" by (simp add: job_op_def t)
  moreover have "unat (e_size e') = length (overwrite (unat (offset_or_zero off)) data (c ino))"
    using car e'(3) by (simp add: carries_def job_op_def t)
  moreover have "run (work_step M) st [Internal, Internal, Internal, Changed (t_id t) ino (WriteAt (offset_or_zero off) data), Internal] stF"
    using work_run [OF a2 r [folded stF_def]] unfolding op t(1) .
  ultimately show thesis
    using that [of stF e'] e' rep(1) F idle0 by simp
qed

text \<open>A write to a file at rest.\<close>

lemma received_write_idle:
  assumes "idle st" and "bt_get ino (entries (p_inner st)) = Some e" and "e_kind e = File"
  shows "received M (WriteRequest ino off data) st = inode_lock ino (st\<lparr>p_next := p_next st + 1\<rparr>)
    \<lparr>p_queue := [\<lparr>t_id = p_next st, t_ino = ino, t_job = WriteJob (data_path (p_inner st) ino) off data\<rparr>]\<rparr>"
  using assms by (simp add: received_def pqfs_write_def Let_def spawn_job_def idle_def)

lemma write_run:
  assumes c: "consistent M N dir st c" and i: "idle st" and e: "bt_get ino (entries (p_inner st)) = Some e" "e_kind e = File"
    and fits: "unat (offset_or_zero off) + length data \<le> max_size"
  obtains st' e' where "good_step M N st Internal (received M (WriteRequest ino off data) st)"
    and "run (good_step M N) (received M (WriteRequest ino off data) st)
      [Internal, Internal, Internal, Changed (p_next st) ino (WriteAt (offset_or_zero off) data), Internal] st'"
    and "idle st'" and "bt_get ino (entries (p_inner st')) = Some e'" and "e_kind e' = File"
    and "p_replies st' = p_replies st @ [(p_next st, ReplyWritten (of_nat (length data)))]" and "p_next st' = p_next st + 1"
    and "unat (e_size e') = length (overwrite (unat (offset_or_zero off)) data (c ino))"
proof -
  let ?t = "\<lparr>t_id = p_next st, t_ino = ino, t_job = WriteJob (data_path (p_inner st) ino) off data\<rparr> :: task"
  define st1 where "st1 = received M (WriteRequest ino off data) st"
  have F1: "p_open st1" "p_next st1 = p_next st + 1" "p_inner st1 = p_inner st" "p_queue st1 = [?t]" "p_workers st1 = p_workers st"
    "p_replies st1 = p_replies st" "lock_of st1 = lock_of st"
    using i by (simp_all add: st1_def received_write_idle [OF i e] idle_def)
  have s1: "good_step M N st Internal st1" unfolding st1_def using i fits by (intro received_step) (simp_all add: idle_def)
  have c1: "consistent M N dir st1 c" using contents.sim [OF c s1] by simp
  have pos: "0 < length (p_workers st1)" "p_workers st1 ! 0 = Idle"
    using i idle_worker [OF i, of 0] unfolding F1 idle_def by linarith+
  have cl: "can_lock ?t st1" using idle_can_lock [OF i consistentD(3) [OF c], of ?t] by (simp add: can_lock_def F1)
  have t: "t_ino ?t = ino" "t_job ?t = WriteJob (data_path (p_inner st1) ino) off data" by (simp_all add: F1)
  obtain st' e' where r: "run (work_step M) st1 [Internal, Internal, Internal, Changed (t_id ?t) ino (WriteAt (offset_or_zero off) data), Internal] st'"
    "p_workers st' = p_workers st1" "p_queue st' = []" "p_open st' = p_open st1" "p_next st' = p_next st1"
    "bt_get ino (entries (p_inner st')) = Some e'" "e_kind e' = File"
    "p_replies st' = p_replies st1 @ [(t_id ?t, ReplyWritten (of_nat (length data)))]"
    "unat (e_size e') = length (overwrite (unat (offset_or_zero off)) data (c ino))"
    "only_file (data_path (p_inner st1) ino) (disk (p_world st1)) (p_world st')"
    by (rule queued_write_run [OF c1 F1(4) pos t cl e [folded F1(3)]])
  have "idle st'" using i r(2-4) F1 by (simp add: idle_def)
  then show thesis
    using that [OF s1 [unfolded st1_def] _ _ r(6,7)] work_run_good [OF r(1), of N] r F1 by (simp add: st1_def)
qed

section \<open>A mount with one file\<close>

definition sample_created :: pqfs where
  "sample_created = received sample_mount (MetaRequest (Create 1 [97] 420)) (pqfs_new 2 sample_fs sample_fs_world)"

lemma sample_initially: "contains_initially sample_mount sample_fs sample_fs_world (\<lambda>_. [])"
proof -
  have "e_kind e = Dir" if "bt_get i (entries sample_fs) = Some e" for i e
    using sample_mounted(2) that by (auto simp: fun_eq_iff ns_of_def split: if_splits dest!: arg_cong [where f = ns_kind] dest: spec [of _ i])
  then show ?thesis by (auto simp: contains_initially_def)
qed

lemma sample_mount_sel [simp]:
  "m_prims sample_mount = sample_prims" "m_codec sample_mount = bincode_index" "m_crypto sample_mount = sample_crypto"
  by (simp_all add: sample_mount_def)

lemma serve_clean:
  assumes "fs_ok P cr N s" and "name_space P cr N" and "admissible N r (ns_of P cr s)"
    and "serve P C cr r s w = (rep, s', w')" and "succeeded rep"
  shows "\<not> dirty s'"
proof -
  have cl: "\<not> dirty s2" if "save_then P C cr r1 s1 w1 = (rep, s2, w2)" for r1 s1 s2 w1 w2
    using that assms(5) by (auto simp: save_then_def save_index_eq ret_def succeeded_def elim!: bindE_InrE split: prod.splits sum.splits)
  show ?thesis
    using serve_implements [OF assms(1-3), of C w] unfolding implements_def assms(4)
  proof (elim disjE exE conjE)
    fix e assume "(rep, s', w') = (ReplyError e, s, w)"
    with assms(5) show ?thesis by (simp add: succeeded_def)
  next
    fix r1 s1 w1 assume "(rep, s', w') = save_then P C cr r1 s1 w1"
    then show ?thesis using cl by metis
  qed
qed

lemma sample_created:
  obtains e where "run (good_step sample_mount sample_names) (pqfs_new 2 sample_fs sample_fs_world) [Internal] sample_created"
    and "consistent sample_mount sample_names [''v''] sample_created (\<lambda>_. [])" and "idle sample_created"
    and "bt_get 2 (entries (p_inner sample_created)) = Some e" and "e_kind e = File" and "p_next sample_created = 1"
    and "\<not> dirty (p_inner sample_created)" and "on_disk sample_prims bincode_index sample_crypto [''v''] (p_world sample_created) (entries (p_inner sample_created))"
proof -
  let ?st = "pqfs_new 2 sample_fs sample_fs_world"
  have c0: "consistent sample_mount sample_names [''v''] ?st (\<lambda>_. [])"
    by (rule consistent_new) (simp_all add: sample_mounted sample_initially)
  have adm: "admissible sample_names (Create 1 [97] 420) (ns_of sample_prims sample_crypto sample_fs)"
    by (simp add: sample_mounted(2) may_add_def sample_names_def FUSE_ROOT_ID_def utf8_unit_def)
  have s: "good_step sample_mount sample_names ?st Internal sample_created"
    unfolding sample_created_def using adm by (intro received_step) (simp_all add: pqfs_new_def)
  obtain rep s' w' where sv: "serve sample_prims bincode_index sample_crypto (Create 1 [97] 420) sample_fs sample_fs_world = (rep, s', w')"
    "succeeded rep" using sample_create by (auto simp: succeeded_def)
  have st: "sample_created = send_reply 0 rep (?st\<lparr>p_next := 1, p_inner := s', p_world := w'\<rparr>)"
    using sv(1) by (simp add: sample_created_def received_def write_inner_def pqfs_new_def)
  have ok: "fs_ok sample_prims sample_crypto sample_names sample_fs" "backend sample_fs = [''v'']"
    using sample_mounted(1) by (simp_all add: mounted_def)
  have clean: "\<not> dirty s'" by (rule serve_clean [OF ok(1) sample_name_space adm sv])
  have served: "served sample_prims bincode_index sample_crypto sample_names (specified (Create 1 [97] 420)) sample_fs sample_fs_world rep s' w'"
    by (rule serve_served [OF ok(1) sample_name_space bincode_index_laws adm sv(1)])
  then have idx: "on_disk sample_prims bincode_index sample_crypto [''v''] w' (entries s')"
    using sv(2) ok(2) by (simp add: served_def succeeded_iff)
  from served have "ns_of sample_prims sample_crypto s' = snd (specified (Create 1 [97] 420) (ns_of sample_prims sample_crypto sample_fs))"
    by (simp add: served_def)
  then have "ns_kind (ns_of sample_prims sample_crypto s') 2 = Some File"
    by (simp add: sample_mounted(2) spec_add_def)
  then obtain e where "bt_get 2 (entries s') = Some e" "e_kind e = File" by auto
  moreover have "idle sample_created" by (simp add: st idle_def pqfs_new_def)
  ultimately show thesis
    using that [of e] contents.sim [OF c0 s] good_run [OF s run_nil] clean idx by (simp add: st pqfs_new_def)
qed

section \<open>Reading with an entry that is out of date\<close>

lemma truncate_to_nothing:
  assumes c: "carries P cr w f (e_content_key e) (e_size e) bs" and sz: "0 < e_size e" and run: "do_truncate P cr e f 0 w = (Inr r, w')"
  shows "disk w' f = Some []" and "\<exists>key. decrypt_content_key P cr (e_content_key e) = Inr key"
proof -
  have "bs \<noteq> []" using c sz by (auto simp: carries_def word_less_nat_alt)
  then obtain key where key: "e_content_key e \<noteq> []" "decrypt_content_key P cr (e_content_key e) = Inr key" "fault_free w"
    using c carriesD [OF c] by (auto simp: carries_def split: if_splits)
  then show "\<exists>key. decrypt_content_key P cr (e_content_key e) = Inr key" by blast
  have "Blocks.truncate P key f (e_size e) 0 w = bindE (fs_open_rw f) (\<lambda>_. fs_set_len f 0) w"
    using sz by (auto simp: Blocks.truncate_def Let_def block_count_def div_ceil_def)
  moreover obtain w1 raw where "fs_open_rw f w = (Inr (), w1)" "fault_free w1" "disk w1 f = Some raw"
    using key(3) by (cases "disk w f") (auto simp: fs_ok fs_ok_present)
  ultimately show "disk w' f = Some []"
    using run key by (auto simp: do_truncate_def ensure_content_key_def bindE_def fs_ok_present fs_ok resize_def split: unit.splits)
qed

lemma do_read_nothing_left:
  assumes w: "fault_free w" "disk w f = Some []" and key: "decrypt_content_key P cr (e_content_key e) = Inr key"
    and sz: "0 < e_size e" "0 < len"
  shows "\<exists>w'. do_read P cr e f 0 len w = (ReplyError EIO, w')"
proof -
  let ?l = "ucast len :: u64"
  have "unat ?l = unat len" using unsigned_less [of len, where ?'a = nat] by (simp add: unsigned_ucast_eq take_bit_nat_eq_self)
  then have l: "?l \<noteq> 0" using sz(2) by (auto simp: word_less_nat_alt)
  have ixs: "\<exists>ixs. u64_range_incl 0 b = 0 # ixs" for b
    by (simp add: u64_range_incl_def upt_conv_Cons del: upt_Suc)
  have rl: "unat (record_len (e_size e) 0) \<noteq> 0" using unat_record_len [of 0 "e_size e"] by simp
  have "read_block P key f (e_size e) 0 v = (Inl IoError, tick v)" if "fault_free v" "disk v f = Some []" for v
    using that rl by (simp add: read_block_def bindE_def fs_read_exact_at_def fs_op_fault_free)
  then have rb: "fst (read_blocks P key f (e_size e) 0 b (u64_range_incl 0 b') [] (tick w)) = Inl IoError" for b b'
    using ixs [of b'] w by (auto simp: bindE_def)
  have "fst (read_range P key f (e_size e) 0 ?l w) = Inl IoError"
    using l sz(1) w rb by (auto simp: read_range_def Let_def bindE_def fs_ok_present)
  then show ?thesis
    using w(2) key by (auto simp: do_read_def fs_exists_def offset_or_zero_def case_prod_beta split: sum.splits prod.splits)
qed

text \<open>
  A read and a truncation to nothing received one after the other, and taken up by two workers of which
  the second is first to get the lock.
\<close>

lemma read_and_truncation_taken:
  assumes c: "consistent M N dir st c" and i: "idle st" and e: "bt_get ino (entries (p_inner st)) = Some e" "e_kind e = File"
    and t: "t = \<lparr>t_id = p_next st, t_ino = ino, t_job = ReadJob e (data_path (p_inner st) ino) 0 len\<rparr>"
    and u: "u = \<lparr>t_id = p_next st + 1, t_ino = ino, t_job = SetattrJob (data_path (p_inner st) ino) ch 0\<rparr>"
  obtains st' where "run (work_step M) (received M (SetattrRequest ino ch (Some 0)) (received M (ReadRequest ino 0 len) st)) [Internal, Internal] st'"
    and "consistent M N dir st' c" and "p_workers st' = (p_workers st)[0 := Blocked t, 1 := Blocked u]" and "p_inner st' = p_inner st"
    and "p_world st' = p_world st" and "p_replies st' = p_replies st" and "lock_of st' = lock_of st" and "1 < length (p_workers st)"
proof -
  define st1 where "st1 = received M (ReadRequest ino 0 len) st"
  define st2 where "st2 = received M (SetattrRequest ino ch (Some 0)) st1"
  have st1: "st1 = inode_lock ino (st\<lparr>p_next := p_next st + 1\<rparr>)\<lparr>p_queue := [t]\<rparr>"
    using i e by (simp add: st1_def received_def pqfs_read_def Let_def spawn_job_def idle_def t)
  have F1: "p_open st1" "p_next st1 = p_next st + 1" "p_inner st1 = p_inner st" "p_queue st1 = [t]" "p_workers st1 = p_workers st"
    "p_replies st1 = p_replies st" "p_world st1 = p_world st" "lock_of st1 = lock_of st"
    using i by (simp_all add: st1 idle_def)
  have st2: "st2 = inode_lock ino (st1\<lparr>p_next := p_next st + 2\<rparr>)\<lparr>p_queue := [t, u]\<rparr>"
    using e by (simp add: st2_def received_def pqfs_setattr_def Let_def spawn_job_def F1 u)
  have F2: "p_open st2" "p_inner st2 = p_inner st" "p_queue st2 = [t, u]" "p_workers st2 = p_workers st"
    "p_replies st2 = p_replies st" "p_world st2 = p_world st" "lock_of st2 = lock_of st"
    by (simp_all add: st2 F1)
  have s1: "good_step M N st Internal st1" unfolding st1_def using i by (intro received_step) (simp_all add: idle_def)
  have s2: "good_step M N st1 Internal st2" unfolding st2_def using F1(1) by (intro received_step) simp_all
  have pos: "0 < length (p_workers st)" "1 < length (p_workers st)" using i unfolding idle_def by linarith+
  define st3 where "st3 = set_worker 0 (Blocked t) (st2\<lparr>p_queue := [u]\<rparr>)"
  define st4 where "st4 = set_worker 1 (Blocked u) (st3\<lparr>p_queue := []\<rparr>)"
  have a3: "advance M 0 st2 = Some (Internal, st3)" using pos idle_worker [OF i pos(1)] by (simp add: advance_def F2 st3_def)
  have F3: "p_workers st3 = (p_workers st)[0 := Blocked t]" "p_queue st3 = [u]" by (simp_all add: st3_def F2)
  have a4: "advance M 1 st3 = Some (Internal, st4)" using pos idle_worker [OF i pos(2)] by (simp add: advance_def F3 st4_def)
  have "consistent M N dir st4 c"
    using contents.sim [OF contents.sim [OF contents.sim [OF contents.sim [OF c s1] s2] good_worker [OF a3]] good_worker [OF a4]] by simp
  moreover have "p_workers st4 = (p_workers st)[0 := Blocked t, 1 := Blocked u]" "p_inner st4 = p_inner st" "p_world st4 = p_world st"
    "p_replies st4 = p_replies st" "lock_of st4 = lock_of st"
    by (simp_all add: st4_def st3_def F2)
  moreover have "run (work_step M) st2 [Internal, Internal] st4" by (rule work_run [OF a3 work_run [OF a4 run_nil]])
  ultimately show thesis using that pos(2) unfolding st2_def st1_def by blast
qed

lemma read_loses_race:
  assumes c: "consistent M N dir st c" and i: "idle st" and e: "bt_get ino (entries (p_inner st)) = Some e" "e_kind e = File"
    and sz: "0 < e_size e" "0 < len"
  shows "\<exists>evs rep st'. run (good_step M N) (received M (SetattrRequest ino ch (Some 0)) (received M (ReadRequest ino 0 len) st)) evs st' \<and>
    p_replies st' = p_replies st @ [(p_next st + 1, rep), (p_next st, ReplyError EIO)]"
proof -
  let ?f = "data_path (p_inner st) ino" and ?n = "p_next st" and ?P = "m_prims M" and ?cr = "m_crypto M"
  define t :: task where "t = \<lparr>t_id = ?n, t_ino = ino, t_job = ReadJob e ?f 0 len\<rparr>"
  define u :: task where "u = \<lparr>t_id = ?n + 1, t_ino = ino, t_job = SetattrJob ?f ch 0\<rparr>"
  note D = consistentD [OF c]
  obtain st4 where r4: "run (work_step M) (received M (SetattrRequest ino ch (Some 0)) (received M (ReadRequest ino 0 len) st)) [Internal, Internal] st4"
    and c4: "consistent M N dir st4 c" and F4: "p_workers st4 = (p_workers st)[0 := Blocked t, 1 := Blocked u]" "p_inner st4 = p_inner st"
      "p_world st4 = p_world st" "p_replies st4 = p_replies st" "lock_of st4 = lock_of st" and pos1: "1 < length (p_workers st)"
    by (rule read_and_truncation_taken [OF c i e t_def u_def])
  have pos: "0 < length (p_workers st)" "1 < length (p_workers st)" using pos1 by linarith+
  have cl: "can_lock v st4" for v
    using idle_can_lock [OF i D(3), of v] by (simp add: can_lock_def F4)
  have b4: "1 < length (p_workers st4)" "p_workers st4 ! 1 = Blocked u" using pos by (simp_all add: F4)
  have wr: "wants_write u" by (simp add: wants_write_def u_def)
  have e4: "bt_get (t_ino u) (entries (p_inner st4)) = Some e" using e by (simp add: F4 u_def)
  obtain r v1 rep s' v' where r: "run (work_step M) st4 [Internal, Internal, Changed (t_id u) (t_ino u) (job_op u), Internal]
       (finish 1 u rep (set_worker 1 (Transferred u r) (set_worker 1 (Fetched u e) (set_worker 1 (Locked u) (acquire u st4)))
          \<lparr>p_inner := s', p_world := v'\<rparr>))" (is "run _ _ _ ?st5")
    and io: "job_io M u e (p_world st4) = (Inr r, v1)" and rr: "record_result M u r (p_inner st4) v1 = (rep, s', v')"
    and car: "carries ?P ?cr v1 (data_path (p_inner st4) (t_ino u)) (fst r) (snd r) (file_spec (c (t_ino u)) (job_op u))"
    by (rule job_run [OF c4 b4 cl wr e4])
  define st5 where "st5 = ?st5"
  have F5: "p_workers st5 = (p_workers st)[0 := Blocked t, 1 := Idle]" "p_world st5 = v'" "p_replies st5 = p_replies st @ [(?n + 1, rep)]"
    by (simp_all add: st5_def finish_def F4) (simp add: u_def)
  have l5: "lock_of st5 = lock_of st" unfolding st5_def finish_lock [OF cl] by (rule F4)
  have "holders True ino st = 0" using i by (simp add: holders_def holds_for_def idle_def filter_empty_conv)
  note car0 = no_writer_settled [OF c this e]
  have tr: "do_truncate ?P ?cr e ?f 0 (p_world st) = (Inr r, v1)" using io by (simp add: job_io_def F4 u_def)
  obtain key where key: "decrypt_content_key ?P ?cr (e_content_key e) = Inr key" using truncate_to_nothing(2) [OF car0 sz(1) tr] by blast
  have "records ?P ?cr N (p_inner st) v1 ino r s' v'"
    using record_result_records [OF D(8,9,10) _ wr rr [unfolded F4(2)]] carriesD [OF car] carries_vec_ok [OF car] by (simp add: u_def)
  then have "fault_free v'" "disk v' ?f = Some []" using truncate_to_nothing(1) [OF car0 sz(1) tr] by (simp_all add: records_def)
  then obtain v where v: "do_read ?P ?cr e ?f 0 len v' = (ReplyError EIO, v)" using do_read_nothing_left [OF _ _ key sz] by blast
  define st6 where "st6 = set_worker 0 (Locked t) (acquire t st5)"
  define st7 where "st7 = finish 0 t (ReplyError EIO) (st6\<lparr>p_world := v\<rparr>)"
  have "can_lock t st5" using cl [of t] by (simp add: can_lock_def l5 F4)
  then have a6: "advance M 0 st5 = Some (Internal, st6)" using pos by (simp add: advance_def F5 st6_def)
  have a7: "advance M 0 st6 = Some (Internal, st7)"
    using pos v by (simp add: advance_def st6_def st7_def F5 fetch_def t_def)
  note run_append [OF r4 run_append [OF r [folded st5_def] work_run [OF a6 work_run [OF a7 run_nil]]]]
  moreover have "p_replies st7 = p_replies st @ [(?n + 1, rep), (?n, ReplyError EIO)]" by (simp add: st7_def st6_def finish_def F5 t_def)
  ultimately show ?thesis by (blast intro: work_run_good)
qed

lemma changes_of_append: "changes_of i (xs @ ys) = changes_of i xs @ changes_of i ys"
  by (induction i xs rule: changes_of.induct) auto

lemma sample_write:
  obtains st e where "run (good_step sample_mount sample_names) (pqfs_new 2 sample_fs sample_fs_world) [Internal] sample_created"
    and "good_step sample_mount sample_names sample_created Internal (received sample_mount (WriteRequest 2 0 [7, 8]) sample_created)"
    and "run (good_step sample_mount sample_names) (received sample_mount (WriteRequest 2 0 [7, 8]) sample_created)
      [Internal, Internal, Internal, Changed 1 2 (WriteAt 0 [7, 8]), Internal] st"
    and "idle sample_created" and "idle st" and "bt_get 2 (entries (p_inner st)) = Some e" and "e_kind e = File" and "e_size e = 2"
    and "p_replies st = p_replies sample_created @ [(1, ReplyWritten 2)]" and "p_next sample_created = 1"
proof -
  obtain e0 where s: "run (good_step sample_mount sample_names) (pqfs_new 2 sample_fs sample_fs_world) [Internal] sample_created"
    "consistent sample_mount sample_names [''v''] sample_created (\<lambda>_. [])" "idle sample_created"
    "bt_get 2 (entries (p_inner sample_created)) = Some e0" "e_kind e0 = File" "p_next sample_created = 1"
    using sample_created by metis
  have o: "offset_or_zero 0 = 0" by (simp add: offset_or_zero_def)
  have fits: "unat (offset_or_zero 0) + length [7, 8 :: 8 word] \<le> max_size" by (simp add: o max_size_def)
  obtain st e where w: "good_step sample_mount sample_names sample_created Internal (received sample_mount (WriteRequest 2 0 [7, 8]) sample_created)"
    "run (good_step sample_mount sample_names) (received sample_mount (WriteRequest 2 0 [7, 8]) sample_created)
      [Internal, Internal, Internal, Changed (p_next sample_created) 2 (WriteAt (offset_or_zero 0) [7, 8]), Internal] st"
    "idle st" "bt_get 2 (entries (p_inner st)) = Some e" "e_kind e = File"
    "p_replies st = p_replies sample_created @ [(p_next sample_created, ReplyWritten (of_nat (length [7, 8 :: 8 word])))]" "p_next st = p_next sample_created + 1"
    "unat (e_size e) = length (overwrite (unat (offset_or_zero 0)) [7, 8] [])"
    by (rule write_run [OF s(2-5) fits])
  have "e_size e = 2" using unat_eqD [OF w(8)] by (simp add: o)
  then show thesis using that [OF s(1) w(1) w(2) [unfolded o s(6)] s(3) w(3-5)] w(6) s(6) by simp
qed

lemma sample_written:
  obtains evs st e where "run (good_step sample_mount sample_names) (pqfs_new 2 sample_fs sample_fs_world) evs st"
    and "changes_of 2 evs = [WriteAt 0 [7, 8]]" and "idle st" and "bt_get 2 (entries (p_inner st)) = Some e"
    and "e_kind e = File" and "e_size e = 2"
proof -
  obtain st e where w: "run (good_step sample_mount sample_names) (pqfs_new 2 sample_fs sample_fs_world) [Internal] sample_created"
    "good_step sample_mount sample_names sample_created Internal (received sample_mount (WriteRequest 2 0 [7, 8]) sample_created)"
    "run (good_step sample_mount sample_names) (received sample_mount (WriteRequest 2 0 [7, 8]) sample_created)
      [Internal, Internal, Internal, Changed 1 2 (WriteAt 0 [7, 8]), Internal] st"
    "idle st" "bt_get 2 (entries (p_inner st)) = Some e" "e_kind e = File" "e_size e = 2"
    using sample_write by metis
  from that [OF run_append [OF w(1) good_run [OF w(2,3)]] _ w(4-7)] show thesis by simp
qed

text \<open>The data file of an inode no worker is changing.\<close>

lemma contents_at_rest:
  assumes "mounted (m_prims M) (m_codec M) (m_crypto M) N dir inner" and "fault_free w" and "contains_initially M inner w c"
    and "run (good_step M N) (pqfs_new n inner w) evs st"
    and "bt_get ino (entries (p_inner st)) = Some e" and "e_kind e = File" and "holders True ino st = 0"
  shows "carries (m_prims M) (m_crypto M) (p_world st) (data_path (p_inner st) ino) (e_content_key e) (e_size e)
    (foldl file_spec (c ino) (changes_of ino evs))"
  using no_writer_settled [OF contents.run_sim [OF assms(4) consistent_new [OF assms(1-3)]] assms(7,5,6)] by (simp add: foldl_changed)

text \<open>
  C2: no update is lost.  Mount a volume whose files have the contents \<open>c\<close>, let the dispatcher and the workers
  take any steps, with any admissible requests, and look at a file no worker is changing: reading it returns
  the bytes that the file operations done on it, one after the other, make of \<open>c\<close>, and its entry has their length.
\<close>

theorem concurrent_updates_are_not_lost:
  assumes "mounted (m_prims M) (m_codec M) (m_crypto M) N dir inner" and "fault_free w" and "contains_initially M inner w c"
    and "run (good_step M N) (pqfs_new n inner w) evs st"
    and "bt_get ino (entries (p_inner st)) = Some e" and "e_kind e = File" and "holders True ino st = 0"
  shows "unat (e_size e) = length (foldl file_spec (c ino) (changes_of ino evs)) \<and>
    (\<exists>w'. do_read (m_prims M) (m_crypto M) e (data_path (p_inner st) ino) off len (p_world st) =
      (ReplyData (segment (foldl file_spec (c ino) (changes_of ino evs)) (unat (offset_or_zero off)) (unat len)), w'))"
proof -
  note car = contents_at_rest [OF assms]
  show ?thesis
    using do_read_carries [OF car offset_plus_len, of off len] car by (metis carries_def)
qed

theorem concurrent_updates_are_not_lost_witness:
  "\<exists>evs st e w'. run (good_step sample_mount sample_names) (pqfs_new 2 sample_fs sample_fs_world) evs st \<and>
     bt_get 2 (entries (p_inner st)) = Some e \<and> changes_of 2 evs = [WriteAt 0 [7, 8]] \<and>
     do_read sample_prims sample_crypto e (data_path (p_inner st) 2) 0 10 (p_world st) = (ReplyData [7, 8], w')"
proof -
  obtain evs st e where s: "run (good_step sample_mount sample_names) (pqfs_new 2 sample_fs sample_fs_world) evs st"
    "changes_of 2 evs = [WriteAt 0 [7, 8]]" "idle st" "bt_get 2 (entries (p_inner st)) = Some e" "e_kind e = File" by (rule sample_written)
  have h: "holders True 2 st = 0" using s(3) by (simp add: holders_def holds_for_def idle_def filter_empty_conv)
  have m: "mounted (m_prims sample_mount) (m_codec sample_mount) (m_crypto sample_mount) sample_names [''v''] sample_fs"
    using sample_mounted(1) by simp
  from concurrent_updates_are_not_lost [OF m sample_mounted(4) sample_initially s(1,4,5) h, of 0 10] s
  show ?thesis by (auto simp: offset_or_zero_def overwrite_def resize_def segment_def)
qed

text \<open>
  C16: what a read returns.  When a worker that has the lock for a read does it, and the entry it was given is
  still the current one, the reply has the bytes of the contents at that moment.
\<close>

theorem read_returns_current_contents:
  assumes "mounted (m_prims M) (m_codec M) (m_crypto M) N dir inner" and "fault_free w" and "contains_initially M inner w c"
    and "run (good_step M N) (pqfs_new n inner w) evs st" and "k < length (p_workers st)" and "p_workers st ! k = Locked t"
    and "t_job t = ReadJob e f off len" and "bt_get (t_ino t) (entries (p_inner st)) = Some e'" and "content_of e' = content_of e"
  shows "\<exists>w'. advance M k st = Some (Internal, finish k t
      (ReplyData (segment (foldl file_spec (c (t_ino t)) (changes_of (t_ino t) evs)) (unat (offset_or_zero off)) (unat len))) (st\<lparr>p_world := w'\<rparr>))"
proof -
  have con: "consistent M N dir st (foldl changed c evs)"
    by (rule contents.run_sim [OF assms(4) consistent_new [OF assms(1-3)]])
  have "t \<in> tasks st" using assms(5,6) by (force simp: tasks_def)
  from consistentD(4) [OF con this] have f: "f = data_path (p_inner st) (t_ino t)" using assms(7) by (simp add: task_ok_def)
  have "carries (m_prims M) (m_crypto M) (p_world st) f (e_content_key e') (e_size e') (foldl changed c evs (t_ino t))"
    unfolding f by (rule locked_carries [OF con assms(5) _ _ assms(8)]) (simp_all add: assms(6))
  from carries_content [OF assms(9) [symmetric] this]
  obtain w' where "do_read (m_prims M) (m_crypto M) e f off len (p_world st) =
      (ReplyData (segment (foldl changed c evs (t_ino t)) (unat (offset_or_zero off)) (unat len)), w')"
    by (rule do_read_carries [OF _ offset_plus_len])
  then show ?thesis using assms(5-7) by (auto simp: advance_def fetch_def foldl_changed)
qed

lemma read_locked:
  assumes i: "idle st" and c: "consistent M N dir st c" and e: "bt_get ino (entries (p_inner st)) = Some e" "e_kind e = File"
  obtains st' t where "run (good_step M N) st [Internal, Internal, Internal] st'" and "0 < length (p_workers st')" and "p_workers st' ! 0 = Locked t"
    and "t_ino t = ino" and "t_job t = ReadJob e (data_path (p_inner st) ino) off len" and "p_inner st' = p_inner st"
proof -
  let ?t = "\<lparr>t_id = p_next st, t_ino = ino, t_job = ReadJob e (data_path (p_inner st) ino) off len\<rparr> :: task"
  define st1 where "st1 = received M (ReadRequest ino off len) st"
  have st1: "st1 = inode_lock ino (st\<lparr>p_next := p_next st + 1\<rparr>)\<lparr>p_queue := [?t]\<rparr>"
    using i e by (simp add: st1_def received_def pqfs_read_def Let_def spawn_job_def idle_def)
  have F1: "p_inner st1 = p_inner st" "p_queue st1 = [?t]" "p_workers st1 = p_workers st" "lock_of st1 = lock_of st" by (simp_all add: st1)
  have s1: "good_step M N st Internal st1" unfolding st1_def using i by (intro received_step) (simp_all add: idle_def)
  have pos: "0 < length (p_workers st)" using i unfolding idle_def by linarith
  define st2 where "st2 = set_worker 0 (Blocked ?t) (st1\<lparr>p_queue := []\<rparr>)"
  have a2: "advance M 0 st1 = Some (Internal, st2)" using pos idle_worker [OF i pos] by (simp add: advance_def F1 st2_def)
  have "can_lock ?t st2" using idle_can_lock [OF i consistentD(3) [OF c], of ?t] by (simp add: can_lock_def st2_def F1)
  then have a3: "advance M 0 st2 = Some (Internal, set_worker 0 (Locked ?t) (acquire ?t st2))"
    using pos by (simp add: advance_def st2_def F1)
  show thesis
    by (rule that [OF good_run [OF s1 good_run [OF good_worker [OF a2] good_run [OF good_worker [OF a3] run_nil]]], of ?t])
      (use pos in \<open>simp_all add: st2_def F1\<close>)
qed

theorem read_returns_current_contents_witness:
  "\<exists>st t w'. p_workers st ! 0 = Locked t \<and> advance sample_mount 0 st = Some (Internal, finish 0 t (ReplyData [7, 8]) (st\<lparr>p_world := w'\<rparr>))"
proof -
  obtain evs st e where s: "run (good_step sample_mount sample_names) (pqfs_new 2 sample_fs sample_fs_world) evs st"
    "changes_of 2 evs = [WriteAt 0 [7, 8]]" "idle st" "bt_get 2 (entries (p_inner st)) = Some e" "e_kind e = File" by (rule sample_written)
  have m: "mounted (m_prims sample_mount) (m_codec sample_mount) (m_crypto sample_mount) sample_names [''v''] sample_fs"
    using sample_mounted(1) by simp
  have con: "consistent sample_mount sample_names [''v''] st (foldl changed (\<lambda>_. []) evs)"
    by (rule contents.run_sim [OF s(1) consistent_new [OF m sample_mounted(4) sample_initially]])
  obtain st' t where r: "run (good_step sample_mount sample_names) st [Internal, Internal, Internal] st'" "0 < length (p_workers st')"
    "p_workers st' ! 0 = Locked t" "t_ino t = 2" "t_job t = ReadJob e (data_path (p_inner st) 2) 0 10" "p_inner st' = p_inner st"
    by (rule read_locked [OF s(3) con s(4,5)])
  have ch: "changes_of 2 (evs @ [Internal, Internal, Internal]) = [WriteAt 0 [7, 8]]"
    using s(2) by (simp add: changes_of_append)
  have e: "bt_get (t_ino t) (entries (p_inner st')) = Some e" using s(4) r(4,6) by simp
  obtain w' where "advance sample_mount 0 st' = Some (Internal, finish 0 t
      (ReplyData (segment (foldl file_spec [] (changes_of (t_ino t) (evs @ [Internal, Internal, Internal]))) (unat (offset_or_zero 0)) (unat (10 :: u32)))) (st'\<lparr>p_world := w'\<rparr>))"
    using read_returns_current_contents [OF m sample_mounted(4) sample_initially run_append [OF s(1) r(1)] r(2,3,5) e refl] by blast
  then have "advance sample_mount 0 st' = Some (Internal, finish 0 t (ReplyData [7, 8]) (st'\<lparr>p_world := w'\<rparr>))"
    by (simp add: r(4) ch offset_or_zero_def overwrite_def resize_def segment_def)
  with r(3) show ?thesis by blast
qed

text \<open>
  C37: a read can fail because another request empties the file.  The entry a read works with is taken when the
  request arrives, before the lock of the inode.  On any file system at rest, let a read from the start of a file that is
  not empty be received and then a truncation of that file to nothing.  There is an interleaving in which the
  truncation is answered first and the read then with an I/O error, although no file operation of the backend fails.
\<close>

theorem read_racing_a_truncation_fails:
  assumes "mounted (m_prims M) (m_codec M) (m_crypto M) N dir inner" and "fault_free w" and "contains_initially M inner w c"
    and "run (good_step M N) (pqfs_new n inner w) evs st" and "idle st"
    and "bt_get ino (entries (p_inner st)) = Some e" and "e_kind e = File" and "0 < e_size e" and "0 < len"
  shows "\<exists>evs' rep st'. run (good_step M N) (received M (SetattrRequest ino ch (Some 0)) (received M (ReadRequest ino 0 len) st)) evs' st' \<and>
    fault_free (p_world st') \<and> p_replies st' = p_replies st @ [(p_next st + 1, rep), (p_next st, ReplyError EIO)]"
proof -
  have con: "consistent M N dir st (foldl changed c evs)"
    by (rule contents.run_sim [OF assms(4) consistent_new [OF assms(1-3)]])
  obtain evs' rep st' where r: "run (good_step M N) (received M (SetattrRequest ino ch (Some 0)) (received M (ReadRequest ino 0 len) st)) evs' st'"
    "p_replies st' = p_replies st @ [(p_next st + 1, rep), (p_next st, ReplyError EIO)]"
    using read_loses_race [OF con assms(5-9)] by blast
  have op: "p_open st" "p_open (received M (ReadRequest ino 0 len) st)"
    using assms(5) dispatch_effect [of "st\<lparr>p_next := p_next st + 1\<rparr>" "p_next st" M "ReadRequest ino 0 len"]
    by (simp_all add: idle_def received_def dispatched_def)
  have s: "good_step M N st Internal (received M (ReadRequest ino 0 len) st)"
    "good_step M N (received M (ReadRequest ino 0 len) st) Internal (received M (SetattrRequest ino ch (Some 0)) (received M (ReadRequest ino 0 len) st))"
    using op by (auto intro!: received_step)
  have "consistent M N dir st' (foldl changed (foldl changed c evs) (Internal # Internal # evs'))"
    by (rule contents.run_sim [OF good_run [OF s(1) good_run [OF s(2) r(1)]] con])
  then show ?thesis using r consistentD(2) by blast
qed

theorem read_racing_a_truncation_fails_witness:
  "\<exists>st evs' rep st'. idle st \<and>
    run (good_step sample_mount sample_names) (received sample_mount (SetattrRequest 2 \<lparr>ac_mode = None, ac_uid = None, ac_gid = None, ac_atime = None, ac_mtime = None\<rparr> (Some 0))
      (received sample_mount (ReadRequest 2 0 10) st)) evs' st' \<and>
    p_replies st' = p_replies st @ [(p_next st + 1, rep), (p_next st, ReplyError EIO)]"
proof -
  obtain evs st e where s: "run (good_step sample_mount sample_names) (pqfs_new 2 sample_fs sample_fs_world) evs st"
    "changes_of 2 evs = [WriteAt 0 [7, 8]]" "idle st" "bt_get 2 (entries (p_inner st)) = Some e" "e_kind e = File" "e_size e = 2" by (rule sample_written)
  have m: "mounted (m_prims sample_mount) (m_codec sample_mount) (m_crypto sample_mount) sample_names [''v''] sample_fs"
    using sample_mounted(1) by simp
  have "0 < e_size e" "0 < (10 :: u32)" using s(6) by simp_all
  from read_racing_a_truncation_fails [OF m sample_mounted(4) sample_initially s(1,3-5) this] s(3) show ?thesis by blast
qed

text \<open>
  C34: unmounting can lose an acknowledged write.  Dropping the file system flushes the index first and lets
  the workers finish the queue afterwards, without flushing again: a write that is still queued at that
  moment is done and acknowledged, and after the next mount the file has the entry it had before the write.
\<close>

theorem unmount_can_lose_an_acknowledged_write:
  assumes "mounted (m_prims M) (m_codec M) (m_crypto M) N dir inner" and "fault_free w" and "contains_initially M inner w c"
    and "run (good_step M N) (pqfs_new n inner w) evs st" and "idle st"
    and "bt_get ino (entries (p_inner st)) = Some e" and "e_kind e = File"
    and "\<not> dirty (p_inner st)" and "on_disk (m_prims M) (m_codec M) (m_crypto M) dir (p_world st) (entries (p_inner st))"
    and "unat (offset_or_zero off) + length data \<le> max_size"
  shows "\<exists>evs' st' s' w'. run (work_step M) (drop_pqfs M (received M (WriteRequest ino off data) st)) evs' st' \<and>
    p_queue st' = [] \<and> set (p_workers st') = {Idle} \<and>
    p_replies st' = p_replies st @ [(p_next st, ReplyWritten (of_nat (length data)))] \<and>
    load (m_prims M) (m_codec M) dir (m_crypto M) (p_world st') = (Inr s', w') \<and> bt_get ino (entries s') = Some e"
proof -
  let ?t = "\<lparr>t_id = p_next st, t_ino = ino, t_job = WriteJob (data_path (p_inner st) ino) off data\<rparr> :: task"
  let ?c = "foldl changed c evs"
  define st1 where "st1 = received M (WriteRequest ino off data) st"
  define st2 where "st2 = drop_pqfs M st1"
  have con: "consistent M N dir st ?c" by (rule contents.run_sim [OF assms(4) consistent_new [OF assms(1-3)]])
  have F1: "p_inner st1 = p_inner st" "p_queue st1 = [?t]" "p_workers st1 = p_workers st" "p_world st1 = p_world st"
    "p_replies st1 = p_replies st" "lock_of st1 = lock_of st"
    by (simp_all add: st1_def received_write_idle [OF assms(5-7)])
  have s1: "good_step M N st Internal st1"
    unfolding st1_def using assms(5,10) by (intro received_step) (simp_all add: idle_def)
  have c1: "consistent M N dir st1 ?c" using contents.sim [OF con s1] by simp
  have "flush_index (m_prims M) (m_codec M) (m_crypto M) (p_inner st1) (p_world st1) = (Inr (p_inner st1), p_world st1)"
    using assms(8) by (simp add: flush_index_def F1 ret_def)
  then have st2: "st2 = st1\<lparr>p_open := False\<rparr>" by (simp add: st2_def drop_pqfs_def)
  have c2: "consistent M N dir st2 ?c" by (rule consistent_frame [OF c1]) (simp_all add: st2 tasks_def)
  have F2: "p_inner st2 = p_inner st" "p_queue st2 = [?t]" "p_workers st2 = p_workers st" "p_world st2 = p_world st"
    "p_replies st2 = p_replies st" "lock_of st2 = lock_of st" by (simp_all add: st2 F1)
  have len: "0 < length (p_workers st)" using assms(5) unfolding idle_def by linarith
  have pos: "0 < length (p_workers st2)" "p_workers st2 ! 0 = Idle" using len idle_worker [OF assms(5) len] by (simp_all add: F2)
  have cl: "can_lock ?t st2" using idle_can_lock [OF assms(5) consistentD(3) [OF con], of ?t] by (simp add: can_lock_def F2)
  have t: "t_ino ?t = ino" "t_job ?t = WriteJob (data_path (p_inner st2) ino) off data" by (simp_all add: F2)
  obtain st' e' where r: "run (work_step M) st2 [Internal, Internal, Internal, Changed (t_id ?t) ino (WriteAt (offset_or_zero off) data), Internal] st'"
    "p_workers st' = p_workers st2" "p_queue st' = []" "p_open st' = p_open st2" "p_next st' = p_next st2"
    "bt_get ino (entries (p_inner st')) = Some e'" "e_kind e' = File"
    "p_replies st' = p_replies st2 @ [(t_id ?t, ReplyWritten (of_nat (length data)))]"
    "unat (e_size e') = length (overwrite (unat (offset_or_zero off)) data (?c ino))"
    "only_file (data_path (p_inner st2) ino) (disk (p_world st2)) (p_world st')"
    by (rule queued_write_run [OF c2 F2(2) pos t cl assms(6,7) [folded F2(1)]])
  have m: "mounted (m_prims M) (m_codec M) (m_crypto M) N dir (p_inner st)" by (rule consistentD(1) [OF con])
  then have "disk (p_world st') (dir @ [INDEX_FILE]) = disk (p_world st) (dir @ [INDEX_FILE])"
    using r(10) data_path_other(2) [of "p_inner st" INDEX_FILE ino] by (simp add: only_file_def F2 mounted_def)
  then have "on_disk (m_prims M) (m_codec M) (m_crypto M) dir (p_world st') (entries (p_inner st))"
    using assms(9) by (simp add: on_disk_def)
  moreover have "fault_free (p_world st')" using r(10) by (simp add: only_file_def)
  ultimately obtain s' w' where "load (m_prims M) (m_codec M) dir (m_crypto M) (p_world st') = (Inr s', w')" "entries s' = entries (p_inner st)"
    using reload [OF m] by metis
  moreover have "set (p_workers st') = {Idle}" using assms(5) r(2) by (simp add: idle_def F2)
  ultimately show ?thesis
    using r(1,3,8) assms(6) unfolding st1_def [symmetric] st2_def [symmetric]
    by (intro exI conjI) (assumption | simp add: F2)+
qed

theorem unmount_can_lose_an_acknowledged_write_witness:
  "\<exists>evs st' s' w' e. run (work_step sample_mount) (drop_pqfs sample_mount (received sample_mount (WriteRequest 2 0 [7, 8]) sample_created)) evs st' \<and>
     (1, ReplyWritten 2) \<in> set (p_replies st') \<and>
     load sample_prims bincode_index [''v''] sample_crypto (p_world st') = (Inr s', w') \<and>
     bt_get 2 (entries s') = Some e \<and> bt_get 2 (entries (p_inner sample_created)) = Some e"
proof -
  obtain e where s: "run (good_step sample_mount sample_names) (pqfs_new 2 sample_fs sample_fs_world) [Internal] sample_created"
    "idle sample_created" "bt_get 2 (entries (p_inner sample_created)) = Some e" "e_kind e = File" "p_next sample_created = 1"
    "\<not> dirty (p_inner sample_created)"
    "on_disk sample_prims bincode_index sample_crypto [''v''] (p_world sample_created) (entries (p_inner sample_created))"
    using sample_created by metis
  have m: "mounted (m_prims sample_mount) (m_codec sample_mount) (m_crypto sample_mount) sample_names [''v''] sample_fs"
    using sample_mounted(1) by simp
  have d: "on_disk (m_prims sample_mount) (m_codec sample_mount) (m_crypto sample_mount) [''v''] (p_world sample_created) (entries (p_inner sample_created))"
    using s(7) by simp
  have fits: "unat (offset_or_zero 0) + length [7, 8 :: 8 word] \<le> max_size" by (simp add: offset_or_zero_def max_size_def)
  from unmount_can_lose_an_acknowledged_write [OF m sample_mounted(4) sample_initially s(1-4,6) d fits] s(3,5)
  show ?thesis by (elim exE conjE) (intro exI conjI, assumption, simp, simp, assumption+)
qed

end
