(* ===== verification/Commands.thy ===== *)
theory Commands
  imports Cli Volume_Safety
begin

text \<open>
  The commands that create identities and manage the key slots of a volume
  (\<open>src/commands.rs\<close>).  Each is a whole command, from its arguments to the line it prints.
\<close>

section \<open>Operations\<close>

definition println :: "string \<Rightarrow> unit io" where
  "println line w = (Inr (), w\<lparr>stdout := stdout w @ [line]\<rparr>)"

text \<open>\<open>Path::display\<close> of a relative path, text as characters, and \<open>Path::file_stem\<close> or an empty string.\<close>

fun path_display :: "path \<Rightarrow> string" where
  "path_display [] = []"
| "path_display [c] = c"
| "path_display (c # cs) = c @ ''/'' @ path_display cs"

definition text_of :: "bytes \<Rightarrow> string" where
  "text_of b = map (\<lambda>c. char_of (unat c)) b"

definition path_stem :: "path \<Rightarrow> string" where
  "path_stem p = (if p = [] \<or> List.last p = ''..'' then [] else file_stem (List.last p))"

definition public_path :: "path \<Rightarrow> path" where
  "public_path private = (if private = [] then [''.pub''] else butlast private @ [List.last private @ ''.pub''])"

definition keygen :: "prims \<Rightarrow> public_identity codec \<Rightarrow> keygen_args \<Rightarrow> unit io" where
  "keygen P CP args w =
     (if fs_exists (ka_out args) w then throw AlreadyExists w
      else
        bindE (generate P) (\<lambda>i.
        bindE (identity_save i (ka_out args)) (\<lambda>_.
        let pp = public_path (ka_out args) in
        bindE (lift (public P i)) (\<lambda>pub.
        bindE (public_identity_save CP pub pp) (\<lambda>_.
        bindE (println (''identity written to '' @ path_display (ka_out args))) (\<lambda>_.
        println (''share '' @ path_display pp @ '' with anyone who should hold a slot'')))))) w)"

definition slot_line :: "nat \<Rightarrow> key_slot \<Rightarrow> string" where
  "slot_line i s =
     (if label s = [] then dec i @ [CHR 0x09] @ slot_kind s
      else dec i @ [CHR 0x09] @ slot_kind s @ [CHR 0x09] @ text_of (label s))"

fun print_slots :: "nat \<Rightarrow> key_slot list \<Rightarrow> unit io" where
  "print_slots i [] = ret ()"
| "print_slots i (s # ss) = bindE (println (slot_line i s)) (\<lambda>_. print_slots (i + 1) ss)"

definition slots_command :: "volume_header codec \<Rightarrow> volume_args \<Rightarrow> unit io" where
  "slots_command C args =
     bindE (read_header C (va_backend args)) (\<lambda>h. print_slots 0 (slots h))"

definition share_label :: "share_args \<Rightarrow> bytes" where
  "share_label args =
     (case sa_label args of Some l \<Rightarrow> l | None \<Rightarrow> to_string_lossy (ascii (path_stem (sa_to args))))"

definition share :: "prims \<Rightarrow> volume_header codec \<Rightarrow> public_identity codec \<Rightarrow> share_args \<Rightarrow> unit io" where
  "share P C CP args =
     bindE (resolve (sa_credential args)) (\<lambda>cred.
     bindE (public_identity_load CP (sa_to args)) (\<lambda>recipient.
     let lbl = share_label args in
     bindE (identity_file cred) (\<lambda>i.
     bindE (read_header C (sa_backend args)) (\<lambda>h.
     bindE (lift (rbind (credential_unlock cred i) (open_master_key P h))) (\<lambda>mk.
     bindE (recipient_slot P recipient lbl (volume_id h) mk) (\<lambda>slot.
     bindE (write_header P C (sa_backend args) (h\<lparr>slots := slots h @ [slot]\<rparr>) mk) (\<lambda>h'.
     println (''slot '' @ dec (length (slots h') - 1) @ '' added for '' @ text_of lbl))))))))"

definition revoke :: "prims \<Rightarrow> volume_header codec \<Rightarrow> revoke_args \<Rightarrow> unit io" where
  "revoke P C args =
     bindE (resolve (ra_credential args)) (\<lambda>cred.
     bindE (identity_file cred) (\<lambda>i.
     bindE (read_header C (ra_backend args)) (\<lambda>h.
     bindE (lift (rbind (credential_unlock cred i) (open_master_key P h))) (\<lambda>mk.
     if ra_slot args \<ge> length (slots h) then throw (NoSuchSlot (ra_slot args))
     else if length (slots h) = 1 then throw LastSlot
     else
       let removed = slots h ! ra_slot args;
           h1 = h\<lparr>slots := take (ra_slot args) (slots h) @ drop (ra_slot args + 1) (slots h)\<rparr> in
       bindE (write_header P C (ra_backend args) h1 mk) (\<lambda>_.
       println (''removed '' @ slot_kind removed @ '' slot '' @ dec (ra_slot args)))))))"

definition is_password_slot :: "key_slot \<Rightarrow> bool" where
  "is_password_slot s = (case s of PasswordSlot _ _ _ \<Rightarrow> True | _ \<Rightarrow> False)"

fun first_kdf :: "key_slot list \<Rightarrow> kdf_params" where
  "first_kdf [] = kdf_default"
| "first_kdf (s # ss) = (case s of PasswordSlot _ kdf _ \<Rightarrow> kdf | _ \<Rightarrow> first_kdf ss)"

fun password_position :: "key_slot list \<Rightarrow> nat option" where
  "password_position [] = None"
| "password_position (s # ss) = (if is_password_slot s then Some 0 else map_option Suc (password_position ss))"

definition passwd :: "prims \<Rightarrow> volume_header codec \<Rightarrow> passwd_args \<Rightarrow> unit io" where
  "passwd P C args =
     bindE (resolve (pa_credential args)) (\<lambda>cred.
     bindE (identity_file cred) (\<lambda>i.
     bindE (read_header C (pa_backend args)) (\<lambda>h.
     bindE (lift (rbind (credential_unlock cred i) (open_master_key P h))) (\<lambda>mk.
     bindE (prompt_password ''New volume password: '') (\<lambda>new_password.
     bindE (prompt_password ''Repeat new password: '') (\<lambda>again.
     if new_password \<noteq> again then throw PasswordMismatch
     else if new_password = [] then throw EmptyPassword
     else
       bindE (password_slot P new_password (volume_id h) mk (first_kdf (slots h))) (\<lambda>slot.
       let h1 = (case password_position (slots h) of
             Some index \<Rightarrow> h\<lparr>slots := (slots h)[index := slot]\<rparr>
           | None \<Rightarrow> h\<lparr>slots := slots h @ [slot]\<rparr>) in
       bindE (write_header P C (pa_backend args) h1 mk) (\<lambda>_.
       println ''password slot rewrapped''))))))))"

definition rewrap_slot :: "prims \<Rightarrow> credential_args \<Rightarrow> bytes \<Rightarrow> bytes \<Rightarrow> nat \<Rightarrow> key_slot \<Rightarrow> key_slot io" where
  "rewrap_slot P cred vid new_mk i s = (case s of
       PasswordSlot _ kdf _ \<Rightarrow>
         bindE (lift (case require_password cred of Inl _ \<Rightarrow> Inl (RewrapNeedsPassword i) | Inr pw \<Rightarrow> Inr pw)) (\<lambda>pw.
         password_slot P pw vid new_mk kdf)
     | RecipientSlot l param pk _ _ \<Rightarrow>
         recipient_slot P \<lparr>kem_param = param, kem_public_key = pk\<rparr> l vid new_mk)"

fun rewrap_slots :: "prims \<Rightarrow> credential_args \<Rightarrow> bytes \<Rightarrow> bytes \<Rightarrow> nat \<Rightarrow> key_slot list \<Rightarrow> key_slot list io" where
  "rewrap_slots P cred vid new_mk i [] = ret []"
| "rewrap_slots P cred vid new_mk i (s # ss) =
     bindE (rewrap_slot P cred vid new_mk i s) (\<lambda>s'.
     bindE (rewrap_slots P cred vid new_mk (i + 1) ss) (\<lambda>ss'.
     ret (s' # ss')))"

definition rekey :: "prims \<Rightarrow> volume_header codec \<Rightarrow> entry_map codec \<Rightarrow> passwd_args \<Rightarrow> unit io" where
  "rekey P C CI args =
     bindE (resolve (pa_credential args)) (\<lambda>cred.
     bindE (identity_file cred) (\<lambda>i.
     bindE (lift (credential_unlock cred i)) (\<lambda>u.
     bindE (unlock P C (pa_backend args) u) (\<lambda>old.
     bindE (read_header C (pa_backend args)) (\<lambda>h.
     bindE random_master_key (\<lambda>new_mk.
     bindE (rewrap_slots P cred (volume_id h) new_mk 0 (slots h)) (\<lambda>ss.
     let h1 = h\<lparr>slots := ss\<rparr> in
     bindE (lift (from_master_key P new_mk h1)) (\<lambda>new.
     bindE (rekey_index P CI (pa_backend args) old new) (\<lambda>index.
     bindE (commit_rekey P C (pa_backend args) h1 new_mk index) (\<lambda>h'.
     println (''master key retired; '' @ dec (length (slots h')) @ '' slot(s) rewrapped'')))))))))))"

section \<open>Credentials\<close>

text \<open>\<open>presents c u d\<close>: the arguments \<open>c\<close> present the credential \<open>u\<close> without a prompt, \<open>d\<close> being the files.\<close>

definition presents :: "credential_args \<Rightarrow> unlock_credential \<Rightarrow> (path \<rightharpoonup> bytes) \<Rightarrow> bool" where
  "presents c u d = (case ca_identity c of
      Some p \<Rightarrow> (case d p of None \<Rightarrow> False | Some s \<Rightarrow> length s = SEED_LEN \<and> u = UnlockIdentity \<lparr>seed = s\<rparr>)
    | None \<Rightarrow> (case ca_password c of None \<Rightarrow> False | Some pw \<Rightarrow> pw \<noteq> [] \<and> u = UnlockPassword pw))"

lemma presents_resolve: "presents c u d \<Longrightarrow> resolve c = ret c"
  by (auto simp: presents_def resolve_def split: option.splits)

lemma presents_identity:
  assumes "presents c u (disk w)" and "fault_free w"
  obtains i w' where "identity_file c w = (Inr i, w')" and "credential_unlock c i = Inr u" and "quiet w w'"
proof (cases "ca_identity c")
  case None
  with assms that [of None w] quiet_refl [OF assms(2)] show thesis
    by (auto simp: presents_def identity_file_def credential_unlock_def require_password_def ret_def split: option.splits)
next
  case (Some p)
  with assms obtain s where s: "disk w p = Some s" "length s = SEED_LEN" "u = UnlockIdentity \<lparr>seed = s\<rparr>"
    by (auto simp: presents_def split: option.splits)
  with Some assms(2) that [of "Some \<lparr>seed = s\<rparr>" "tick w"] quiet_tick [OF assms(2)] show thesis
    by (simp add: identity_file_def identity_load_def credential_unlock_def bindE_def fs_ok_present ret_def)
qed

text \<open>The steps every command takes before it touches the header.\<close>

lemma opened:
  assumes w: "fault_free w" "settled bk (disk w)" "header_on_disk C bk (disk w) h"
    and c: "presents c u (disk w)" and mk: "open_master_key P h u = Inr mk"
  obtains w' where "\<And>f. bindE (identity_file c) (\<lambda>i. bindE (read_header C bk) (\<lambda>h.
      bindE (lift (rbind (credential_unlock c i) (open_master_key P h))) (f h))) w = f h mk w'"
    and "quiet w w'"
proof -
  obtain i w1 where i: "identity_file c w = (Inr i, w1)" "credential_unlock c i = Inr u" "quiet w w1"
    using presents_identity [OF c w(1)] by blast
  have r: "read_header C bk w1 = (Inr h, tick w1)"
    by (rule read_header_ok) (use w quietD [OF i(3)] in simp_all)
  have "quiet w (tick w1)" using i(3) quiet_trans quiet_tick quietD by blast
  with that [of "tick w1"] i r mk show thesis by (simp add: bindE_def ret_def)
qed

section \<open>Slots\<close>

lemma try_slot_identity: "\<exists>r. try_slot P h s (UnlockIdentity i) = Inr r"
  by (cases s) (auto simp: try_slot_def split: sum.splits)

lemma try_slots_not_empty:
  "try_slots P h xs (UnlockIdentity i) = Inl e \<Longrightarrow> e = NoSlotAccepted"
proof (induction xs)
  case (Cons x xs)
  obtain r where "try_slot P h x (UnlockIdentity i) = Inr r" using try_slot_identity by blast
  with Cons show ?case by (cases r) simp_all
qed simp

lemma try_slots_keep: "try_slots P h xs c = Inr k \<Longrightarrow> try_slots P h (xs @ ys) c = Inr k"
  by (simp add: try_slots_append)

text \<open>The new slot opens for its recipient, unless an earlier one already did.\<close>

lemma try_slots_new:
  assumes "try_slot P h s (UnlockIdentity i) = Inr (Some mk)"
    and "\<And>k. try_slots P h xs (UnlockIdentity i) = Inr k \<Longrightarrow> k = mk"
  shows "try_slots P h (xs @ [s]) (UnlockIdentity i) = Inr mk"
proof (cases "try_slots P h xs (UnlockIdentity i)")
  case (Inl e)
  with try_slots_not_empty [OF Inl] assms(1) show ?thesis by (simp add: try_slots_append)
qed (use assms(2) in \<open>simp add: try_slots_append\<close>)

lemma password_position_None: "password_position xs = None \<Longrightarrow> try_slots P h (xs @ ys) (UnlockPassword pw) = try_slots P h ys (UnlockPassword pw)"
  by (rule try_slots_skip, induction xs) (auto simp: is_password_slot_def try_slot_def split: key_slot.splits if_splits)

lemma password_position_Some:
  assumes "password_position xs = Some i"
  shows "i < length xs" and "is_password_slot (xs ! i)" and "password_position (take i xs) = None"
  using assms by (induction xs arbitrary: i) (auto split: if_splits)

lemma try_slots_replaced:
  assumes "password_position xs = Some i" and "try_slot P h s (UnlockPassword pw) = Inr (Some mk)"
  shows "try_slots P h (xs[i := s]) (UnlockPassword pw) = Inr mk"
proof -
  note p = password_position_Some [OF assms(1)]
  have "xs[i := s] = take i xs @ s # drop (Suc i) xs" using p(1) by (simp add: upd_conv_take_nth_drop)
  then show ?thesis using password_position_None [OF p(3)] assms(2) by simp
qed

lemma try_slot_password_identity: "is_password_slot s \<Longrightarrow> try_slot P h s (UnlockIdentity i) = Inr None"
  by (cases s) (simp_all add: is_password_slot_def try_slot_def)

lemma try_slots_identity_filter:
  "try_slots P h xs (UnlockIdentity i) = try_slots P h (filter (\<lambda>s. \<not> is_password_slot s) xs) (UnlockIdentity i)"
  by (induction xs) (simp_all add: try_slot_password_identity)

lemma filter_update: "i < length xs \<Longrightarrow> Q (xs ! i) \<Longrightarrow> Q s \<Longrightarrow> filter (\<lambda>s. \<not> Q s) (xs[i := s]) = filter (\<lambda>s. \<not> Q s) xs"
proof (induction xs arbitrary: i)
  case (Cons x xs)
  then show ?case by (cases i) auto
qed simp

section \<open>Editing the slots\<close>

definition crypto_laws :: "prims \<Rightarrow> volume_header codec \<Rightarrow> bool" where
  "crypto_laws P C \<longleftrightarrow> aead_laws P \<and> kdf_laws P \<and> mac_laws P \<and> kem_laws P \<and> codec_laws header_wf C \<and> header_sized C"

text \<open>\<open>ready\<close>: the volume is at rest, its header parses to \<open>h\<close>, and file operations succeed;
  \<open>accepts\<close>: a credential opens the volume and yields the master key \<open>mk\<close>.\<close>

definition ready :: "volume_header codec \<Rightarrow> path \<Rightarrow> world \<Rightarrow> volume_header \<Rightarrow> bool" where
  "ready C bk w h \<longleftrightarrow> fault_free w \<and> settled bk (disk w) \<and> header_on_disk C bk (disk w) h \<and> header_wf h \<and>
     header_size h \<le> MAX_HEADER_BYTES"

definition accepts :: "prims \<Rightarrow> volume_header codec \<Rightarrow> path \<Rightarrow> unlock_credential \<Rightarrow> bytes \<Rightarrow> world \<Rightarrow> bool" where
  "accepts P C bk c mk w = (case fst (unlock P C bk c w) of Inl _ \<Rightarrow> False | Inr cr \<Rightarrow> cipher cr = mk)"

lemma ready_version: "ready C bk w h \<Longrightarrow> version h = HEADER_VERSION"
  by (auto simp: ready_def header_on_disk_def split: option.splits)

lemma ready_unlock: "ready C bk w h \<Longrightarrow> unlock P C bk c w = (open_header P C h c, tick w)"
  by (simp add: ready_def unlock_ok)

lemma acceptsI: "ready C bk w h \<Longrightarrow> open_header P C h c = Inr cr \<Longrightarrow> cipher cr = mk \<Longrightarrow> accepts P C bk c mk w"
  by (simp add: accepts_def ready_unlock)

lemma slots_fit: "length (slots h) \<le> header_size h"
proof -
  have "length xs \<le> sum_list (map slot_size xs)" for xs
    by (induction xs) (auto simp: slot_size_def add_mono split: key_slot.splits)
  then show ?thesis by (simp add: header_size_def trans_le_add2)
qed

text \<open>Sealing and writing an edited list of slots, and what the volume accepts afterwards.\<close>

definition resealed :: "prims \<Rightarrow> volume_header codec \<Rightarrow> path \<Rightarrow> volume_header \<Rightarrow> key_slot list \<Rightarrow> bytes \<Rightarrow> world \<Rightarrow> volume_header \<Rightarrow> bool" where
  "resealed P C bk h xs mk w h' \<longleftrightarrow> seal_header P C (h\<lparr>slots := xs\<rparr>) mk = Inr h' \<and> header_wf h' \<and>
     disk w (bk @ [HEADER_FILE]) = ser C h' \<and> settled bk (disk w) \<and> fault_free w"

lemma write_slots:
  assumes L: "crypto_laws P C" and w: "ready C bk w h" and d: "disk v = disk w" "faults v = faults w"
    and xs: "list_all slot_wf xs" "header_size (h\<lparr>slots := xs\<rparr>) < 2 ^ 64"
  obtains h' w' where "write_header P C bk (h\<lparr>slots := xs\<rparr>) mk v = (Inr h', w')" and "resealed P C bk h xs mk w' h'" and "slots h' = xs"
proof -
  let ?h = "h\<lparr>slots := xs\<rparr>"
  have laws: "kdf_laws P" "mac_laws P" "codec_laws header_wf C" using L by (simp_all add: crypto_laws_def)
  have v: "fault_free v" "settled bk (disk v)" using w d by (simp_all add: ready_def fault_free_def)
  have wf: "header_wf ?h"
    using w xs slots_fit [of ?h] by (simp add: ready_def header_wf_def vec_ok_def)
  obtain h' b w' where r: "write_header P C bk ?h mk v = (Inr h', w')" "seal_header P C ?h mk = Inr h'" "header_wf h'"
    "ser C h' = Some b" "disk w' = ((disk v)(bk @ [''pqfs.tmp''] := None))(bk @ [HEADER_FILE] \<mapsto> b)" "settled bk (disk w')" "fault_free w'"
    using write_header_run [OF laws wf v] by metis
  then have "resealed P C bk h xs mk w' h'" by (simp add: resealed_def)
  moreover have "slots h' = xs" using seal_headerE [OF r(2)] by simp
  ultimately show thesis using that r(1) by blast
qed

lemma resealed_ready:
  assumes L: "crypto_laws P C" and r: "resealed P C bk h xs mk w h'" and v: "version h = HEADER_VERSION"
    and fits: "header_size (h\<lparr>slots := xs\<rparr>) \<le> MAX_HEADER_BYTES"
  shows "ready C bk w h'" and "open_master_key P h' c = try_slots P h xs c"
    and "try_slots P h xs c = Inr mk \<Longrightarrow> accepts P C bk c mk w"
proof -
  note s = r [unfolded resealed_def, THEN conjunct1]
  have f: "slots h' = xs" "volume_id h' = volume_id h" "version h' = HEADER_VERSION" using seal_headerE [OF s] v by simp_all
  have fits': "header_size h' \<le> MAX_HEADER_BYTES" using fits f by (simp add: header_size_def)
  obtain b where b: "ser C h' = Some b" "disk w (bk @ [HEADER_FILE]) = Some b"
    using r codec_lawsE [of header_wf C h'] L by (metis resealed_def crypto_laws_def)
  then have "header_on_disk C bk (disk w) h'"
    using header_on_disk_serialised [of C h' b "disk w" bk] f(3) fits' r L by (simp add: resealed_def crypto_laws_def)
  then show rd: "ready C bk w h'" using r fits' by (simp add: ready_def resealed_def)
  show o: "open_master_key P h' c = try_slots P h xs c" for c
    using f by (simp add: open_master_key_def try_slots_cong [of h' h])
  show "accepts P C bk c mk w" if "try_slots P h xs c = Inr mk"
    using open_sealed [OF _ s, of c] L that o acceptsI [OF rd] by (metis crypto_laws_def)
qed

lemma resealed_too_large:
  assumes L: "crypto_laws P C" and r: "resealed P C bk h xs mk w h'" and big: "MAX_HEADER_BYTES < header_size (h\<lparr>slots := xs\<rparr>)"
  shows "unlock P C bk c w = (Inl HeaderTooLarge, tick w)"
proof -
  note s = r [unfolded resealed_def, THEN conjunct1]
  have "slots h' = xs" using seal_headerE [OF s] by simp
  then have big': "MAX_HEADER_BYTES < header_size h'" using big by (simp add: header_size_def)
  obtain b where b: "ser C h' = Some b" "disk w (bk @ [HEADER_FILE]) = Some b"
    using r codec_lawsE [of header_wf C h'] L by (metis resealed_def crypto_laws_def)
  moreover have "length b = header_size h'" using b(1) r L by (simp add: crypto_laws_def header_sized_def resealed_def)
  ultimately show ?thesis
    using r big' by (simp add: unlock_def read_header_def bindE_def resealed_def fs_ok_present throw_def)
qed

lemma resealed_stdout [simp]: "resealed P C bk h xs mk (w\<lparr>stdout := s\<rparr>) h' = resealed P C bk h xs mk w h'"
  by (simp add: resealed_def)

lemma println_run: "println l w = (Inr (), w\<lparr>stdout := stdout w @ [l]\<rparr>)"
  by (simp add: println_def)

lemma ready_stdout [simp]: "ready C bk (w\<lparr>stdout := s\<rparr>) h = ready C bk w h"
  by (simp add: ready_def)

lemma quiet_ready: "quiet w w' \<Longrightarrow> ready C bk w h \<Longrightarrow> ready C bk w' h"
  using quietD [of w w'] by (simp add: ready_def)

section \<open>Sharing\<close>

definition share_slot_size :: "prims \<Rightarrow> bytes \<Rightarrow> public_identity \<Rightarrow> nat" where
  "share_slot_size P lbl pub = 38 + length lbl + length (kem_public_key pub) + kem_ciphertext_len P + 72"

lemma recipient_slot_made:
  assumes L: "crypto_laws P C" and mk: "length mk = 32" and i: "length (seed i) = SEED_LEN" "public P i = Inr pub"
    and lbl: "utf8_valid lbl" and fits: "share_slot_size P lbl pub < 2 ^ 64"
  obtains slot w' where "recipient_slot P pub lbl (volume_id h) mk w = (Inr slot, w')" and "disk w' = disk w" and "faults w' = faults w"
    and "try_slot P h slot (UnlockIdentity i) = Inr (Some mk)" and "slot_wf slot" and "slot_size slot = share_slot_size P lbl pub"
    and "label slot = lbl"
proof -
  have laws: "aead_laws P" "kdf_laws P" "kem_laws P" using L by (simp_all add: crypto_laws_def)
  obtain ct k w1 where e: "encapsulate P pub w = (Inr (ct, k), w1)" "length k = 32"
    using kem.send_receive [of P i pub w] laws i by blast
  obtain x where x: "wrap_master_key P k (volume_id h) mk w1 = (Inr x, draw_nonce w1)"
    using wrapped.seal_total [of P k mk "volume_id h" w1] laws e mk by blast
  obtain slot w' where run: "recipient_slot P pub lbl (volume_id h) mk w = (Inr slot, w')"
    using e x by (simp add: recipient_slot_def bindE_def ret_def)
  note o = recipient_slot_opens [OF laws mk refl i run]
  from o(2) fits lbl have "slot_wf slot" "slot_size slot = share_slot_size P lbl pub" "label slot = lbl"
    by (auto simp: slot_wf_def slot_size_def share_slot_size_def vec_ok_def label_def)
  with that run o show thesis by blast
qed

lemma header_size_append: "header_size (h\<lparr>slots := slots h @ [s]\<rparr>) = header_size h + slot_size s"
  by (simp add: header_size_def)

lemma utf8_share_label: "(\<And>l. sa_label args = Some l \<Longrightarrow> utf8_valid l) \<Longrightarrow> utf8_valid (share_label args)"
  by (auto simp: share_label_def utf8_valid_lossy split: option.splits)

lemma open_master_key_length: "open_master_key P h c = Inr mk \<Longrightarrow> length mk = 32"
  unfolding open_master_key_def by (rule try_slots_length)

lemma share_run:
  assumes L: "crypto_laws P C" and w: "ready C (sa_backend args) w h" and u: "presents (sa_credential args) u (disk w)"
    and mk: "open_master_key P h u = Inr mk"
    and i: "length (seed i) = SEED_LEN" "public P i = Inr pub" and to: "disk w (sa_to args) = Some b" "de CP b = Some pub"
    and lbl: "\<And>l. sa_label args = Some l \<Longrightarrow> utf8_valid l"
    and fits: "header_size h + share_slot_size P (share_label args) pub < 2 ^ 64"
  obtains w' h' slot where "share P C CP args w = (Inr (), w')" and "resealed P C (sa_backend args) h (slots h @ [slot]) mk w' h'"
    and "slots h' = slots h @ [slot]" and "label slot = share_label args" and "try_slot P h slot (UnlockIdentity i) = Inr (Some mk)"
    and "slot_size slot = share_slot_size P (share_label args) pub"
proof -
  let ?bk = "sa_backend args" and ?l = "share_label args"
  have ff: "fault_free w" and od: "settled ?bk (disk w)" "header_on_disk C ?bk (disk w) h" and wf: "header_wf h"
    using w by (simp_all add: ready_def)
  have load: "public_identity_load CP (sa_to args) w = (Inr pub, tick w)"
    using to ff by (simp add: public_identity_load_def bindE_def fs_ok_present bincode_deserialize_def ret_def)
  obtain w1 where w1: "\<And>f :: volume_header \<Rightarrow> bytes \<Rightarrow> unit io. bindE (identity_file (sa_credential args)) (\<lambda>i. bindE (read_header C ?bk) (\<lambda>h.
      bindE (lift (rbind (credential_unlock (sa_credential args) i) (open_master_key P h))) (f h))) (tick w) = f h mk w1"
    "quiet (tick w) w1"
    using opened [of "tick w" ?bk C h "sa_credential args" u P mk] ff od u mk by auto
  have r1: "ready C ?bk w1 h" using quiet_ready [OF w1(2), of C ?bk h] w by (simp add: ready_def)
  have fit: "share_slot_size P ?l pub < 2 ^ 64" using fits by simp
  obtain slot w2 where s: "recipient_slot P pub ?l (volume_id h) mk w1 = (Inr slot, w2)" "disk w2 = disk w1" "faults w2 = faults w1"
    "try_slot P h slot (UnlockIdentity i) = Inr (Some mk)" "slot_wf slot" "slot_size slot = share_slot_size P ?l pub" "label slot = ?l"
    using recipient_slot_made [OF L open_master_key_length [OF mk] i utf8_share_label [OF lbl] fit, of h w1] by metis
  let ?xs = "slots h @ [slot]"
  have "list_all slot_wf ?xs" using s(5) wf by (simp add: header_wf_def)
  moreover have "header_size (h\<lparr>slots := ?xs\<rparr>) < 2 ^ 64" using fits s(6) by (simp add: header_size_append)
  ultimately obtain h' w3 where e: "write_header P C ?bk (h\<lparr>slots := ?xs\<rparr>) mk w2 = (Inr h', w3)" "resealed P C ?bk h ?xs mk w3 h'"
    "slots h' = ?xs" using write_slots [OF L r1 s(2,3)] by metis
  define w' where "w' = w3\<lparr>stdout := stdout w3 @ [''slot '' @ dec (length ?xs - 1) @ '' added for '' @ text_of ?l]\<rparr>"
  have "share P C CP args w = (Inr (), w')"
    using load s(1) e(1,3)
    by (simp add: share_def presents_resolve [OF u] bindE_def [of "public_identity_load CP (sa_to args)"] Let_def w1(1))
      (simp add: bindE_def println_def w'_def)
  moreover have "resealed P C ?bk h ?xs mk w' h'" using e(2) by (simp add: w'_def)
  ultimately show thesis using that e(3) s(4,6,7) by blast
qed

section \<open>Revoking\<close>

lemma header_size_remove:
  "n < length (slots h) \<Longrightarrow> header_size (h\<lparr>slots := take n (slots h) @ drop (n + 1) (slots h)\<rparr>) \<le> header_size h"
proof -
  assume n: "n < length (slots h)"
  have "sum_list (map slot_size (slots h)) =
      sum_list (map slot_size (take n (slots h))) + slot_size (slots h ! n) + sum_list (map slot_size (drop (n + 1) (slots h)))"
    by (subst id_take_nth_drop [OF n]) simp
  then show ?thesis by (simp add: header_size_def)
qed

lemma revoke_start:
  assumes w: "ready C (ra_backend args) w h" and u: "presents (ra_credential args) u (disk w)"
    and mk: "open_master_key P h u = Inr mk"
  obtains w1 where "length (slots h) \<le> ra_slot args \<Longrightarrow> revoke P C args w = (Inl (NoSuchSlot (ra_slot args)), w1)"
    and "ra_slot args < length (slots h) \<Longrightarrow> length (slots h) = 1 \<Longrightarrow> revoke P C args w = (Inl LastSlot, w1)"
    and "ra_slot args < length (slots h) \<Longrightarrow> length (slots h) \<noteq> 1 \<Longrightarrow> revoke P C args w =
       bindE (write_header P C (ra_backend args)
         (h\<lparr>slots := take (ra_slot args) (slots h) @ drop (ra_slot args + 1) (slots h)\<rparr>) mk) (\<lambda>_.
       println (''removed '' @ slot_kind (slots h ! ra_slot args) @ '' slot '' @ dec (ra_slot args))) w1"
    and "quiet w w1"
proof -
  have ff: "fault_free w" "settled (ra_backend args) (disk w)" "header_on_disk C (ra_backend args) (disk w) h"
    using w by (simp_all add: ready_def)
  obtain w1 where w1: "\<And>f :: volume_header \<Rightarrow> bytes \<Rightarrow> unit io. bindE (identity_file (ra_credential args)) (\<lambda>i. bindE (read_header C (ra_backend args)) (\<lambda>h.
      bindE (lift (rbind (credential_unlock (ra_credential args) i) (open_master_key P h))) (f h))) w = f h mk w1"
    "quiet w w1"
    using opened [OF ff u mk] by blast
  show thesis
    by (rule that [OF _ _ _ w1(2)]) (auto simp: revoke_def presents_resolve [OF u] w1(1) Let_def throw_def)
qed

lemma revoke_run:
  assumes L: "crypto_laws P C" and w: "ready C (ra_backend args) w h" and u: "presents (ra_credential args) u (disk w)"
    and mk: "open_master_key P h u = Inr mk" and n: "ra_slot args < length (slots h)" "length (slots h) \<noteq> 1"
  obtains w' h' where "revoke P C args w = (Inr (), w')"
    and "resealed P C (ra_backend args) h (take (ra_slot args) (slots h) @ drop (ra_slot args + 1) (slots h)) mk w' h'"
    and "slots h' = take (ra_slot args) (slots h) @ drop (ra_slot args + 1) (slots h)"
proof -
  let ?xs = "take (ra_slot args) (slots h) @ drop (ra_slot args + 1) (slots h)"
  obtain w1 where w1: "revoke P C args w =
       bindE (write_header P C (ra_backend args) (h\<lparr>slots := ?xs\<rparr>) mk) (\<lambda>_.
       println (''removed '' @ slot_kind (slots h ! ra_slot args) @ '' slot '' @ dec (ra_slot args))) w1" "quiet w w1"
    using revoke_start [OF w u mk] n by metis
  have r1: "ready C (ra_backend args) w1 h" by (rule quiet_ready [OF w1(2) w])
  have "list_all slot_wf ?xs" using w by (auto simp: ready_def header_wf_def list_all_iff dest: in_set_takeD in_set_dropD)
  moreover have "header_size (h\<lparr>slots := ?xs\<rparr>) < 2 ^ 64"
    using header_size_remove [OF n(1)] w by (simp add: ready_def MAX_HEADER_BYTES_def)
  ultimately obtain h' w3 where e: "write_header P C (ra_backend args) (h\<lparr>slots := ?xs\<rparr>) mk w1 = (Inr h', w3)"
    "resealed P C (ra_backend args) h ?xs mk w3 h'" "slots h' = ?xs" using write_slots [OF L r1 refl refl] by metis
  with that w1(1) show thesis by (simp add: bindE_def println_def)
qed

section \<open>Changing the password\<close>

lemma prompt_run: "terminal w \<Longrightarrow> typed w = x # xs \<Longrightarrow> prompt_password p w = (Inr x, w\<lparr>typed := xs\<rparr>)"
  by (simp add: prompt_password_def)

lemma quiet_typed: "quiet w w' \<Longrightarrow> typed w' = typed w \<and> terminal w' = terminal w"
  unfolding quiet_def by (metis world.select_convs(5,6) world.surjective world.update_convs(4))

definition with_password_slot :: "key_slot list \<Rightarrow> key_slot \<Rightarrow> key_slot list" where
  "with_password_slot xs s = (case password_position xs of Some i \<Rightarrow> xs[i := s] | None \<Rightarrow> xs @ [s])"

lemma with_password_slot_opens:
  assumes "try_slot P h s (UnlockPassword pw) = Inr (Some mk)"
  shows "try_slots P h (with_password_slot xs s) (UnlockPassword pw) = Inr mk"
  using assms by (auto simp: with_password_slot_def password_position_None try_slots_replaced split: option.splits)

lemma with_password_slot_identity:
  assumes "is_password_slot s"
  shows "try_slots P h (with_password_slot xs s) (UnlockIdentity i) = try_slots P h xs (UnlockIdentity i)"
proof -
  have "filter (\<lambda>s. \<not> is_password_slot s) (with_password_slot xs s) = filter (\<lambda>s. \<not> is_password_slot s) xs"
    using assms password_position_Some [of xs]
    by (auto simp: with_password_slot_def filter_update split: option.splits)
  then show ?thesis by (simp add: try_slots_identity_filter [of P h "with_password_slot xs s"] try_slots_identity_filter [of P h xs])
qed

lemma with_password_slot_set: "set (with_password_slot xs s) \<subseteq> insert s (set xs)"
  using set_update_subset_insert [of xs] by (auto simp: with_password_slot_def split: option.splits)

lemma with_password_slot_size: "header_size (h\<lparr>slots := with_password_slot (slots h) s\<rparr>) \<le> header_size h + slot_size s"
proof (cases "password_position (slots h)")
  case (Some i)
  note i = password_position_Some(1) [OF Some]
  have "sum_list (map slot_size (slots h)) =
      sum_list (map slot_size (take i (slots h))) + slot_size (slots h ! i) + sum_list (map slot_size (drop (i + 1) (slots h)))"
    by (subst id_take_nth_drop [OF i]) simp
  then show ?thesis
    using Some i by (simp add: with_password_slot_def header_size_def upd_conv_take_nth_drop)
qed (simp add: with_password_slot_def header_size_def)

lemma passwd_run:
  assumes L: "crypto_laws P C" and w: "ready C (pa_backend args) w h" and u: "presents (pa_credential args) u (disk w)"
    and mk: "open_master_key P h u = Inr mk" and t: "terminal w" "typed w = pw # pw # rest" and pw: "pw \<noteq> []" "length pw < 2 ^ 32"
    and kdf: "argon2_params_ok P (m_cost (first_kdf (slots h))) (t_cost (first_kdf (slots h))) (p_cost (first_kdf (slots h))) KEY_LEN"
    and fits: "header_size h + 112 < 2 ^ 64"
  obtains w' h' slot where "passwd P C args w = (Inr (), w')"
    and "resealed P C (pa_backend args) h (with_password_slot (slots h) slot) mk w' h'"
    and "slots h' = with_password_slot (slots h) slot" and "is_password_slot slot" and "slot_size slot = 112"
    and "try_slot P h slot (UnlockPassword pw) = Inr (Some mk)"
proof -
  let ?bk = "pa_backend args" and ?kdf = "first_kdf (slots h)"
  have ff: "fault_free w" "settled ?bk (disk w)" "header_on_disk C ?bk (disk w) h" using w by (simp_all add: ready_def)
  obtain w1 where w1: "\<And>f :: volume_header \<Rightarrow> bytes \<Rightarrow> unit io. bindE (identity_file (pa_credential args)) (\<lambda>i. bindE (read_header C ?bk) (\<lambda>h.
      bindE (lift (rbind (credential_unlock (pa_credential args) i) (open_master_key P h))) (f h))) w = f h mk w1"
    "quiet w w1"
    using opened [OF ff u mk] by blast
  let ?w2 = "w1\<lparr>typed := rest\<rparr>"
  have prompts: "prompt_password p w1 = (Inr pw, w1\<lparr>typed := pw # rest\<rparr>)"
    "prompt_password p (w1\<lparr>typed := pw # rest\<rparr>) = (Inr pw, ?w2)" for p
    using t quiet_typed [OF w1(2)] by (simp_all add: prompt_run)
  have r2: "ready C ?bk ?w2 h" using quiet_ready [OF w1(2) w] by (simp add: ready_def)
  have laws: "aead_laws P" "kdf_laws P" using L by (simp_all add: crypto_laws_def)
  note l = open_master_key_length [OF mk]
  obtain slot w3 where s: "password_slot P pw (volume_id h) mk ?kdf ?w2 = (Inr slot, w3)"
    using password_slot_total [OF laws l pw(2) kdf] by blast
  note o = password_slot_opens [OF laws l refl s]
  have ps: "is_password_slot slot" "slot_size slot = 112" using o(3) by (auto simp: is_password_slot_def slot_size_def)
  let ?xs = "with_password_slot (slots h) slot"
  have "list_all slot_wf ?xs"
    using o(2) w with_password_slot_set [of "slots h" slot] by (auto simp: ready_def header_wf_def list_all_iff)
  moreover have "header_size (h\<lparr>slots := ?xs\<rparr>) < 2 ^ 64" using with_password_slot_size [of h slot] ps fits by simp
  ultimately obtain h' w4 where e: "write_header P C ?bk (h\<lparr>slots := ?xs\<rparr>) mk w3 = (Inr h', w4)" "resealed P C ?bk h ?xs mk w4 h'"
    "slots h' = ?xs" using write_slots [OF L r2 o(4,5)] by metis
  have upd: "(case password_position (slots h) of None \<Rightarrow> h\<lparr>slots := slots h @ [slot]\<rparr>
      | Some index \<Rightarrow> h\<lparr>slots := (slots h)[index := slot]\<rparr>) = h\<lparr>slots := ?xs\<rparr>"
    by (simp add: with_password_slot_def split: option.splits)
  have "passwd P C args w = (Inr (), w4\<lparr>stdout := stdout w4 @ [''password slot rewrapped'']\<rparr>)"
    using pw(1) prompts s e(1)
    by (simp add: passwd_def presents_resolve [OF u] w1(1)) (simp add: bindE_def Let_def upd println_def)
  with that e ps o(1) show thesis by simp
qed

end
