(* ===== verification/Sharing.thy ===== *)
theory Sharing
  imports Commands
begin

text \<open>
  What the slot commands do for the credentials of a volume: who can open it after \<open>share\<close>, \<open>revoke\<close> and
  \<open>passwd\<close>, what they refuse, and two ways in which \<open>share\<close> goes wrong.
\<close>

section \<open>A sample volume with a recipient\<close>

definition bob :: identity where "bob = \<lparr>seed = replicate 64 5\<rparr>"

definition bob_public :: public_identity where
  "bob_public = \<lparr>kem_param = 768, kem_public_key = replicate 32 5\<rparr>"

definition shared_world :: world where
  "shared_world = sample_world [[HEADER_FILE] \<mapsto> put_header sample_sealed, [''bob.pub''] \<mapsto> put_public bob_public]"

definition with_password :: credential_args where
  "with_password = \<lparr>ca_password = Some sample_password, ca_identity = None\<rparr>"

definition share_bob :: share_args where
  "share_bob = \<lparr>sa_backend = [], sa_to = [''bob.pub''], sa_label = None, sa_credential = with_password\<rparr>"

lemma sample_crypto_laws [simp]: "crypto_laws sample_prims bincode_header"
  by (simp add: crypto_laws_def)

lemma with_password_presents [simp]: "presents with_password (UnlockPassword sample_password) d"
  by (simp add: presents_def with_password_def sample_password_def)

lemma header_on_disk_cong:
  "d (bk @ [HEADER_FILE]) = d' (bk @ [HEADER_FILE]) \<Longrightarrow> header_on_disk C bk d h = header_on_disk C bk d' h"
  by (simp add: header_on_disk_def)

lemma ready_sample: "ready bincode_header [] sample_volume sample_sealed" "ready bincode_header [] shared_world sample_sealed"
proof -
  have "header_on_disk bincode_header [] (disk shared_world) sample_sealed = header_on_disk bincode_header [] (disk sample_volume) sample_sealed"
    by (rule header_on_disk_cong) (simp add: shared_world_def sample_volume_def HEADER_FILE_def)
  then have "header_on_disk bincode_header [] (disk shared_world) sample_sealed" by simp
  moreover have "settled [] (disk shared_world)" "fault_free shared_world"
    by (simp_all add: shared_world_def settled_def volume_files)
  ultimately show "ready bincode_header [] sample_volume sample_sealed" "ready bincode_header [] shared_world sample_sealed"
    by (simp_all add: ready_def sample_header_wf sample_header_sizes MAX_HEADER_BYTES_def)
qed

lemma bob_facts:
  "length (seed bob) = SEED_LEN" "public sample_prims bob = Inr bob_public"
  "disk shared_world (sa_to share_bob) = Some (put_public bob_public)" "de bincode_public (put_public bob_public) = Some bob_public"
proof -
  show "length (seed bob) = SEED_LEN" "public sample_prims bob = Inr bob_public"
    by (simp_all add: bob_def bob_public_def public_def decapsulation_key_def sample_prims_def)
  show "disk shared_world (sa_to share_bob) = Some (put_public bob_public)"
    by (simp add: shared_world_def share_bob_def)
  show "de bincode_public (put_public bob_public) = Some bob_public"
    by (simp add: bincode_public_def codec_of_def public_identity.whole bob_public_def vec_ok_def)
qed

lemma share_bob_sel [simp]: "sa_backend share_bob = []" "sa_label share_bob = None" "sa_credential share_bob = with_password"
  by (simp_all add: share_bob_def)

lemma share_bob_size: "share_slot_size sample_prims (share_label share_bob) bob_public = 177"
  by (simp add: share_slot_size_def share_label_def share_bob_def path_stem_def file_stem_def ascii_def utf8_unit_def
      bob_public_def sample_prims_def)

lemma bob_no_slot: "open_master_key sample_prims sample_sealed (UnlockIdentity bob) = Inl NoSlotAccepted"
  by (simp add: open_master_key_def sample_header_sizes sample_slot_def try_slot_def)

section \<open>Properties\<close>

text \<open>C22: Sharing adds one slot under the given label: the recipient's identity opens the volume afterwards, every credential
  that opened it before still does, and all of them yield the same master key.\<close>

theorem share_gives_access:
  assumes "crypto_laws P C" and "ready C (sa_backend args) w h" and "presents (sa_credential args) u (disk w)"
    and "open_master_key P h u = Inr mk"
    and "length (seed i) = SEED_LEN" and "public P i = Inr pub" and "disk w (sa_to args) = Some b" and "de CP b = Some pub"
    and "\<And>l. sa_label args = Some l \<Longrightarrow> utf8_valid l"
    and "header_size h + share_slot_size P (share_label args) pub \<le> MAX_HEADER_BYTES"
    and "\<And>k. open_master_key P h (UnlockIdentity i) = Inr k \<Longrightarrow> k = mk"
  shows "\<exists>w' h' slot. share P C CP args w = (Inr (), w') \<and> ready C (sa_backend args) w' h' \<and>
    slots h' = slots h @ [slot] \<and> label slot = share_label args \<and>
    accepts P C (sa_backend args) (UnlockIdentity i) mk w' \<and>
    (\<forall>c. open_master_key P h c = Inr mk \<longrightarrow> accepts P C (sa_backend args) c mk w')"
proof -
  have fits: "header_size h + share_slot_size P (share_label args) pub < 2 ^ 64" using assms(10) by (simp add: MAX_HEADER_BYTES_def)
  obtain w' h' slot where r: "share P C CP args w = (Inr (), w')" "resealed P C (sa_backend args) h (slots h @ [slot]) mk w' h'"
    "slots h' = slots h @ [slot]" "label slot = share_label args" "try_slot P h slot (UnlockIdentity i) = Inr (Some mk)"
    "slot_size slot = share_slot_size P (share_label args) pub"
    using share_run [OF assms(1-9) fits] by metis
  have fit: "header_size (h\<lparr>slots := slots h @ [slot]\<rparr>) \<le> MAX_HEADER_BYTES" using r(6) assms(10) by (simp add: header_size_append)
  note rr = resealed_ready [OF assms(1) r(2) ready_version [OF assms(2)] fit]
  have "accepts P C (sa_backend args) (UnlockIdentity i) mk w'"
    by (rule rr(3), rule try_slots_new [OF r(5)]) (use assms(11) in \<open>simp add: open_master_key_def\<close>)
  moreover have "accepts P C (sa_backend args) c mk w'" if "open_master_key P h c = Inr mk" for c
    using rr(3) try_slots_keep that by (simp add: open_master_key_def)
  ultimately show ?thesis using r rr(1) by blast
qed

theorem share_gives_access_witness:
  "\<exists>w' h' slot. share sample_prims bincode_header bincode_public share_bob shared_world = (Inr (), w') \<and>
    ready bincode_header [] w' h' \<and> slots h' = [sample_slot, slot] \<and> label slot = share_label share_bob \<and>
    accepts sample_prims bincode_header [] (UnlockIdentity bob) sample_master_key w' \<and>
    accepts sample_prims bincode_header [] (UnlockPassword sample_password) sample_master_key w'"
proof -
  have "header_size sample_sealed + share_slot_size sample_prims (share_label share_bob) bob_public \<le> MAX_HEADER_BYTES"
    by (simp add: sample_header_sizes share_bob_size MAX_HEADER_BYTES_def)
  then show ?thesis
    using share_gives_access [where P = sample_prims and C = bincode_header and args = share_bob and w = shared_world
        and h = sample_sealed and u = "UnlockPassword sample_password" and mk = sample_master_key and i = bob
        and pub = bob_public and CP = bincode_public, OF _ _ _ _ bob_facts]
      ready_sample(2) bob_no_slot sample_volume_facts(4)
    by (simp add: sample_header_sizes) (use sample_volume_facts(4) in blast)
qed

text \<open>C38: Sharing does not look at the size of the header it writes: one slot too many and the command still reports success,
  but from then on no credential opens the volume.\<close>

theorem share_can_lock_everyone_out:
  assumes "crypto_laws P C" and "ready C (sa_backend args) w h" and "presents (sa_credential args) u (disk w)"
    and "open_master_key P h u = Inr mk"
    and "length (seed i) = SEED_LEN" and "public P i = Inr pub" and "disk w (sa_to args) = Some b" and "de CP b = Some pub"
    and "\<And>l. sa_label args = Some l \<Longrightarrow> utf8_valid l"
    and "header_size h + share_slot_size P (share_label args) pub < 2 ^ 64"
    and "MAX_HEADER_BYTES < header_size h + share_slot_size P (share_label args) pub"
  shows "\<exists>w'. share P C CP args w = (Inr (), w') \<and> (\<forall>c. unlock P C (sa_backend args) c w' = (Inl HeaderTooLarge, tick w'))"
proof -
  obtain w' h' slot where r: "share P C CP args w = (Inr (), w')" "resealed P C (sa_backend args) h (slots h @ [slot]) mk w' h'"
    "slot_size slot = share_slot_size P (share_label args) pub"
    using share_run [OF assms(1-10)] by metis
  have "MAX_HEADER_BYTES < header_size (h\<lparr>slots := slots h @ [slot]\<rparr>)" using r(3) assms(11) by (simp add: header_size_append)
  with resealed_too_large [OF assms(1) r(2)] r(1) show ?thesis by blast
qed

text \<open>The label alone can fill the header.\<close>

definition share_long :: share_args where
  "share_long = share_bob\<lparr>sa_label := Some (replicate 262144 97)\<rparr>"

lemma share_long_sel [simp]: "sa_backend share_long = []" "sa_label share_long = Some (replicate 262144 97)"
  "sa_credential share_long = with_password" "sa_to share_long = sa_to share_bob"
  by (simp_all add: share_long_def)

lemma utf8_ascii_replicate: "utf8_valid (replicate n 97)"
  by (induction n) (simp_all add: utf8_unit_def)

theorem share_can_lock_everyone_out_witness:
  "\<exists>w'. share sample_prims bincode_header bincode_public share_long shared_world = (Inr (), w') \<and>
    (\<forall>c. unlock sample_prims bincode_header [] c w' = (Inl HeaderTooLarge, tick w'))"
proof -
  have "share_slot_size sample_prims (share_label share_long) bob_public = 262318"
    by (simp add: share_slot_size_def share_label_def bob_public_def sample_prims_def)
  then show ?thesis
    using share_can_lock_everyone_out [where P = sample_prims and C = bincode_header and args = share_long and w = shared_world
        and h = sample_sealed and u = "UnlockPassword sample_password" and mk = sample_master_key and i = bob
        and pub = bob_public and CP = bincode_public and b = "put_public bob_public"]
      ready_sample(2) sample_volume_facts(4) bob_facts
    by (simp add: sample_header_sizes utf8_ascii_replicate MAX_HEADER_BYTES_def)
qed

text \<open>C39: Sharing does not check the header's tag before it seals the header again: a header that unlocking refuses as
  tampered with is accepted, with whatever slots it holds, after someone has shared the volume.\<close>

theorem share_reseals_a_tampered_header:
  assumes "crypto_laws P C" and "ready C (sa_backend args) w h" and "presents (sa_credential args) u (disk w)"
    and "open_master_key P h u = Inr mk"
    and "length (seed i) = SEED_LEN" and "public P i = Inr pub" and "disk w (sa_to args) = Some b" and "de CP b = Some pub"
    and "\<And>l. sa_label args = Some l \<Longrightarrow> utf8_valid l"
    and "header_size h + share_slot_size P (share_label args) pub \<le> MAX_HEADER_BYTES"
    and "unlock P C (sa_backend args) u w = (Inl BadHeaderMac, v)"
  shows "\<exists>w' h' cr. share P C CP args w = (Inr (), w') \<and>
    unlock P C (sa_backend args) u w' = (Inr cr, tick w') \<and> header cr = h' \<and> set (slots h) \<subseteq> set (slots h')"
proof -
  have fits: "header_size h + share_slot_size P (share_label args) pub < 2 ^ 64" using assms(10) by (simp add: MAX_HEADER_BYTES_def)
  obtain w' h' slot where r: "share P C CP args w = (Inr (), w')" "resealed P C (sa_backend args) h (slots h @ [slot]) mk w' h'"
    "slots h' = slots h @ [slot]" "slot_size slot = share_slot_size P (share_label args) pub"
    using share_run [OF assms(1-9) fits] by metis
  have fit: "header_size (h\<lparr>slots := slots h @ [slot]\<rparr>) \<le> MAX_HEADER_BYTES" using r(4) assms(10) by (simp add: header_size_append)
  note rr = resealed_ready [OF assms(1) r(2) ready_version [OF assms(2)] fit]
  have "accepts P C (sa_backend args) u mk w'"
    using rr(3) try_slots_keep assms(4) by (simp add: open_master_key_def)
  then obtain cr where cr: "unlock P C (sa_backend args) u w' = (Inr cr, tick w')" "open_header P C h' u = Inr cr"
    using ready_unlock [OF rr(1)] by (auto simp: accepts_def split: sum.splits)
  have "header cr = h'" using cr(2) by (auto simp: open_header_def rbind_Inr_iff from_master_key_def split: prod.splits)
  with r cr show ?thesis by auto
qed

definition tampered :: volume_header where
  "tampered = sample_sealed\<lparr>mac := replicate 32 0\<rparr>"

definition tampered_world :: world where
  "tampered_world = sample_world [[HEADER_FILE] \<mapsto> put_header tampered, [''bob.pub''] \<mapsto> put_public bob_public]"

lemma tampered_facts:
  "ready bincode_header [] tampered_world tampered"
  "open_master_key sample_prims tampered (UnlockPassword sample_password) = Inr sample_master_key"
  "header_size tampered = 172" "slots tampered = [sample_slot]"
proof -
  show s: "header_size tampered = 172" "slots tampered = [sample_slot]"
    using sample_header_sizes by (simp_all add: tampered_def header_size_def)
  have wf: "header_wf tampered" using sample_header_wf(2) by (simp add: tampered_def header_wf_def)
  have v: "version tampered = HEADER_VERSION" "ser bincode_header tampered = Some (put_header tampered)"
    using sample_header_sizes by (simp_all add: tampered_def bincode_header_def codec_of_def)
  have "header_on_disk bincode_header [] (disk tampered_world) tampered"
    by (rule header_on_disk_serialised [OF _ _ wf v(1) _ v(2)])
      (simp_all add: s tampered_world_def MAX_HEADER_BYTES_def HEADER_FILE_def)
  moreover have "settled [] (disk tampered_world)" "fault_free tampered_world"
    by (simp_all add: tampered_world_def settled_def volume_files)
  ultimately show "ready bincode_header [] tampered_world tampered"
    by (simp add: ready_def wf s MAX_HEADER_BYTES_def)
  show "open_master_key sample_prims tampered (UnlockPassword sample_password) = Inr sample_master_key"
    using sample_volume_facts(4) by (simp add: open_master_key_def tampered_def try_slots_cong [of tampered sample_sealed, unfolded tampered_def])
qed

lemma tampered_refused:
  "unlock sample_prims bincode_header [] (UnlockPassword sample_password) tampered_world = (Inl BadHeaderMac, tick tampered_world)"
proof -
  have "authenticated_bytes bincode_header tampered = Inr (put_header sample_unsealed)"
    by (simp add: authenticated_bytes_def bincode_serialize_def bincode_header_def codec_of_def tampered_def sample_sealed_def sample_unsealed_def)
  moreover have "sample_hmac sample_mac_key (put_header sample_unsealed) ! 1 = 172"
    using sample_header_wf(1) bincode_header_sized
    by (simp add: sample_hmac_def header_sized_def bincode_header_def codec_of_def header_size_def sample_unsealed_def sample_slot_opens(3))
  then have "sample_hmac sample_mac_key (put_header sample_unsealed) \<noteq> mac tampered" by (auto simp: tampered_def)
  ultimately show ?thesis
    by (simp add: ready_unlock [OF tampered_facts(1)] open_header_def tampered_facts(2) sample_mac_key_derived verify_header_mac_def)
qed

theorem share_reseals_a_tampered_header_witness:
  "\<exists>w' h' cr. share sample_prims bincode_header bincode_public share_bob tampered_world = (Inr (), w') \<and>
    unlock sample_prims bincode_header [] (UnlockPassword sample_password) w' = (Inr cr, tick w') \<and> header cr = h' \<and>
    sample_slot \<in> set (slots h')"
proof -
  have "disk tampered_world (sa_to share_bob) = Some (put_public bob_public)"
    by (simp add: tampered_world_def share_bob_def)
  then show ?thesis
    using share_reseals_a_tampered_header [where P = sample_prims and C = bincode_header and args = share_bob and w = tampered_world
        and h = tampered and u = "UnlockPassword sample_password" and mk = sample_master_key and i = bob
        and pub = bob_public and CP = bincode_public and b = "put_public bob_public" and v = "tick tampered_world"]
      tampered_facts bob_facts tampered_refused
    by (simp add: share_bob_size MAX_HEADER_BYTES_def)
qed

text \<open>C23: Revoking removes exactly the named slot: credentials that open a remaining slot still open the volume with
  the same master key, and a credential none of the remaining slots accepts is refused.\<close>

theorem revoke_removes_one_slot:
  assumes "crypto_laws P C" and "ready C (ra_backend args) w h" and "presents (ra_credential args) u (disk w)"
    and "open_master_key P h u = Inr mk" and "ra_slot args < length (slots h)" and "1 < length (slots h)"
  shows "\<exists>w' h'. revoke P C args w = (Inr (), w') \<and> ready C (ra_backend args) w' h' \<and>
    slots h' = take (ra_slot args) (slots h) @ drop (ra_slot args + 1) (slots h) \<and>
    (\<forall>c. try_slots P h (slots h') c = Inr mk \<longrightarrow> accepts P C (ra_backend args) c mk w') \<and>
    (\<forall>c. (\<forall>s \<in> set (slots h'). try_slot P h s c = Inr None) \<longrightarrow>
      unlock P C (ra_backend args) c w' = (Inl NoSlotAccepted, tick w'))"
proof -
  let ?xs = "take (ra_slot args) (slots h) @ drop (ra_slot args + 1) (slots h)"
  have n: "length (slots h) \<noteq> 1" using assms(6) by simp
  obtain w' h' where r: "revoke P C args w = (Inr (), w')" "resealed P C (ra_backend args) h ?xs mk w' h'" "slots h' = ?xs"
    using revoke_run [OF assms(1-5) n] by metis
  have fit: "header_size (h\<lparr>slots := ?xs\<rparr>) \<le> MAX_HEADER_BYTES"
    using header_size_remove [OF assms(5)] assms(2) by (simp add: ready_def)
  note rr = resealed_ready [OF assms(1) r(2) ready_version [OF assms(2)] fit]
  have "unlock P C (ra_backend args) c w' = (Inl NoSlotAccepted, tick w')" if "\<forall>s \<in> set ?xs. try_slot P h s c = Inr None" for c
    using that try_slots_skip [of P h c ?xs "[]"] rr(2)
    by (simp add: ready_unlock [OF rr(1)] open_header_def list_all_iff del: set_append)
  with r rr(1,3) show ?thesis by auto
qed

definition two_slots :: volume_header where
  "two_slots = sample_sealed\<lparr>slots := [sample_slot, RecipientSlot [98] 768 [] [] []]\<rparr>"

definition two_slots_world :: world where
  "two_slots_world = sample_world [[HEADER_FILE] \<mapsto> put_header two_slots]"

lemma two_slots_facts:
  "ready bincode_header [] two_slots_world two_slots"
  "open_master_key sample_prims two_slots (UnlockPassword sample_password) = Inr sample_master_key"
  "slots two_slots = [sample_slot, RecipientSlot [98] 768 [] [] []]"
proof -
  show sl: "slots two_slots = [sample_slot, RecipientSlot [98] 768 [] [] []]" by (simp add: two_slots_def)
  have s: "header_size two_slots = 211"
    by (simp add: header_size_def sl sample_slot_opens(3)) (simp add: slot_size_def)
  have wf: "header_wf two_slots"
    using sample_header_wf(2) sample_slot_opens(2)
    by (simp add: header_wf_def two_slots_def vec_ok_def) (simp add: slot_wf_def vec_ok_def utf8_unit_def)
  have v: "version two_slots = HEADER_VERSION" "ser bincode_header two_slots = Some (put_header two_slots)"
    using sample_header_sizes by (simp_all add: two_slots_def bincode_header_def codec_of_def)
  have "header_on_disk bincode_header [] (disk two_slots_world) two_slots"
    by (rule header_on_disk_serialised [OF _ _ wf v(1) _ v(2)])
      (simp_all add: s two_slots_world_def MAX_HEADER_BYTES_def)
  moreover have "settled [] (disk two_slots_world)" "fault_free two_slots_world"
    by (simp_all add: two_slots_world_def settled_def volume_files)
  ultimately show "ready bincode_header [] two_slots_world two_slots"
    by (simp add: ready_def wf s MAX_HEADER_BYTES_def)
  have "volume_id two_slots = volume_id sample_sealed" by (simp add: two_slots_def)
  then show "open_master_key sample_prims two_slots (UnlockPassword sample_password) = Inr sample_master_key"
    using sample_slot_opens(1) by (simp add: open_master_key_def sl try_slot_cong [of two_slots sample_sealed])
qed

theorem revoke_removes_one_slot_witness:
  "\<exists>w' h'. revoke sample_prims bincode_header \<lparr>ra_backend = [], ra_slot = 1, ra_credential = with_password\<rparr> two_slots_world = (Inr (), w') \<and>
    ready bincode_header [] w' h' \<and> slots h' = [sample_slot] \<and>
    accepts sample_prims bincode_header [] (UnlockPassword sample_password) sample_master_key w' \<and>
    unlock sample_prims bincode_header [] (UnlockIdentity bob) w' = (Inl NoSlotAccepted, tick w')"
proof -
  have "try_slots sample_prims two_slots [sample_slot] (UnlockPassword sample_password) = Inr sample_master_key"
    using two_slots_facts(2,3) sample_slot_opens(1) try_slot_cong [of two_slots sample_sealed] by (simp add: two_slots_def)
  moreover have "try_slot sample_prims two_slots sample_slot (UnlockIdentity bob) = Inr None"
    by (simp add: sample_slot_def try_slot_def)
  ultimately show ?thesis
    using revoke_removes_one_slot [of sample_prims bincode_header "\<lparr>ra_backend = [], ra_slot = 1, ra_credential = with_password\<rparr>"
        two_slots_world two_slots "UnlockPassword sample_password" sample_master_key] two_slots_facts
    by fastforce
qed

text \<open>C31: Revoking refuses a slot number that does not exist and refuses to remove the only slot, even for a
  credential that opens the volume, and then no file has changed.\<close>

theorem revoke_refuses:
  assumes "ready C (ra_backend args) w h" and "presents (ra_credential args) u (disk w)" and "open_master_key P h u = Inr mk"
    and "length (slots h) \<le> ra_slot args \<or> length (slots h) = 1"
  shows "fst (revoke P C args w) = Inl (if length (slots h) \<le> ra_slot args then NoSuchSlot (ra_slot args) else LastSlot) \<and>
    disk (snd (revoke P C args w)) = disk w"
proof -
  obtain w1 where w1: "length (slots h) \<le> ra_slot args \<Longrightarrow> revoke P C args w = (Inl (NoSuchSlot (ra_slot args)), w1)"
    "ra_slot args < length (slots h) \<Longrightarrow> length (slots h) = 1 \<Longrightarrow> revoke P C args w = (Inl LastSlot, w1)" "quiet w w1"
    using revoke_start [OF assms(1-3)] by metis
  then show ?thesis using assms(4) quietD [OF w1(3)] by (cases "length (slots h) \<le> ra_slot args") simp_all
qed

theorem revoke_refuses_witness:
  "fst (revoke sample_prims bincode_header \<lparr>ra_backend = [], ra_slot = 0, ra_credential = with_password\<rparr> sample_volume) = Inl LastSlot \<and>
   disk (snd (revoke sample_prims bincode_header \<lparr>ra_backend = [], ra_slot = 0, ra_credential = with_password\<rparr> sample_volume)) = disk sample_volume"
  using revoke_refuses [of bincode_header "\<lparr>ra_backend = [], ra_slot = 0, ra_credential = with_password\<rparr>" sample_volume sample_sealed
      "UnlockPassword sample_password" sample_prims sample_master_key] ready_sample(1)
  by (simp add: sample_header_sizes)

text \<open>C24: Changing the password: the password typed twice opens the volume afterwards with the same master key, and every
  identity that opened it still does.\<close>

theorem passwd_sets_the_password:
  assumes "crypto_laws P C" and "ready C (pa_backend args) w h" and "presents (pa_credential args) u (disk w)"
    and "open_master_key P h u = Inr mk" and "terminal w" and "typed w = pw # pw # rest" and "pw \<noteq> []" and "length pw < 2 ^ 32"
    and "argon2_params_ok P (m_cost (first_kdf (slots h))) (t_cost (first_kdf (slots h))) (p_cost (first_kdf (slots h))) KEY_LEN"
    and "header_size h + 112 \<le> MAX_HEADER_BYTES"
  shows "\<exists>w' h'. passwd P C args w = (Inr (), w') \<and> ready C (pa_backend args) w' h' \<and>
    accepts P C (pa_backend args) (UnlockPassword pw) mk w' \<and>
    (\<forall>i. open_master_key P h (UnlockIdentity i) = Inr mk \<longrightarrow> accepts P C (pa_backend args) (UnlockIdentity i) mk w')"
proof -
  have fits: "header_size h + 112 < 2 ^ 64" using assms(10) by (simp add: MAX_HEADER_BYTES_def)
  obtain w' h' slot where r: "passwd P C args w = (Inr (), w')"
    "resealed P C (pa_backend args) h (with_password_slot (slots h) slot) mk w' h'" "is_password_slot slot" "slot_size slot = 112"
    "try_slot P h slot (UnlockPassword pw) = Inr (Some mk)"
    using passwd_run [OF assms(1-9) fits] by metis
  have fit: "header_size (h\<lparr>slots := with_password_slot (slots h) slot\<rparr>) \<le> MAX_HEADER_BYTES"
    using with_password_slot_size [of h slot] r(4) assms(10) by simp
  note rr = resealed_ready [OF assms(1) r(2) ready_version [OF assms(2)] fit]
  show ?thesis
    using r rr(1) rr(3) [OF with_password_slot_opens [OF r(5)]] rr(3) with_password_slot_identity [OF r(3), of P h "slots h"]
    by (auto simp: open_master_key_def)
qed

theorem passwd_sets_the_password_witness:
  "\<exists>w' h'. passwd sample_prims bincode_header \<lparr>pa_backend = [], pa_credential = with_password\<rparr>
      (sample_volume\<lparr>terminal := True, typed := [[120], [120]]\<rparr>) = (Inr (), w') \<and>
    ready bincode_header [] w' h' \<and> accepts sample_prims bincode_header [] (UnlockPassword [120]) sample_master_key w'"
proof -
  have "ready bincode_header [] (sample_volume\<lparr>terminal := True, typed := [[120], [120]]\<rparr>) sample_sealed"
    using ready_sample(1) by (simp add: ready_def fault_free_def)
  then show ?thesis
    using passwd_sets_the_password [of sample_prims bincode_header "\<lparr>pa_backend = [], pa_credential = with_password\<rparr>"
        "sample_volume\<lparr>terminal := True, typed := [[120], [120]]\<rparr>" sample_sealed "UnlockPassword sample_password"
        sample_master_key "[120]" "[]"]
    by (auto simp: sample_header_sizes MAX_HEADER_BYTES_def sample_slot_def kdf_default_def)
qed

section \<open>Creating an identity\<close>

lemma public_path_neq: "public_path p \<noteq> p"
proof (cases p rule: rev_cases)
  case (snoc q c)
  have "length c \<noteq> length (c @ ''.pub'')" by simp
  then have "c @ ''.pub'' \<noteq> c" by metis
  with snoc show ?thesis by (simp add: public_path_def)
qed (simp add: public_path_def)

definition keygen_laws :: "prims \<Rightarrow> bool" where
  "keygen_laws P \<longleftrightarrow> (\<forall>r. length r = SEED_LEN \<longrightarrow>
     (case kem_keygen P r of None \<Rightarrow> False | Some s \<Rightarrow> length s = SEED_LEN \<and> vec_ok (kem_public P s)))"

text \<open>C30: The two files a new identity leaves behind load to a private identity and to its own public half, and no other
  file changes.  If the file for the private identity exists, the command is refused and nothing changes; only that file is
  looked at, so an existing file with the name of the public half is replaced by the new public half.\<close>

theorem keygen_round_trip:
  assumes "keygen_laws P" and "codec_laws (\<lambda>p. vec_ok (kem_public_key p)) CP" and "fault_free w"
  shows "if disk w (ka_out args) \<noteq> None then keygen P CP args w = (Inl AlreadyExists, w)
    else \<exists>w' i pub. keygen P CP args w = (Inr (), w') \<and> identity_load (ka_out args) w' = (Inr i, tick w') \<and>
      public P i = Inr pub \<and> public_identity_load CP (public_path (ka_out args)) w' = (Inr pub, tick w') \<and>
      (\<forall>q. q \<noteq> ka_out args \<longrightarrow> q \<noteq> public_path (ka_out args) \<longrightarrow> disk w' q = disk w q)"
proof (cases "disk w (ka_out args)")
  case None
  obtain r w1 where r: "fill_bytes SEED_LEN w = (Inr r, w1)" "length r = SEED_LEN" "disk w1 = disk w" "fault_free w1"
    using assms(3) by (simp add: fill_bytes_def)
  obtain s where s: "kem_keygen P r = Some s" "length s = SEED_LEN" "vec_ok (kem_public P s)"
    using assms(1) [unfolded keygen_laws_def, rule_format, OF r(2)] by (auto split: option.splits)
  let ?pub = "\<lparr>kem_param = selected_kem_param P, kem_public_key = kem_public P s\<rparr>"
  have pub: "public P \<lparr>seed = s\<rparr> = Inr ?pub" using s(2) by (simp add: public_def decapsulation_key_def)
  obtain b where b: "ser CP ?pub = Some b" "de CP b = Some ?pub" using codec_lawsE [OF assms(2), of ?pub] s(3) by auto
  let ?o = "ka_out args"
  have gen: "generate P w = (Inr \<lparr>seed = s\<rparr>, w1)" using r(1) s(1) by (simp add: generate_def bindE_def ret_def)
  let ?w2 = "(tick (tick (tick w1)))\<lparr>disk := (disk w)(?o \<mapsto> s)\<rparr>"
  have sv: "identity_save \<lparr>seed = s\<rparr> ?o w1 = (Inr (), ?w2)"
    using r(3,4) by (simp add: identity_save_def write_private_def bindE_def fs_ok fs_ok_present)
  let ?w3 = "(tick (tick ?w2))\<lparr>disk := (disk w)(?o \<mapsto> s, public_path ?o \<mapsto> b)\<rparr>"
  have sp: "public_identity_save CP ?pub (public_path ?o) ?w2 = (Inr (), ?w3)"
    using r(4) b(1) by (simp add: public_identity_save_def bindE_def bincode_serialize_def fs_ok ret_def)
  obtain w' where w': "keygen P CP args w = (Inr (), w')" "fault_free w'" "disk w' = (disk w)(?o \<mapsto> s, public_path ?o \<mapsto> b)"
    using None gen sv sp pub r(4)
    by (simp add: keygen_def fs_exists_def bindE_def lift_def Let_def println_def)
  have "identity_load ?o w' = (Inr \<lparr>seed = s\<rparr>, tick w')"
    using w'(2,3) s(2) public_path_neq [of ?o] by (simp add: identity_load_def bindE_def fs_ok_present ret_def)
  moreover have "public_identity_load CP (public_path ?o) w' = (Inr ?pub, tick w')"
    using w'(2,3) b(2) by (simp add: public_identity_load_def bindE_def fs_ok_present bincode_deserialize_def ret_def)
  moreover have "\<forall>q. q \<noteq> ?o \<longrightarrow> q \<noteq> public_path ?o \<longrightarrow> disk w' q = disk w q" using w'(3) by simp
  ultimately show ?thesis using None w'(1) pub by auto
qed (simp add: keygen_def fs_exists_def throw_def)

theorem keygen_round_trip_witness:
  "\<exists>w' i pub. keygen sample_prims bincode_public \<lparr>ka_out = [''id'']\<rparr> (sample_world [[''id.pub''] \<mapsto> [1, 2, 3]]) = (Inr (), w') \<and>
     identity_load [''id''] w' = (Inr i, tick w') \<and> public sample_prims i = Inr pub \<and>
     public_identity_load bincode_public [''id.pub''] w' = (Inr pub, tick w')"
proof -
  have "keygen_laws sample_prims" by (simp add: keygen_laws_def sample_prims_def vec_ok_def)
  moreover have "public_path [''id''] = [''id.pub'']" by (simp add: public_path_def)
  ultimately show ?thesis
    using keygen_round_trip [OF _ bincode_public_laws, of sample_prims "sample_world [[''id.pub''] \<mapsto> [1, 2, 3]]" "\<lparr>ka_out = [''id'']\<rparr>"]
    by auto
qed

end
