(* ===== verification/Rekeying.thy ===== *)
theory Rekeying
  imports Sharing Durability
begin

text \<open>
  The \<open>rekey\<close> command from end to end: every slot is rewrapped, the index is translated to the new key, the two are
  swapped in together, and the tree that is mounted afterwards is the one before.
\<close>

section \<open>Names under a new key\<close>

lemma rekeyed_get:
  assumes "list_all2 (\<lambda>(k, e) (k', e'). k' = k \<and> rekeyed P old new e e') m m'"
  shows "bt_get i m' = Some e' \<Longrightarrow> \<exists>e. bt_get i m = Some e \<and> rekeyed P old new e e'"
    and "bt_get i m = Some e \<Longrightarrow> \<exists>e'. bt_get i m' = Some e' \<and> rekeyed P old new e e'"
  using rekeyed_entries(2) [OF assms, of i] by (auto simp: option.rel_sel rel_option_iff split: option.splits)

lemma rekeyed_name:
  assumes "rekeyed P old new e e'" and "decrypt_filename P old (e_name_encrypted e) = Inr nm"
  shows "decrypt_filename P new (e_name_encrypted e') = Inr nm" and "e_name_hash e' = hash_filename P new nm"
proof -
  have "e_name_encrypted e \<noteq> []" using assms(2) by (auto simp: decrypt_filename_def)
  then show "decrypt_filename P new (e_name_encrypted e') = Inr nm" using assms by (auto simp: rekeyed_def same_secret_def)
  then show "e_name_hash e' = hash_filename P new nm" using assms(1) by (simp add: rekeyed_def)
qed

lemma names_ok_rekeyed:
  assumes "list_all2 (\<lambda>(k, e) (k', e'). k' = k \<and> rekeyed P old new e e') m m'" and "names_ok P old N m" and "aead_laws P"
  shows "names_ok P new N m'"
  unfolding names_ok_def
proof (intro allI impI)
  fix i e' assume "bt_get i m' = Some e'"
  then obtain e where e: "bt_get i m = Some e" "rekeyed P old new e e'" using rekeyed_get(1) [OF assms(1)] by blast
  then obtain nm where nm: "nm \<in> N" "decrypt_filename P old (e_name_encrypted e) = Inr nm" and v: "vec_ok (e_content_key e)" "vec_ok (e_link_target e)"
    using assms(2) by (auto simp: names_ok_def)
  have "length (e_content_key e') = length (e_content_key e)" "length (e_link_target e') = length (e_link_target e)"
    using e(2) same_secret_length [OF assms(3)] unfolding rekeyed_def by blast+
  with rekeyed_name [OF e(2) nm(2)] nm(1) v
  show "(\<exists>nm\<in>N. decrypt_filename P new (e_name_encrypted e') = Inr nm \<and> e_name_hash e' = hash_filename P new nm) \<and>
    vec_ok (e_content_key e') \<and> vec_ok (e_link_target e')" by (auto simp: vec_ok_def)
qed

lemma named_rekeyed:
  assumes "list_all2 (\<lambda>(k, e) (k', e'). k' = k \<and> rekeyed P old new e e') m m'" and "names_ok P old N m"
  shows "named P new m' i p nm \<longleftrightarrow> named P old m i p nm"
proof
  assume "named P new m' i p nm"
  then obtain e' where e': "bt_get i m' = Some e'" "i \<noteq> FUSE_ROOT_ID" "e_parent e' = p" "decrypt_filename P new (e_name_encrypted e') = Inr nm"
    by (auto simp: named_def)
  then obtain e where e: "bt_get i m = Some e" "rekeyed P old new e e'" using rekeyed_get(1) [OF assms(1)] by blast
  then obtain nm' where "decrypt_filename P old (e_name_encrypted e) = Inr nm'" using assms(2) by (auto simp: names_ok_def)
  with rekeyed_name(1) [OF e(2)] rekeyed_fields(2) [OF e(2)] e e' show "named P old m i p nm" by (auto simp: named_def)
next
  assume "named P old m i p nm"
  then obtain e where e: "bt_get i m = Some e" "i \<noteq> FUSE_ROOT_ID" "e_parent e = p" "decrypt_filename P old (e_name_encrypted e) = Inr nm"
    by (auto simp: named_def)
  then obtain e' where "bt_get i m' = Some e'" "rekeyed P old new e e'" using rekeyed_get(2) [OF assms(1)] by blast
  with rekeyed_name(1) [OF _ e(4)] rekeyed_fields(2) e show "named P new m' i p nm" by (auto simp: named_def)
qed

text \<open>Loading a rekeyed index gives the same tree of names.\<close>

lemma load_rekeyed:
  assumes l: "list_all2 (\<lambda>(k, e) (k', e'). k' = k \<and> rekeyed P old new e e') (entries s) m'"
    and ok: "index_ok s" "names_ok P old N (entries s)" and N: "name_space P old N" "name_space P new N"
    and w: "fault_free w" "disk w (bk @ [INDEX_FILE]) = Some blob" "stored P C new blob m'"
  obtains s' w' where "load P C bk new w = (Inr s', w')" and "entries s' = m'" and "index_ok s'"
    and "ns_dir (ns_of P new s') = ns_dir (ns_of P old s)" and "ns_kind (ns_of P new s') = ns_kind (ns_of P old s)"
proof -
  let ?r = "\<lparr>backend = bk, entries = m', next_ino = reload_next m', children = Map.empty, by_parent = Map.empty, dirty = False\<rparr>"
  have aead: "aead_laws P" using N(1) by (simp add: name_space_def)
  have names: "names_ok P new N m'" by (rule names_ok_rekeyed [OF l ok(2) aead])
  have keys: "keys_ok ?r"
  proof -
    have "bt_inv m'" using ok(1) rekeyed_entries(1) [OF l] by (simp add: index_ok_def keys_ok_def bt_inv_def)
    moreover have "e_ino e' = k" if "bt_get k m' = Some e'" for k e'
      using rekeyed_get(1) [OF l that] rekeyed_fields(1) ok(1) by (fastforce simp: index_ok_def keys_ok_def)
    ultimately show ?thesis by (simp add: keys_ok_def)
  qed
  have "links_inj ?r"
    unfolding links_inj_def
  proof (intro allI impI)
    fix i j p h assume "(i, p, h) \<in> links ?r" "(j, p, h) \<in> links ?r"
    then obtain e e' where e: "bt_get i m' = Some e" "i \<noteq> FUSE_ROOT_ID" "e_parent e = p" "e_name_hash e = h"
      and e': "bt_get j m' = Some e'" "j \<noteq> FUSE_ROOT_ID" "e_parent e' = p" "e_name_hash e' = h" by (auto simp: links_def)
    obtain nm where n: "nm \<in> N" "decrypt_filename P new (e_name_encrypted e) = Inr nm" "h = hash_filename P new nm"
      using names e(1,4) unfolding names_ok_def by blast
    obtain nm' where n': "nm' \<in> N" "decrypt_filename P new (e_name_encrypted e') = Inr nm'" "h = hash_filename P new nm'"
      using names e'(1,4) unfolding names_ok_def by blast
    have nn: "named P new m' i p nm" "named P new m' j p nm'" using e e' n(2) n'(2) by (auto simp: named_def)
    from n n' have "nm = nm'" using N(2) by (auto simp: name_space_def dest: inj_onD)
    then have "ns_dir (ns_of P old s) (p, nm) = Some i" "ns_dir (ns_of P old s) (p, nm) = Some j"
      using nn by (simp_all add: ns_of_dir_iff [OF ok] named_rekeyed [OF l ok(2)])
    then show "i = j" by simp
  qed
  with keys have iok: "index_ok (rebuild_indexes ?r)" by (rule index_ok_rebuild)
  obtain w' where w': "load P C bk new w = (Inr (rebuild_indexes ?r), w')" using load_stored [OF w] by blast
  have e: "entries (rebuild_indexes ?r) = m'" by simp
  have dir: "ns_dir (ns_of P new (rebuild_indexes ?r)) = ns_dir (ns_of P old s)"
  proof
    fix pn :: "u64 \<times> bytes"
    obtain p nm where pn: "pn = (p, nm)" by fastforce
    have "ns_dir (ns_of P new (rebuild_indexes ?r)) (p, nm) = Some i \<longleftrightarrow> ns_dir (ns_of P old s) (p, nm) = Some i" for i
      using ns_of_dir_iff [OF iok, of P new N p nm i] names e by (simp add: ns_of_dir_iff [OF ok] named_rekeyed [OF l ok(2)])
    then show "ns_dir (ns_of P new (rebuild_indexes ?r)) pn = ns_dir (ns_of P old s) pn" unfolding pn by (rule option_eqI)
  qed
  have kind: "ns_kind (ns_of P new (rebuild_indexes ?r)) = ns_kind (ns_of P old s)"
  proof
    fix i
    show "ns_kind (ns_of P new (rebuild_indexes ?r)) i = ns_kind (ns_of P old s) i"
      using rekeyed_entries(2) [OF l, of i] rekeyed_fields(3)
      by (cases "bt_get i (entries s)"; cases "bt_get i m'") (fastforce simp: ns_of_def)+
  qed
  show thesis by (rule that [OF w' e iok dir kind])
qed

section \<open>Rewrapping the slots\<close>

text \<open>A slot the command can rewrap: the password is at hand, or the slot's public key belongs to an identity.\<close>

definition rewrappable :: "prims \<Rightarrow> credential_args \<Rightarrow> key_slot \<Rightarrow> bool" where
  "rewrappable P cred s = (case s of
      PasswordSlot _ kdf _ \<Rightarrow> (\<exists>pw. require_password cred = Inr pw \<and> length pw < 2 ^ 32) \<and>
        argon2_params_ok P (m_cost kdf) (t_cost kdf) (p_cost kdf) KEY_LEN
    | RecipientSlot l param pk _ _ \<Rightarrow> utf8_valid l \<and> 110 + length l + length pk + kem_ciphertext_len P < 2 ^ 64 \<and>
        (\<exists>i. length (seed i) = SEED_LEN \<and> public P i = Inr \<lparr>kem_param = param, kem_public_key = pk\<rparr>))"

text \<open>The new slot is for the same holder, and opens to the new master key for them.\<close>

definition rewrapped :: "prims \<Rightarrow> credential_args \<Rightarrow> bytes \<Rightarrow> bytes \<Rightarrow> key_slot \<Rightarrow> key_slot \<Rightarrow> bool" where
  "rewrapped P cred vid mk s s' = (slot_wf s' \<and> (case s of
      PasswordSlot _ kdf _ \<Rightarrow> is_password_slot s' \<and> slot_size s' = 112 \<and>
        (\<forall>pw h. require_password cred = Inr pw \<longrightarrow> volume_id h = vid \<longrightarrow> try_slot P h s' (UnlockPassword pw) = Inr (Some mk))
    | RecipientSlot l param pk _ _ \<Rightarrow> (\<exists>ct x. s' = RecipientSlot l param pk ct x) \<and>
        slot_size s' = share_slot_size P l \<lparr>kem_param = param, kem_public_key = pk\<rparr> \<and>
        (\<forall>i h. length (seed i) = SEED_LEN \<longrightarrow> public P i = Inr \<lparr>kem_param = param, kem_public_key = pk\<rparr> \<longrightarrow>
           volume_id h = vid \<longrightarrow> try_slot P h s' (UnlockIdentity i) = Inr (Some mk))))"

definition rewrapped_size :: "prims \<Rightarrow> key_slot \<Rightarrow> nat" where
  "rewrapped_size P s = (case s of
      PasswordSlot _ _ _ \<Rightarrow> 112
    | RecipientSlot l param pk _ _ \<Rightarrow> share_slot_size P l \<lparr>kem_param = param, kem_public_key = pk\<rparr>)"

lemma rewrapped_slot_size: "rewrapped P cred vid mk s s' \<Longrightarrow> slot_size s' = rewrapped_size P s"
  by (simp add: rewrapped_def rewrapped_size_def split: key_slot.splits)

lemma rewrap_one_password:
  assumes L: "crypto_laws P C" and mk: "length mk = 32" and r: "rewrappable P cred (PasswordSlot salt kdf x)"
  obtains pw s' w' where "require_password cred = Inr pw" and "password_slot P pw vid mk kdf w = (Inr s', w')"
    and "rewrapped P cred vid mk (PasswordSlot salt kdf x) s'" and "disk w' = disk w" and "faults w' = faults w"
proof -
  have laws: "aead_laws P" "kdf_laws P" using L by (simp_all add: crypto_laws_def)
  obtain pw where pw: "require_password cred = Inr pw" "length pw < 2 ^ 32"
    "argon2_params_ok P (m_cost kdf) (t_cost kdf) (p_cost kdf) KEY_LEN" using r by (auto simp: rewrappable_def)
  obtain s' w' where s': "password_slot P pw vid mk kdf w = (Inr s', w')"
    using password_slot_total [OF laws mk pw(2,3)] by blast
  have vid: "volume_id (sample_unsealed\<lparr>volume_id := vid\<rparr>) = vid" by simp
  note o = password_slot_opens [OF laws mk vid s']
  have "rewrapped P cred vid mk (PasswordSlot salt kdf x) s'"
    using o(2,3) password_slot_opens(1) [OF laws mk _ s'] pw(1)
    by (auto simp: rewrapped_def is_password_slot_def slot_size_def)
  with that pw s' o(4,5) show thesis by blast
qed

lemma rewrap_one_recipient:
  assumes L: "crypto_laws P C" and mk: "length mk = 32" and r: "rewrappable P cred (RecipientSlot l param pk ct x)"
  obtains s' w' where "recipient_slot P \<lparr>kem_param = param, kem_public_key = pk\<rparr> l vid mk w = (Inr s', w')"
    and "rewrapped P cred vid mk (RecipientSlot l param pk ct x) s'" and "disk w' = disk w" and "faults w' = faults w"
proof -
  let ?pub = "\<lparr>kem_param = param, kem_public_key = pk\<rparr>" and ?h = "sample_unsealed\<lparr>volume_id := vid\<rparr>"
  have laws: "aead_laws P" "kdf_laws P" "kem_laws P" using L by (simp_all add: crypto_laws_def)
  obtain i where i: "length (seed i) = SEED_LEN" "public P i = Inr ?pub" and u: "utf8_valid l"
    and f: "share_slot_size P l ?pub < 2 ^ 64" using r by (auto simp: rewrappable_def share_slot_size_def)
  have vid: "volume_id ?h = vid" by simp
  obtain s' w' where s': "recipient_slot P ?pub l vid mk w = (Inr s', w')" "disk w' = disk w" "faults w' = faults w"
    "slot_wf s'" "slot_size s' = share_slot_size P l ?pub"
    using recipient_slot_made [OF L mk i u f, of ?h w] unfolding vid by metis
  have "rewrapped P cred vid mk (RecipientSlot l param pk ct x) s'"
    using s'(4,5) recipient_slot_opens(1) [OF laws mk _ _ _ s'(1)] recipient_slot_opens(2) [OF laws mk vid i s'(1)]
    by (auto simp: rewrapped_def)
  with that s' show thesis by blast
qed

lemma rewrap_slot_ok:
  assumes "crypto_laws P C" and "length mk = 32" and "rewrappable P cred s"
  obtains s' w' where "rewrap_slot P cred vid mk n s w = (Inr s', w')" and "rewrapped P cred vid mk s s'"
    and "disk w' = disk w" and "faults w' = faults w"
proof (cases s)
  case (PasswordSlot salt kdf x)
  obtain pw s' w' where "require_password cred = Inr pw" "password_slot P pw vid mk kdf w = (Inr s', w')"
    "rewrapped P cred vid mk s s'" "disk w' = disk w" "faults w' = faults w"
    using rewrap_one_password [OF assms [unfolded PasswordSlot]] PasswordSlot by metis
  with that show thesis by (simp add: rewrap_slot_def PasswordSlot)
next
  case (RecipientSlot l param pk ct x)
  obtain s' w' where "recipient_slot P \<lparr>kem_param = param, kem_public_key = pk\<rparr> l vid mk w = (Inr s', w')"
    "rewrapped P cred vid mk s s'" "disk w' = disk w" "faults w' = faults w"
    using rewrap_one_recipient [OF assms [unfolded RecipientSlot]] RecipientSlot by metis
  with that show thesis by (simp add: rewrap_slot_def RecipientSlot)
qed

lemma rewrap_slots_ok:
  assumes "crypto_laws P C" and "length mk = 32" and "list_all (rewrappable P cred) ss"
  shows "\<exists>ss' w'. rewrap_slots P cred vid mk n ss w = (Inr ss', w') \<and> list_all2 (rewrapped P cred vid mk) ss ss' \<and>
      disk w' = disk w \<and> faults w' = faults w"
  using assms(3)
proof (induction ss arbitrary: n w)
  case (Cons s ss)
  then have s: "rewrappable P cred s" "list_all (rewrappable P cred) ss" by simp_all
  obtain s' w1 where 1: "rewrap_slot P cred vid mk n s w = (Inr s', w1)" "rewrapped P cred vid mk s s'"
    "disk w1 = disk w" "faults w1 = faults w" using rewrap_slot_ok [OF assms(1,2) s(1)] by metis
  obtain ss' w2 where "rewrap_slots P cred vid mk (n + 1) ss w1 = (Inr ss', w2)" "list_all2 (rewrapped P cred vid mk) ss ss'"
    "disk w2 = disk w1" "faults w2 = faults w1" using Cons.IH [OF s(2)] by metis
  with 1 show ?case by (simp add: bindE_def ret_def)
qed (simp add: ret_def)

lemma rewrapped_opens_password:
  assumes "list_all2 (rewrapped P cred vid mk) ss ss'" and "require_password cred = Inr pw" and "volume_id h = vid"
    and "\<exists>s \<in> set ss. is_password_slot s"
  shows "try_slots P h ss' (UnlockPassword pw) = Inr mk"
  using assms(1,4)
proof (induction rule: list_all2_induct)
  case (Cons s ss s' ss')
  show ?case
  proof (cases s)
    case PasswordSlot
    then show ?thesis using Cons.hyps(1) assms(2,3) by (simp add: rewrapped_def)
  next
    case (RecipientSlot l param pk ct x)
    then obtain ct' x' where "s' = RecipientSlot l param pk ct' x'" using Cons.hyps(1) by (auto simp: rewrapped_def)
    then have "try_slot P h s' (UnlockPassword pw) = Inr None" by (simp add: try_slot_def)
    with Cons RecipientSlot show ?thesis by (simp add: is_password_slot_def)
  qed
qed simp

lemma rewrapped_total_size:
  "list_all2 (rewrapped P cred vid mk) ss ss' \<Longrightarrow> sum_list (map slot_size ss') = sum_list (map (rewrapped_size P) ss)"
  by (induction rule: list_all2_induct) (simp_all add: rewrapped_slot_size)

lemma rewrapped_wf: "list_all2 (rewrapped P cred vid mk) ss ss' \<Longrightarrow> list_all slot_wf ss'"
  by (induction rule: list_all2_induct) (simp_all add: rewrapped_def)

section \<open>The whole command\<close>

lemma preserves_fill_bytes:
  "(\<And>w t. I w \<Longrightarrow> I (w\<lparr>tape := t\<rparr>)) \<Longrightarrow> preserves I (fill_bytes n)"
  by (simp add: preserves_def fill_bytes_def)

lemma preserves_encrypt:
  assumes "\<And>w t. I w \<Longrightarrow> I (w\<lparr>tape := t\<rparr>)"
  shows "preserves I (encrypt P cr pl)" "preserves I (encrypt_filename P cr pl)"
  unfolding encrypt_def encrypt_filename_def random_nonce_def
  by (intro preserves_intros preserves_fill_bytes assms; assumption)+

lemma preserves_rekey_entries:
  assumes "\<And>w t. I w \<Longrightarrow> I (w\<lparr>tape := t\<rparr>)"
  shows "preserves I (rekey_entries P old new m)"
proof (induction m)
  case (Cons x m)
  obtain k e where x: "x = (k, e)" by (cases x)
  have "preserves I (rekey_entry P old new e)"
    unfolding rekey_entry_eq rekey_bulk_def rekey_filename_def
    by (intro preserves_intros preserves_encrypt assms)
  with Cons show ?case unfolding x rekey_entries.simps by (intro preserves_intros) auto
qed (simp add: preserves_intros)

lemma preserves_rekey_index:
  assumes "\<And>w t. I w \<Longrightarrow> I (w\<lparr>tape := t\<rparr>)" and "\<And>w. I w \<Longrightarrow> I (tick w)"
  shows "preserves I (rekey_index P C bk old new)"
proof -
  have r: "preserves I (bindE (rekey_entries P old new m) (\<lambda>m'. bindE (lift (bincode_serialize C m')) (encrypt P new)))" for m
    by (intro preserves_intros preserves_rekey_entries preserves_encrypt assms(1))
  have rd: "preserves I (bindE (fs_read (bk @ [INDEX_FILE])) (\<lambda>data.
      bindE (lift (decrypt P old data)) (\<lambda>pl. lift (bincode_deserialize C pl))))"
    by (intro preserves_intros preserves_read_only assms(2); assumption)
  show ?thesis
    unfolding preserves_def
  proof (intro allI impI)
    fix w assume "I w"
    have "preserves I (if fs_exists (bk @ [INDEX_FILE]) w then bindE (fs_read (bk @ [INDEX_FILE])) (\<lambda>data.
        bindE (lift (decrypt P old data)) (\<lambda>pl. lift (bincode_deserialize C pl))) else ret [])"
      using rd by (simp add: preserves_pure)
    note X = preserves_bindE [OF this r, unfolded preserves_def, rule_format, OF \<open>I w\<close>]
    show "I (snd (rekey_index P C bk old new w))"
      unfolding rekey_index_def Let_def by (rule X)
  qed
qed

lemma rekey_index_frame:
  assumes "rekey_index P C bk old new w = (r, w')" and "fault_free w"
  shows "disk w' = disk w" and "fault_free w'"
proof -
  have "preserves (\<lambda>v. disk v = disk w \<and> fault_free v) (rekey_index P C bk old new)"
    by (rule preserves_rekey_index) simp_all
  with assms show "disk w' = disk w" "fault_free w'" unfolding preserves_def by (metis snd_conv)+
qed

lemma crypto_header [simp]:
  "decrypt P (cr\<lparr>header := h\<rparr>) = decrypt P cr" "decrypt_filename P (cr\<lparr>header := h\<rparr>) = decrypt_filename P cr"
  "hash_filename P (cr\<lparr>header := h\<rparr>) = hash_filename P cr"
  by (rule ext, simp add: decrypt_def decrypt_filename_def hash_filename_def)+

lemma stored_header [simp]: "stored P C (cr\<lparr>header := h\<rparr>) = stored P C cr"
  by (intro ext) (simp add: stored_def)

lemma rekeyed_header [simp]: "rekeyed P old (cr\<lparr>header := h\<rparr>) = rekeyed P old cr"
  by (intro ext) (simp add: rekeyed_def)

lemma from_master_key_header: "from_master_key P mk h = Inr cr \<Longrightarrow> from_master_key P mk h' = Inr (cr\<lparr>header := h'\<rparr>)"
  by (auto simp: from_master_key_def rbind_Inr_iff split: prod.splits)

text \<open>What a finished rekey leaves: a sealed header with rewrapped slots, and the index under the new key.\<close>

definition rekey_result ::
  "prims \<Rightarrow> volume_header codec \<Rightarrow> entry_map codec \<Rightarrow> path \<Rightarrow> credential_args \<Rightarrow> crypto \<Rightarrow> volume_header \<Rightarrow> entry_map \<Rightarrow>
   world \<Rightarrow> crypto \<Rightarrow> bool" where
  "rekey_result P C CI bk cred old h m w' new \<longleftrightarrow> ready C bk w' (header new) \<and>
     list_all2 (rewrapped P cred (volume_id h) (cipher new)) (slots h) (slots (header new)) \<and>
     volume_id (header new) = volume_id h \<and>
     (\<forall>c. open_master_key P (header new) c = Inr (cipher new) \<longrightarrow> unlock P C bk c w' = (Inr new, tick w')) \<and>
     (\<exists>blob m'. disk w' (bk @ [INDEX_FILE]) = Some blob \<and> stored P CI new blob m' \<and>
       list_all2 (\<lambda>(k, e) (k', e'). k' = k \<and> rekeyed P old new e e') m m')"

lemma rekey_start:
  assumes w: "ready C (pa_backend args) w h" and u: "presents (pa_credential args) u (disk w)" and old: "open_header P C h u = Inr old"
  obtains mk w1 where "length mk = 32" and "disk w1 = disk w" and "fault_free w1"
    and "rekey P C CI args w =
     bindE (rewrap_slots P (pa_credential args) (volume_id h) mk 0 (slots h)) (\<lambda>ss.
     bindE (lift (from_master_key P mk (h\<lparr>slots := ss\<rparr>))) (\<lambda>new.
     bindE (rekey_index P CI (pa_backend args) old new) (\<lambda>index.
     bindE (commit_rekey P C (pa_backend args) (h\<lparr>slots := ss\<rparr>) mk index) (\<lambda>h'.
     println (''master key retired; '' @ dec (length (slots h')) @ '' slot(s) rewrapped''))))) w1"
proof -
  have ff: "fault_free w" using w by (simp add: ready_def)
  obtain i w1 where i: "identity_file (pa_credential args) w = (Inr i, w1)" "credential_unlock (pa_credential args) i = Inr u" "quiet w w1"
    using presents_identity [OF u ff] by blast
  have r1: "ready C (pa_backend args) w1 h" by (rule quiet_ready [OF i(3) w])
  have un: "unlock P C (pa_backend args) u w1 = (Inr old, tick w1)" by (simp add: ready_unlock [OF r1] old)
  have rd: "read_header C (pa_backend args) (tick w1) = (Inr h, tick (tick w1))"
    by (rule read_header_ok) (use r1 in \<open>simp_all add: ready_def\<close>)
  obtain mk w2 where mk: "random_master_key (tick (tick w1)) = (Inr mk, w2)" "length mk = 32" "disk w2 = disk w1" "faults w2 = tl (tl (faults w1))"
    by (simp add: random_master_key_def fill_bytes_def)
  have "fault_free w1" using r1 by (simp add: ready_def)
  then have "fault_free (tick (tick w1))" by simp
  then have "fault_free w2" using mk(4) by (simp add: fault_free_def)
  with that [OF mk(2), of w2] mk(1,3) quietD [OF i(3)] i un rd show thesis
    by (simp add: rekey_def presents_resolve [OF u] bindE_def [of "identity_file (pa_credential args)"]
      bindE_def [of "unlock P C (pa_backend args) u"] bindE_def [of "read_header C (pa_backend args)"]
      bindE_def [of random_master_key] Let_def)
qed

text \<open>The commit of a header that fits: afterwards it is the header of the volume and the new index is in place.\<close>

lemma commit_rekey_ready:
  assumes L: "crypto_laws P C" and w: "fault_free w" "settled bk (disk w)"
    and h: "header_wf h" "version h = HEADER_VERSION" "header_size h \<le> MAX_HEADER_BYTES"
  obtains h' w' where "commit_rekey P C bk h mk blob w = (Inr h', w')" and "seal_header P C h mk = Inr h'" and "ready C bk w' h'" and "version h' = HEADER_VERSION"
    and "volume_id h' = volume_id h" and "slots h' = slots h" and "disk w' (bk @ [INDEX_FILE]) = Some blob"
    and "\<forall>q. q \<notin> {bk @ [HEADER_FILE], bk @ [INDEX_FILE], bk @ [HEADER_STAGING], bk @ [INDEX_STAGING], bk @ [REKEY_MARKER]} \<longrightarrow>
      disk w' q = disk w q"
proof -
  have laws: "mac_laws P" "kdf_laws P" "codec_laws header_wf C" "header_sized C" using L by (simp_all add: crypto_laws_def)
  obtain h' where h': "seal_header P C h mk = Inr h'" using seal_header_total [OF laws(2,3) h(1)] by blast
  have wf: "header_wf h'" by (rule seal_header_wf [OF laws(1) h(1) h'])
  obtain nh where nh: "ser C h' = Some nh" using codec_lawsE [OF laws(3) wf] by blast
  obtain w' where w': "commit_rekey P C bk h mk blob w = (Inr h', w')" "swapped bk nh blob (disk w')" "fault_free w'"
    "\<forall>q. q \<notin> {bk @ [HEADER_FILE], bk @ [INDEX_FILE], bk @ [HEADER_STAGING], bk @ [INDEX_STAGING], bk @ [REKEY_MARKER]} \<longrightarrow>
      disk w' q = disk w q"
    using commit_rekey_ok [OF w h' nh, of blob] by metis
  have hf: "version h' = HEADER_VERSION" "volume_id h' = volume_id h" "slots h' = slots h"
    using seal_headerE [OF h'] h(2) by simp_all
  have size: "header_size h' \<le> MAX_HEADER_BYTES" using h(3) hf(3) by (simp add: header_size_def)
  have "header_on_disk C bk (disk w') h'"
    by (rule header_on_disk_serialised [OF laws(3,4) wf hf(1) size nh]) (use w'(2) in \<open>simp add: swapped_def\<close>)
  then have "ready C bk w' h'" using w'(2,3) wf size by (simp add: ready_def swapped_def)
  moreover have "disk w' (bk @ [INDEX_FILE]) = Some blob" using w'(2) by (simp add: swapped_def)
  ultimately show thesis using that w'(1,4) hf h' by blast
qed

lemma rekey_core:
  assumes L: "crypto_laws P C"
    and w: "ready C (pa_backend args) w h" and u: "presents (pa_credential args) u (disk w)" and old: "open_header P C h u = Inr old"
    and ss: "list_all (rewrappable P (pa_credential args)) (slots h)"
      "60 + sum_list (map (rewrapped_size P) (slots h)) \<le> MAX_HEADER_BYTES"
    and idx: "\<And>new v. fault_free v \<Longrightarrow> disk v = disk w \<Longrightarrow> \<exists>blob v' m'. rekey_index P CI (pa_backend args) old new v = (Inr blob, v') \<and>
      stored P CI new blob m' \<and> list_all2 (\<lambda>(k, e) (k', e'). k' = k \<and> rekeyed P old new e e') m m'"
  obtains w' new where "rekey P C CI args w = (Inr (), w')"
    and "rekey_result P C CI (pa_backend args) (pa_credential args) old h m w' new"
    and "\<forall>q. q \<notin> set (map (\<lambda>f. pa_backend args @ [f]) [HEADER_FILE, INDEX_FILE, HEADER_STAGING, INDEX_STAGING, REKEY_MARKER]) \<longrightarrow>
      disk w' q = disk w q"
proof -
  let ?bk = "pa_backend args" and ?c = "pa_credential args"
  have laws: "aead_laws P" "kdf_laws P" using L by (simp_all add: crypto_laws_def)
  obtain mk w1 where mk: "length mk = 32" "disk w1 = disk w" "fault_free w1"
    and run: "rekey P C CI args w =
     bindE (rewrap_slots P ?c (volume_id h) mk 0 (slots h)) (\<lambda>ss.
     bindE (lift (from_master_key P mk (h\<lparr>slots := ss\<rparr>))) (\<lambda>new.
     bindE (rekey_index P CI ?bk old new) (\<lambda>index.
     bindE (commit_rekey P C ?bk (h\<lparr>slots := ss\<rparr>) mk index) (\<lambda>h'.
     println (''master key retired; '' @ dec (length (slots h')) @ '' slot(s) rewrapped''))))) w1"
    using rekey_start [OF w u old, where CI = CI] by blast
  obtain xs w2 where xs: "rewrap_slots P ?c (volume_id h) mk 0 (slots h) w1 = (Inr xs, w2)"
    "list_all2 (rewrapped P ?c (volume_id h) mk) (slots h) xs" "disk w2 = disk w1" "faults w2 = faults w1"
    using rewrap_slots_ok [OF L mk(1) ss(1)] by metis
  let ?h = "h\<lparr>slots := xs\<rparr>"
  have size: "header_size ?h \<le> MAX_HEADER_BYTES" using ss(2) rewrapped_total_size [OF xs(2)] by (simp add: header_size_def)
  have wf: "header_wf ?h" "version ?h = HEADER_VERSION"
    using w rewrapped_wf [OF xs(2)] slots_fit [of ?h] size ready_version [OF w]
    by (simp_all add: ready_def header_wf_def vec_ok_def MAX_HEADER_BYTES_def)
  obtain new0 where new0: "from_master_key P mk ?h = Inr new0" "cipher new0 = mk" using from_master_keyE [OF laws(2) mk(1)] by metis
  have f2: "fault_free w2" and d2: "disk w2 = disk w" using mk xs(3,4) by (simp_all add: fault_free_def)
  obtain blob w3 m' where blob: "rekey_index P CI ?bk old new0 w2 = (Inr blob, w3)"
    and m': "stored P CI new0 blob m'" "list_all2 (\<lambda>(k, e) (k', e'). k' = k \<and> rekeyed P old new0 e e') m m'"
    using idx [OF f2 d2] by blast
  have w3: "disk w3 = disk w" "fault_free w3" using rekey_index_frame [OF blob f2] d2 by simp_all
  have "settled ?bk (disk w3)" using w w3 by (simp add: ready_def)
  then obtain h' w4 where cm: "commit_rekey P C ?bk ?h mk blob w3 = (Inr h', w4)" and h': "seal_header P C ?h mk = Inr h'" and rd: "ready C ?bk w4 h'"
    and hf: "version h' = HEADER_VERSION" "volume_id h' = volume_id h" "slots h' = xs" and ix: "disk w4 (?bk @ [INDEX_FILE]) = Some blob"
    and fr: "\<forall>q. q \<notin> {?bk @ [HEADER_FILE], ?bk @ [INDEX_FILE], ?bk @ [HEADER_STAGING], ?bk @ [INDEX_STAGING], ?bk @ [REKEY_MARKER]} \<longrightarrow>
      disk w4 q = disk w3 q"
    using commit_rekey_ready [OF L w3(2) _ wf size, of ?bk mk blob] by auto
  let ?new = "new0\<lparr>header := h'\<rparr>"
  define w5 where "w5 = w4\<lparr>stdout := stdout w4 @ [''master key retired; '' @ dec (length (slots h')) @ '' slot(s) rewrapped'']\<rparr>"
  have rd5: "ready C ?bk w5 h'" and d5: "disk w5 = disk w4" using rd by (simp_all add: w5_def)
  have "unlock P C ?bk c w5 = (Inr ?new, tick w5)" if o: "open_master_key P h' c = Inr mk" for c
  proof -
    obtain cr where "open_header P C h' c = Inr cr" "from_master_key P mk h' = Inr cr"
      using open_sealed [OF laws(2) h' o] by blast
    with from_master_key_header [OF new0(1), of h'] show ?thesis by (simp add: ready_unlock [OF rd5])
  qed
  then have "rekey_result P C CI ?bk ?c old h m w5 ?new"
    using rd5 xs(2) hf m' new0(2) ix d5 by (auto simp: rekey_result_def)
  moreover have "rekey P C CI args w = (Inr (), w5)"
    using xs(1) new0(1) blob cm by (simp add: run bindE_def println_def w5_def)
  moreover have "\<forall>q. q \<notin> set (map (\<lambda>f. ?bk @ [f]) [HEADER_FILE, INDEX_FILE, HEADER_STAGING, INDEX_STAGING, REKEY_MARKER]) \<longrightarrow>
      disk w5 q = disk w q" using fr w3(1) d5 by simp
  ultimately show thesis using that by blast
qed

lemma rekey_run:
  assumes L: "crypto_laws P C" and CI: "codec_laws entries_wf CI"
    and w: "ready C (pa_backend args) w h" and u: "presents (pa_credential args) u (disk w)" and old: "open_header P C h u = Inr old"
    and ss: "list_all (rewrappable P (pa_credential args)) (slots h)"
      "60 + sum_list (map (rewrapped_size P) (slots h)) \<le> MAX_HEADER_BYTES"
    and m: "on_disk P CI old (pa_backend args) w m" "entries_wf m" "all_named m" "\<forall>(k, e) \<in> set m. entry_openable P old e"
    and fits: "\<forall>new m'. list_all2 (\<lambda>(k, e) (k', e'). k' = k \<and> rekeyed P old new e e') m m' \<longrightarrow> index_fits CI m'"
  obtains w' new where "rekey P C CI args w = (Inr (), w')"
    and "rekey_result P C CI (pa_backend args) (pa_credential args) old h m w' new"
    and "\<forall>q. q \<notin> set (map (\<lambda>f. pa_backend args @ [f]) [HEADER_FILE, INDEX_FILE, HEADER_STAGING, INDEX_STAGING, REKEY_MARKER]) \<longrightarrow>
      disk w' q = disk w q"
proof (rule rekey_core [OF L w u old ss])
  fix new :: crypto and v :: world
  assume v: "fault_free v" "disk v = disk w"
  have laws: "aead_laws P" "mac_laws P" using L by (simp_all add: crypto_laws_def)
  obtain ob where ob: "disk v (pa_backend args @ [INDEX_FILE]) = Some ob" "stored P CI old ob m"
    using m(1) v(2) by (auto simp: on_disk_def)
  obtain blob v' where blob: "rekey_index P CI (pa_backend args) old new v = (Inr blob, v')"
    using rekey_index_total [OF laws CI v(1) ob m(2-4) fits [rule_format, where new = new]] by blast
  obtain m' where "stored P CI new blob m'" "list_all2 (\<lambda>(k, e) (k', e'). k' = k \<and> rekeyed P old new e e') m m'"
    using rekey_index_outcome [OF laws CI v(1) ob m(2,3) blob] by metis
  with blob show "\<exists>blob v' m'. rekey_index P CI (pa_backend args) old new v = (Inr blob, v') \<and>
      stored P CI new blob m' \<and> list_all2 (\<lambda>(k, e) (k', e'). k' = k \<and> rekeyed P old new e e') m m'" by blast
qed (rule that)

lemma mounted_wf:
  assumes "mounted P CI old N bk s"
  shows "index_ok s" "names_ok P old N (entries s)" "entries_wf (entries s)" "all_named (entries s)" "backend s = bk"
    "name_space P old N" "codec_laws entries_wf CI"
proof -
  have ok: "fs_ok P old N s" and N: "name_space P old N" using assms by (simp_all add: mounted_def)
  show "index_ok s" "names_ok P old N (entries s)" using fs_okD(1,2) [OF ok] by simp_all
  show wf: "entries_wf (entries s)" by (rule fs_ok_entries_wf [OF N ok])
  show "backend s = bk" "name_space P old N" "codec_laws entries_wf CI" using assms by (simp_all add: mounted_def)
  have "e_name_encrypted e \<noteq> []" if "(k, e) \<in> set (entries s)" for k e
  proof -
    have "bt_get k (entries s) = Some e"
      using that wf by (auto simp: entries_wf_def bt_get_def bt_inv_def strict_sorted_iff intro: map_of_is_SomeI)
    then obtain nm where "decrypt_filename P old (e_name_encrypted e) = Inr nm"
      using fs_okD(2) [OF ok] by (auto simp: names_ok_def)
    then show ?thesis by (auto simp: decrypt_filename_def)
  qed
  then show "all_named (entries s)" by (auto simp: all_named_def)
qed

lemma data_path_not_volume_file: "data_path s i \<noteq> backend s @ [f]"
  by (simp add: data_path_def)

section \<open>Properties\<close>

text \<open>C6: Retiring the master key: the command succeeds, every slot is rewrapped for its holder, a password given to the command opens
  the volume under the new key, and what is then loaded is the same tree of files with the same attributes and content keys;
  no data file was touched.\<close>

theorem rekey_keeps_the_volume:
  assumes "crypto_laws P C" and "ready C (pa_backend args) w h" and "presents (pa_credential args) u (disk w)"
    and "open_header P C h u = Inr old"
    and "list_all (rewrappable P (pa_credential args)) (slots h)"
    and "60 + sum_list (map (rewrapped_size P) (slots h)) \<le> MAX_HEADER_BYTES"
    and "mounted P CI old N (pa_backend args) s" and "on_disk P CI old (pa_backend args) w (entries s)"
    and "\<forall>(k, e) \<in> set (entries s). entry_openable P old e"
    and "\<forall>new m'. list_all2 (\<lambda>(k, e) (k', e'). k' = k \<and> rekeyed P old new e e') (entries s) m' \<longrightarrow> index_fits CI m'"
    and "\<And>cr. name_space P cr N"
  shows "\<exists>w' new s' w''. rekey P C CI args w = (Inr (), w') \<and>
    list_all2 (rewrapped P (pa_credential args) (volume_id h) (cipher new)) (slots h) (slots (header new)) \<and>
    (\<forall>pw. require_password (pa_credential args) = Inr pw \<longrightarrow> (\<exists>s \<in> set (slots h). is_password_slot s) \<longrightarrow>
      unlock P C (pa_backend args) (UnlockPassword pw) w' = (Inr new, tick w')) \<and>
    load P CI (pa_backend args) new w' = (Inr s', w'') \<and>
    ns_dir (ns_of P new s') = ns_dir (ns_of P old s) \<and> ns_kind (ns_of P new s') = ns_kind (ns_of P old s) \<and>
    (\<forall>i e. bt_get i (entries s) = Some e \<longrightarrow> (\<exists>e'. bt_get i (entries s') = Some e' \<and> rekeyed P old new e e')) \<and>
    (\<forall>i. disk w' (data_path s i) = disk w (data_path s i))"
proof -
  note m = mounted_wf [OF assms(7)]
  obtain w' new where r: "rekey P C CI args w = (Inr (), w')"
    "rekey_result P C CI (pa_backend args) (pa_credential args) old h (entries s) w' new"
    "\<forall>q. q \<notin> set (map (\<lambda>f. pa_backend args @ [f]) [HEADER_FILE, INDEX_FILE, HEADER_STAGING, INDEX_STAGING, REKEY_MARKER]) \<longrightarrow>
      disk w' q = disk w q"
    using rekey_run [OF assms(1) m(7) assms(2-6,8) m(3,4) assms(9,10)] by blast
  then obtain blob m' where b: "disk w' (pa_backend args @ [INDEX_FILE]) = Some blob" "stored P CI new blob m'"
    "list_all2 (\<lambda>(k, e) (k', e'). k' = k \<and> rekeyed P old new e e') (entries s) m'"
    unfolding rekey_result_def by blast
  have rr: "ready C (pa_backend args) w' (header new)" "volume_id (header new) = volume_id h"
    "list_all2 (rewrapped P (pa_credential args) (volume_id h) (cipher new)) (slots h) (slots (header new))"
    "\<And>c. open_master_key P (header new) c = Inr (cipher new) \<Longrightarrow> unlock P C (pa_backend args) c w' = (Inr new, tick w')"
    using r(2) by (auto simp: rekey_result_def)
  have ff: "fault_free w'" using rr(1) by (simp add: ready_def)
  obtain s' w'' where l: "load P CI (pa_backend args) new w' = (Inr s', w'')" "entries s' = m'"
    "ns_dir (ns_of P new s') = ns_dir (ns_of P old s)" "ns_kind (ns_of P new s') = ns_kind (ns_of P old s)"
    using load_rekeyed [OF b(3) m(1,2,6) assms(11) ff b(1,2)] by metis
  have "unlock P C (pa_backend args) (UnlockPassword pw) w' = (Inr new, tick w')"
    if "require_password (pa_credential args) = Inr pw" "\<exists>s \<in> set (slots h). is_password_slot s" for pw
    using rewrapped_opens_password [OF rr(3) that(1) rr(2) that(2)] rr(4) by (simp add: open_master_key_def)
  moreover have "disk w' (data_path s i) = disk w (data_path s i)" for i
    using r(3) data_path_not_volume_file [of s i] m(5) by auto
  ultimately show ?thesis using r(1) rr(3) l rekeyed_get(2) [OF b(3)] by blast
qed

section \<open>A sample\<close>

definition kept_crypto :: crypto where
  "kept_crypto = projr (from_master_key sample_prims sample_master_key sample_sealed)"

definition kept_fs :: pqfs_inner where
  "kept_fs = projr (fst (load sample_prims bincode_index [] kept_crypto sample_volume))"

definition kept_world :: world where
  "kept_world = snd (save_index sample_prims bincode_index kept_crypto kept_fs sample_volume)"

lemma sample_name_space_any: "name_space sample_prims cr sample_names"
  by (simp add: name_space_def sample_names_def hash_filename_def sample_hmac_def aead_max_def utf8_unit_def)

lemma kept_crypto_facts: "open_header sample_prims bincode_header sample_sealed (UnlockPassword sample_password) = Inr kept_crypto"
proof -
  obtain cr where "open_header sample_prims bincode_header sample_sealed (UnlockPassword sample_password) = Inr cr"
    "from_master_key sample_prims sample_master_key sample_sealed = Inr cr"
    by (rule open_sealed [OF kdf_laws_sample sample_sealed_made sample_volume_facts(4)])
  then show ?thesis by (simp add: kept_crypto_def)
qed

lemma kept_facts:
  "mounted sample_prims bincode_index kept_crypto sample_names [] kept_fs"
  "on_disk sample_prims bincode_index kept_crypto [] kept_world (entries kept_fs)"
  "ready bincode_header [] kept_world sample_sealed"
  "\<exists>e. entries kept_fs = [(FUSE_ROOT_ID, e)] \<and> length (e_name_hash e) = 32 \<and> length (e_name_encrypted e) = 40 \<and>
      e_content_key e = [] \<and> e_link_target e = []"
proof -
  have no: "disk sample_volume ([] @ [INDEX_FILE]) = None" by (simp add: sample_volume_def volume_files)
  obtain s w' e where s: "load sample_prims bincode_index [] kept_crypto sample_volume = (Inr s, w')"
    "fs_ok sample_prims kept_crypto sample_names s" "backend s = []"
    and e: "entries s = [(FUSE_ROOT_ID, e)]" "length (e_name_hash e) = 32" "length (e_name_encrypted e) = 40"
      "e_content_key e = []" "e_link_target e = []"
    by (rule load_fresh [OF sample_volume_facts(1) no sample_name_space_any, where C = bincode_index]) (auto simp: sample_names_def)
  have fs: "kept_fs = s" by (simp add: kept_fs_def s(1))
  show "mounted sample_prims bincode_index kept_crypto sample_names [] kept_fs"
    using s by (simp add: fs mounted_def sample_name_space_any)
  from e show "\<exists>e. entries kept_fs = [(FUSE_ROOT_ID, e)] \<and> length (e_name_hash e) = 32 \<and> length (e_name_encrypted e) = 40 \<and>
      e_content_key e = [] \<and> e_link_target e = []"
    by (simp add: fs)
  have fits: "index_fits bincode_index (entries s)"
    using e by (simp add: index_fits_bincode put_binding_def length_put_entry)
  have wf: "entries_wf (entries s)" by (rule fs_ok_entries_wf [OF sample_name_space_any s(2)])
  obtain w1 where w1: "save_index sample_prims bincode_index kept_crypto s sample_volume = (Inr (s\<lparr>dirty := False\<rparr>), w1)" "fault_free w1"
    using save_index_ok [OF aead_laws_sample bincode_index_laws wf fits sample_volume_facts(1)] by blast
  note sv = save_index_outcome(1) [OF aead_laws_sample bincode_index_laws wf w1(1)]
  show "on_disk sample_prims bincode_index kept_crypto [] kept_world (entries kept_fs)"
    using sv w1(1) s(3) by (simp add: kept_world_def fs saved_def on_disk_def)
  have same: "disk w1 [HEADER_FILE] = disk sample_volume [HEADER_FILE]" "disk w1 [REKEY_MARKER] = disk sample_volume [REKEY_MARKER]"
    using sv s(3) by (simp_all add: saved_def volume_files)
  have "header_on_disk bincode_header [] (disk w1) sample_sealed = header_on_disk bincode_header [] (disk sample_volume) sample_sealed"
    by (rule header_on_disk_cong) (simp add: same)
  then show "ready bincode_header [] kept_world sample_sealed"
    using ready_sample(1) w1 same(2) by (simp add: kept_world_def fs ready_def settled_def)
qed

definition rekey_args :: passwd_args where
  "rekey_args = \<lparr>pa_backend = [], pa_credential = with_password\<rparr>"

lemma rekey_args_sel [simp]: "pa_backend rekey_args = []" "pa_credential rekey_args = with_password"
  "require_password with_password = Inr sample_password"
  by (simp_all add: rekey_args_def require_password_def with_password_def sample_password_def)

lemma kept_rekeyed_fits:
  assumes "list_all2 (\<lambda>(k, e) (k', e'). k' = k \<and> rekeyed sample_prims kept_crypto new e e') (entries kept_fs) m'"
  shows "index_fits bincode_index m'"
proof -
  obtain e where e: "entries kept_fs = [(FUSE_ROOT_ID, e)]" "length (e_name_hash e) = 32" "length (e_name_encrypted e) = 40"
      "e_content_key e = []" "e_link_target e = []" using kept_facts(4) by blast
  then obtain e' where e': "m' = [(FUSE_ROOT_ID, e')]" "rekeyed sample_prims kept_crypto new e e'"
    using assms by (auto simp: list_all2_Cons1)
  have "entry_wf e" using mounted_wf(3) [OF kept_facts(1)] e(1) by (simp add: entries_wf_def)
  moreover have "e_name_encrypted e \<noteq> []" using e(3) by auto
  ultimately have "length (e_name_hash e') = 32" "length (e_name_encrypted e') = 40" "e_content_key e' = []" "e_link_target e' = []"
    using rekeyed_entry_wf [OF e'(2)] e same_secret_length(2) [OF aead_laws_sample, of kept_crypto new "e_name_encrypted e" "e_name_encrypted e'"] e'(2)
    by (auto simp: entry_wf_def rekeyed_def same_secret_def [of _ _ "[]"])
  then show ?thesis by (simp add: e'(1) index_fits_bincode put_binding_def length_put_entry)
qed

theorem rekey_keeps_the_volume_witness:
  "\<exists>w' new s' w''. rekey sample_prims bincode_header bincode_index rekey_args kept_world = (Inr (), w') \<and>
    unlock sample_prims bincode_header [] (UnlockPassword sample_password) w' = (Inr new, tick w') \<and>
    load sample_prims bincode_index [] new w' = (Inr s', w'') \<and>
    ns_kind (ns_of sample_prims new s') = ns_kind (ns_of sample_prims kept_crypto kept_fs)"
proof -
  obtain e where e: "entries kept_fs = [(FUSE_ROOT_ID, e)]" "e_content_key e = []" "e_link_target e = []" using kept_facts(4) by blast
  have "bt_get FUSE_ROOT_ID (entries kept_fs) = Some e" by (simp add: e(1) bt_get_def)
  then obtain nm where "nm \<in> sample_names" "decrypt_filename sample_prims kept_crypto (e_name_encrypted e) = Inr nm"
    using mounted_wf(2) [OF kept_facts(1)] by (auto simp: names_ok_def)
  then have "\<forall>(k, e) \<in> set (entries kept_fs). entry_openable sample_prims kept_crypto e"
    using e by (auto simp: entry_openable_def openable_def sample_names_def aead_max_def)
  moreover have "list_all (rewrappable sample_prims with_password) (slots sample_sealed)"
    by (simp add: sample_header_sizes sample_slot_def rewrappable_def kdf_default_def) (simp add: sample_password_def)
  moreover have "60 + sum_list (map (rewrapped_size sample_prims) (slots sample_sealed)) \<le> MAX_HEADER_BYTES"
    "\<exists>s \<in> set (slots sample_sealed). is_password_slot s"
    by (simp_all add: sample_header_sizes sample_slot_def rewrapped_size_def MAX_HEADER_BYTES_def is_password_slot_def)
  ultimately show ?thesis
    using rekey_keeps_the_volume [OF sample_crypto_laws, of rekey_args kept_world sample_sealed "UnlockPassword sample_password"
        kept_crypto bincode_index sample_names kept_fs] kept_facts(1-3) kept_crypto_facts kept_rekeyed_fits sample_name_space_any
    by (simp add: Bex_def) blast
qed

text \<open>C40: A volume that was created but never used has no index yet; mounting it makes a root directory.  Retiring its master key
  writes an empty index instead, and from then on mounting finds no root directory at all.\<close>

theorem rekey_of_an_unused_volume_loses_the_root:
  assumes "crypto_laws P C" and "ready C (pa_backend args) w h" and "presents (pa_credential args) u (disk w)"
    and "open_header P C h u = Inr old"
    and "list_all (rewrappable P (pa_credential args)) (slots h)"
    and "60 + sum_list (map (rewrapped_size P) (slots h)) \<le> MAX_HEADER_BYTES"
    and "codec_laws entries_wf CI" and "index_fits CI []" and "disk w (pa_backend args @ [INDEX_FILE]) = None"
    and "name_space P old N" and "[] \<in> N"
  shows "\<exists>s\<^sub>0 w\<^sub>0 w' new s' w''. load P CI (pa_backend args) old w = (Inr s\<^sub>0, w\<^sub>0) \<and> getattr s\<^sub>0 FUSE_ROOT_ID \<noteq> ReplyError ENOENT \<and>
    rekey P C CI args w = (Inr (), w') \<and> load P CI (pa_backend args) new w' = (Inr s', w'') \<and>
    header_on_disk C (pa_backend args) (disk w') (header new) \<and> getattr s' FUSE_ROOT_ID = ReplyError ENOENT"
proof -
  have laws: "aead_laws P" using assms(1) by (simp add: crypto_laws_def)
  obtain b where b: "ser CI [] = Some b" "de CI b = Some []"
    using codec_lawsE [OF assms(7), of "[]"] by (auto simp: entries_wf_def vec_ok_def)
  then have lb: "length b \<le> aead_max" using assms(8) by (simp add: index_fits_def)
  have idx: "\<exists>blob v' m'. rekey_index P CI (pa_backend args) old new v = (Inr blob, v') \<and>
      stored P CI new blob m' \<and> list_all2 (\<lambda>(k, e) (k', e'). k' = k \<and> rekeyed P old new e e') [] m'"
    if v: "fault_free v" "disk v = disk w" for new v
  proof -
    obtain blob where e: "encrypt P new b v = (Inr blob, draw_nonce v)"
      using bulk.seal_total [of P b new v] laws lb by blast
    have "stored P CI new blob []" using decrypt_encrypt(1) [OF laws e] b(2) by (simp add: stored_def)
    moreover have "rekey_index P CI (pa_backend args) old new v = (Inr blob, draw_nonce v)"
      using v assms(9) b(1) e by (simp add: rekey_index_def Let_def fs_exists_def bincode_serialize_def)
    ultimately show ?thesis by auto
  qed
  obtain w' new where r: "rekey P C CI args w = (Inr (), w')"
    "rekey_result P C CI (pa_backend args) (pa_credential args) old h [] w' new"
    using rekey_core [OF assms(1-6) idx] by metis
  then obtain blob where bl: "disk w' (pa_backend args @ [INDEX_FILE]) = Some blob" "stored P CI new blob []"
    by (auto simp: rekey_result_def)
  have rd: "fault_free w'" "header_on_disk C (pa_backend args) (disk w') (header new)"
    using r(2) by (simp_all add: rekey_result_def ready_def)
  obtain s' w'' where l: "load P CI (pa_backend args) new w' = (Inr s', w'')" "entries s' = []"
    using load_stored [OF rd(1) bl] by auto
  have "fault_free w" using assms(2) by (simp add: ready_def)
  from load_fresh [OF this assms(9-11), where C = CI] obtain s\<^sub>0 w\<^sub>0 e where
    "load P CI (pa_backend args) old w = (Inr s\<^sub>0, w\<^sub>0)" "entries s\<^sub>0 = [(FUSE_ROOT_ID, e)]" by metis
  with r(1) l rd(2) show ?thesis
    by (intro exI [of _ s\<^sub>0] exI [of _ w\<^sub>0] exI [of _ w'] exI [of _ new] exI [of _ s'] exI [of _ w''])
      (simp add: getattr_def bt_get_def)
qed

theorem rekey_of_an_unused_volume_loses_the_root_witness:
  "\<exists>w' new s' w''. rekey sample_prims bincode_header bincode_index rekey_args sample_volume = (Inr (), w') \<and>
    load sample_prims bincode_index [] new w' = (Inr s', w'') \<and> getattr s' FUSE_ROOT_ID = ReplyError ENOENT"
proof -
  have "list_all (rewrappable sample_prims with_password) (slots sample_sealed)"
    by (simp add: sample_header_sizes sample_slot_def rewrappable_def kdf_default_def) (simp add: sample_password_def)
  moreover have "60 + sum_list (map (rewrapped_size sample_prims) (slots sample_sealed)) \<le> MAX_HEADER_BYTES"
    by (simp add: sample_header_sizes sample_slot_def rewrapped_size_def MAX_HEADER_BYTES_def)
  moreover have "index_fits bincode_index []" "disk sample_volume [INDEX_FILE] = None" "[] \<in> sample_names"
    by (simp_all add: index_fits_bincode sample_volume_def volume_files sample_names_def)
  ultimately show ?thesis
    using rekey_of_an_unused_volume_loses_the_root [OF sample_crypto_laws, of rekey_args sample_volume sample_sealed
        "UnlockPassword sample_password" kept_crypto bincode_index sample_names] ready_sample(1) kept_crypto_facts sample_name_space_any
    by simp blast
qed

end
