(* ===== verification/Persistence.thy ===== *)
theory Persistence
  imports Footprint Coherence Rekeying
begin

text \<open>
  What is on disk while a volume is served: as long as no request was answered with an I/O error, the index on disk has the
  entries of the running file system or the index is marked as out of date, so unmounting saves everything; and what
  mounting does with the files it finds.
\<close>

section \<open>The index on disk is current or known to be stale\<close>

definition tracked :: "prims \<Rightarrow> entry_map codec \<Rightarrow> crypto \<Rightarrow> pqfs_inner \<Rightarrow> world \<Rightarrow> bool" where
  "tracked P C cr s w \<longleftrightarrow> dirty s \<or> on_disk P C cr (backend s) w (entries s)"

lemma tracked_frame: "disk w' (backend s @ [INDEX_FILE]) = disk w (backend s @ [INDEX_FILE]) \<Longrightarrow> tracked P C cr s w \<Longrightarrow> tracked P C cr s w'"
  by (simp add: tracked_def on_disk_def)

lemma save_index_tracked:
  assumes ok: "fs_ok P cr N s" and N: "name_space P cr N" and C: "codec_laws entries_wf C" and run: "save_index P C cr s w = (Inr s', w')"
  shows "tracked P C cr s' w'"
proof -
  have P: "aead_laws P" using N by (simp add: name_space_def)
  note out = save_index_outcome [OF P C fs_ok_entries_wf [OF N ok] run]
  show ?thesis using out(1) out(2) [OF refl] by (simp add: tracked_def on_disk_def saved_def)
qed

lemma save_then_tracked:
  assumes ok: "fs_ok P cr N s" and N: "name_space P cr N" and C: "codec_laws entries_wf C"
    and run: "save_then P C cr rep s w = (rep', s', w')" and "rep' \<noteq> ReplyError EIO"
  shows "tracked P C cr s' w'"
  using run assms(5) save_index_tracked [OF ok N C] by (auto simp: save_then_def split: prod.splits sum.splits)

text \<open>A request that is not answered with \<open>EIO\<close> keeps track.\<close>

lemma serve_tracked:
  assumes ok: "fs_ok P cr N s" and N: "name_space P cr N" and C: "codec_laws entries_wf C" and adm: "admissible N r (ns_of P cr s)"
    and run: "serve P C cr r s w = (rep, s', w')" and rep: "rep \<noteq> ReplyError EIO" and t: "tracked P C cr s w"
  shows "tracked P C cr s' w'"
  using serve_implements [OF ok N adm, of C w] unfolding implements_def run
proof (elim disjE exE conjE)
  fix e assume "(rep, s', w') = (ReplyError e, s, w)"
  with t show ?thesis by simp
next
  fix r' s1 w1 assume "(rep, s', w') = save_then P C cr r' s1 w1" and "fs_ok P cr N s1"
  with save_then_tracked [OF _ N C _ rep] show ?thesis by metis
qed

lemma flush_tracked:
  assumes ok: "fs_ok P cr N s" and N: "name_space P cr N" and C: "codec_laws entries_wf C"
    and run: "flush_reply P C cr s w = (rep, s', w')" and rep: "rep \<noteq> ReplyError EIO" and t: "tracked P C cr s w"
  shows "tracked P C cr s' w'"
  using run rep t save_index_tracked [OF ok N C]
  by (auto simp: flush_reply_def flush_index_def ret_def split: if_splits prod.splits sum.splits)

lemma sync_and_flush_tracked:
  assumes ok: "fs_ok P cr N s" and N: "name_space P cr N" and C: "codec_laws entries_wf C" and ff: "fault_free w"
    and run: "sync_and_flush P C cr ino s w = (rep, s', w')" and rep: "rep \<noteq> ReplyError EIO" and t: "tracked P C cr s w"
  shows "tracked P C cr s' w'"
proof -
  obtain x w1 where x: "sync (data_path s ino) w = (x, w1)" by fastforce
  have "tracked P C cr s w1" using tracked_frame [OF _ t] sync_keeps(2) [OF x ff] by simp
  then show ?thesis using run rep x flush_tracked [OF ok N C] by (auto simp: sync_and_flush_def split: sum.splits)
qed

lemma change_attr_tracked:
  assumes ok: "fs_ok P cr N s" and N: "name_space P cr N" and C: "codec_laws entries_wf C"
    and ck: "\<And>r. tr = Some r \<Longrightarrow> bt_get ino (entries s) \<noteq> None \<Longrightarrow> vec_ok (fst r)"
    and run: "change_attr P C cr ino ch tr s w = (rep, s', w')" and rep: "rep \<noteq> ReplyError EIO" and t: "tracked P C cr s w"
  shows "tracked P C cr s' w'"
proof (cases "bt_get ino (entries s)")
  case None
  with run t show ?thesis by (simp add: change_attr_def apply_setattr_def)
next
  case (Some e)
  obtain e' rep' w1 where e': "change_attr P C cr ino ch tr s w = save_then P C cr rep' (set_entry ino e' s) w1" "same_place e e'"
    "content_of e' = (case tr of None \<Rightarrow> content_of e | Some (ck, sz) \<Rightarrow> (e_kind e, sz, ck))"
    unfolding change_attr_def using apply_setattr_run [OF Some, of P C cr "ac_mode ch" "ac_uid ch" "ac_gid ch" "ac_atime ch" "ac_mtime ch" tr w] by metis
  have "vec_ok (e_content_key e)" using fs_okD(2) [OF ok] Some by (simp add: names_ok_def)
  then have "vec_ok (e_content_key e')" using e'(3) ck Some by (cases tr) (auto simp: content_of_def)
  from save_then_tracked [OF fs_ok_set_entry [OF ok Some e'(2) this] N C run [unfolded e'(1)] rep] show ?thesis .
qed

lemma record_result_tracked:
  assumes ok: "fs_ok (m_prims M) (m_crypto M) N s" and N: "name_space (m_prims M) (m_crypto M) N" and C: "codec_laws entries_wf (m_codec M)"
    and wr: "wants_write t" and ck: "bt_get (t_ino t) (entries s) \<noteq> None \<Longrightarrow> vec_ok (fst r)"
    and run: "record_result M t r s w = (rep, s', w')" and rep: "rep \<noteq> ReplyError EIO" and tr: "tracked (m_prims M) (m_codec M) (m_crypto M) s w"
  shows "tracked (m_prims M) (m_codec M) (m_crypto M) s' w'"
proof (cases "t_job t")
  case (WriteJob f off data)
  with run tr show ?thesis
    by (auto simp: record_result_def commit_write_def mark_dirty_def tracked_def split: option.splits prod.splits)
next
  case (SetattrJob f ch m)
  with run have "change_attr (m_prims M) (m_codec M) (m_crypto M) (t_ino t) ch (Some r) s w = (rep, s', w')" by (simp add: record_result_def)
  from change_attr_tracked [OF ok N C _ this rep tr] ck show ?thesis by simp
qed (use wr in \<open>simp add: wants_write_def\<close>)

section \<open>Along a run\<close>

definition no_io_error :: "pqfs \<Rightarrow> bool" where
  "no_io_error st \<longleftrightarrow> ReplyError EIO \<notin> snd ` set (p_replies st)"

definition up_to_date :: "mount_env \<Rightarrow> bytes set \<Rightarrow> path \<Rightarrow> pqfs \<Rightarrow> (u64 \<Rightarrow> bytes) \<Rightarrow> bool" where
  "up_to_date M N dir st c \<longleftrightarrow> consistent M N dir st c \<and>
     (no_io_error st \<longrightarrow> tracked (m_prims M) (m_codec M) (m_crypto M) (p_inner st) (p_world st))"

lemma up_to_date_frame:
  assumes "up_to_date M N dir st c" and "consistent M N dir st' c'" and "p_inner st' = p_inner st"
    and "disk (p_world st') (dir @ [INDEX_FILE]) = disk (p_world st) (dir @ [INDEX_FILE])" and "set (p_replies st) \<subseteq> set (p_replies st')"
  shows "up_to_date M N dir st' c'"
proof -
  have "backend (p_inner st) = dir" using assms(1) by (simp add: up_to_date_def consistent_def mounted_def)
  moreover have "no_io_error st' \<Longrightarrow> no_io_error st" using assms(5) by (auto simp: no_io_error_def)
  ultimately show ?thesis using assms tracked_frame [of "p_world st'" "p_inner st" "p_world st"] by (auto simp: up_to_date_def)
qed

lemma up_to_date_handler:
  assumes u: "up_to_date M N dir st c" and c: "consistent M N dir st' c"
    and h: "h (p_inner st) (p_world st) = (rep, p_inner st', p_world st')" and r: "p_replies st' = p_replies st @ [(n, rep)]"
    and t: "rep \<noteq> ReplyError EIO \<Longrightarrow> tracked (m_prims M) (m_codec M) (m_crypto M) (p_inner st) (p_world st) \<Longrightarrow>
      tracked (m_prims M) (m_codec M) (m_crypto M) (p_inner st') (p_world st')"
  shows "up_to_date M N dir st' c"
proof -
  have "no_io_error st' \<Longrightarrow> rep \<noteq> ReplyError EIO \<and> no_io_error st" by (auto simp: no_io_error_def r)
  with u c t show ?thesis by (auto simp: up_to_date_def)
qed

lemma up_to_date_lock: "up_to_date M N dir st c \<Longrightarrow> up_to_date M N dir (inode_lock i st) c"
  by (rule up_to_date_frame [of M N dir st c]) (simp_all add: up_to_date_def consistent_inode_lock)

lemma up_to_date_write_inner:
  assumes u: "up_to_date M N dir st c" and c: "consistent M N dir (write_inner h n st) c"
    and t: "\<And>rep s' w'. h (p_inner st) (p_world st) = (rep, s', w') \<Longrightarrow> rep \<noteq> ReplyError EIO \<Longrightarrow>
      tracked (m_prims M) (m_codec M) (m_crypto M) (p_inner st) (p_world st) \<Longrightarrow> tracked (m_prims M) (m_codec M) (m_crypto M) s' w'"
  shows "up_to_date M N dir (write_inner h n st) c"
proof -
  obtain rep s' w' where h: "h (p_inner st) (p_world st) = (rep, s', w')" by (rule prod_cases3)
  show ?thesis
    by (rule up_to_date_handler [OF u c, of h rep n]) (use h t [OF h] in \<open>simp_all add: write_inner_def send_reply_def\<close>)
qed

lemma replies_spawn [simp]: "p_replies (spawn_job t st) = p_replies st" "p_inner (spawn_job t st) = p_inner st" "p_world (spawn_job t st) = p_world st"
  by (simp_all add: spawn_job_def)

lemma up_to_date_dispatch:
  assumes u: "up_to_date M N dir st c" and ok: "request_ok M N req st"
  shows "up_to_date M N dir (dispatch M req n st) c"
proof -
  have con: "consistent M N dir st c" using u by (simp add: up_to_date_def)
  note D = consistentD [OF con] and l = up_to_date_lock [OF u]
  have c: "consistent M N dir (dispatch M req n st) c" by (rule consistent_dispatch [OF con ok])
  have fr: ?thesis if "p_inner (dispatch M req n st) = p_inner st" "p_world (dispatch M req n st) = p_world st"
    "set (p_replies st) \<subseteq> set (p_replies (dispatch M req n st))"
    by (rule up_to_date_frame [OF u c]) (use that in simp_all)
  show ?thesis
  proof (cases req)
    case (MetaRequest r)
    then have d: "dispatch M req n st = write_inner (serve (m_prims M) (m_codec M) (m_crypto M) r) n st" by simp
    show ?thesis unfolding d
      by (rule up_to_date_write_inner [OF u c [unfolded d]]) (use serve_tracked [OF D(8,9,10)] ok MetaRequest in auto)
  next
    case (ReadRequest ino off sz)
    then show ?thesis by (intro fr) (auto simp: pqfs_read_def Let_def send_reply_def split: option.split)
  next
    case (WriteRequest ino off data)
    then show ?thesis by (intro fr) (auto simp: pqfs_write_def Let_def send_reply_def split: option.split entry_kind.split)
  next
    case (SetattrRequest ino ch sz)
    show ?thesis
    proof (cases "sz = None \<and> bt_get ino (entries (p_inner st)) \<noteq> None")
      case True
      then have d: "dispatch M req n st = write_inner (change_attr (m_prims M) (m_codec M) (m_crypto M) ino ch None) n (inode_lock ino st)"
        by (auto simp: SetattrRequest pqfs_setattr_def Let_def)
      show ?thesis unfolding d
        by (rule up_to_date_write_inner [OF l c [unfolded d]]) (use change_attr_tracked [OF D(8,9,10), of None] in auto)
    next
      case False
      then show ?thesis by (intro fr) (auto simp: SetattrRequest pqfs_setattr_def Let_def send_reply_def split: option.split)
    qed
  next
    case (FsyncRequest ino)
    then have d: "dispatch M req n st = write_inner (sync_and_flush (m_prims M) (m_codec M) (m_crypto M) ino) n (inode_lock ino st)"
      by (simp add: pqfs_fsync_def)
    show ?thesis unfolding d
      by (rule up_to_date_write_inner [OF l c [unfolded d]]) (use sync_and_flush_tracked [OF D(8,9,10,2)] in auto)
  next
    case (FlushRequest ino)
    then have d: "dispatch M req n st = write_inner (sync_and_flush (m_prims M) (m_codec M) (m_crypto M) ino) n (inode_lock ino st)"
      by (simp add: pqfs_flush_def)
    show ?thesis unfolding d
      by (rule up_to_date_write_inner [OF l c [unfolded d]]) (use sync_and_flush_tracked [OF D(8,9,10,2)] in auto)
  next
    case FsyncdirRequest
    then have d: "dispatch M req n st = write_inner (flush_reply (m_prims M) (m_codec M) (m_crypto M)) n st"
      by (simp add: pqfs_fsyncdir_def)
    show ?thesis unfolding d
      by (rule up_to_date_write_inner [OF u c [unfolded d]]) (use flush_tracked [OF D(8,9,10)] in auto)
  qed (rule fr; auto simp: read_inner_def send_reply_def)+
qed

lemma finish_replies [simp]: "p_replies (finish k t rep st) = p_replies st @ [(t_id t, rep)]"
  by (simp add: finish_def send_reply_def)

lemma up_to_date_advance:
  assumes u: "up_to_date M N dir st c" and adv: "advance M k st = Some (ev, st')"
  shows "up_to_date M N dir st' (changed c ev)"
proof -
  have con: "consistent M N dir st c" using u by (simp add: up_to_date_def)
  note D = consistentD [OF con] and k = advance_index [OF adv]
  have c: "consistent M N dir st' (changed c ev)" by (rule consistent_advance [OF con adv])
  have mine: "task_ok (p_inner st) t" if "at_hand (p_workers st ! k) = Some t" for t
    using that k D(4) by (auto simp: tasks_def)
  have dir: "backend (p_inner st) = dir" using D(1) by (simp add: mounted_def)
  have fr: ?thesis if "p_inner st' = p_inner st" "disk (p_world st') (dir @ [INDEX_FILE]) = disk (p_world st) (dir @ [INDEX_FILE])"
    "set (p_replies st) \<subseteq> set (p_replies st')"
    by (rule up_to_date_frame [OF u c that])
  have io: "disk w (dir @ [INDEX_FILE]) = disk (p_world st) (dir @ [INDEX_FILE])"
    if "job_io M t e (p_world st) = (r, w)" "p_workers st ! k = Fetched t e" for t e r w
  proof -
    have "wants_write t" using D(6) [OF k] that(2) by simp
    from job_io_only_file [OF that(1) mine this D(2)] that(2) dir show ?thesis
      using data_path_other(2) [of "p_inner st" INDEX_FILE "t_ino t"] by (simp add: only_file_def)
  qed
  from adv show ?thesis
  proof (cases rule: advance_cases)
    case (Read t e f off sz rep w)
    have "disk w = disk (p_world st)"
      by (rule do_read_keeps [OF Read(3), of "\<lambda>v. disk v = disk (p_world st)"]) simp_all
    then show ?thesis by (intro fr) (use Read in auto)
  next
    case (Fail t e code w)
    then show ?thesis by (intro fr) (use io [OF Fail(2,1)] in auto)
  next
    case (Transfer t e r w)
    then show ?thesis by (intro fr) (use io [OF Transfer(2,1)] in auto)
  next
    case (Commit t r rep s w)
    have wr: "wants_write t" and ck: "bt_get (t_ino t) (entries (p_inner st)) \<noteq> None \<Longrightarrow> vec_ok (fst r)"
      using D(6) [OF k] Commit(1) carries_vec_ok by simp_all blast
    have "up_to_date M N dir st' c"
      by (rule up_to_date_handler [OF u, of _ "record_result M t r" rep "t_id t"])
        (use Commit c record_result_tracked [OF D(8,9,10) wr ck Commit(2)] in simp_all)
    then show ?thesis by (simp add: Commit(3))
  qed (rule fr; auto)+
qed

interpretation index_tracking: simulation "good_step M N" "up_to_date M N dir" changed for M N dir
proof
  fix st c ev st' assume u: "up_to_date M N dir st c" and s: "good_step M N st ev st'"
  from s show "up_to_date M N dir st' (changed c ev)"
  proof cases
    case (good_dispatcher req)
    let ?st = "st\<lparr>p_next := p_next st + 1\<rparr>"
    have "consistent M N dir ?st c" using u by (auto simp: up_to_date_def intro: consistent_frame simp: tasks_def)
    then have "up_to_date M N dir ?st c" by (rule up_to_date_frame [OF u]) simp_all
    moreover have "request_ok M N req ?st" using good_dispatcher(5)
      by (cases "(M, N, req, st)" rule: request_ok.cases) simp_all
    ultimately show ?thesis using good_dispatcher(1,2) up_to_date_dispatch by simp
  next
    case (good_worker k)
    then show ?thesis by (rule up_to_date_advance [OF u])
  qed
qed

section \<open>Unmounting\<close>

lemma drop_saves:
  assumes u: "up_to_date M N dir st c" and "no_io_error st" and fits: "dirty (p_inner st) \<Longrightarrow> index_fits (m_codec M) (entries (p_inner st))"
  shows "on_disk (m_prims M) (m_codec M) (m_crypto M) dir (p_world (drop_pqfs M st)) (entries (p_inner st))"
    and "fault_free (p_world (drop_pqfs M st))"
    and "disk (p_world (drop_pqfs M st)) (data_path (p_inner st) i) = disk (p_world st) (data_path (p_inner st) i)"
proof -
  let ?P = "m_prims M" and ?C = "m_codec M" and ?cr = "m_crypto M" and ?s = "p_inner st" and ?w = "p_world st"
  have con: "consistent M N dir st c" and t: "tracked ?P ?C ?cr ?s ?w" using u assms(2) by (simp_all add: up_to_date_def)
  note D = consistentD [OF con]
  have dir: "backend ?s = dir" using D(1) by (simp add: mounted_def)
  have "on_disk ?P ?C ?cr dir (p_world (drop_pqfs M st)) (entries ?s) \<and> fault_free (p_world (drop_pqfs M st)) \<and>
    (\<forall>i. disk (p_world (drop_pqfs M st)) (data_path ?s i) = disk ?w (data_path ?s i))"
  proof (cases "dirty ?s")
    case True
    obtain w' where sv: "save_index ?P ?C ?cr ?s ?w = (Inr (?s\<lparr>dirty := False\<rparr>), w')"
      using save_index_ok [OF D(11,10) fs_ok_entries_wf [OF D(9,8)] fits [OF True] D(2)] by blast
    have "p_world (drop_pqfs M st) = w'" by (simp add: drop_pqfs_def flush_index_def True sv)
    then show ?thesis
      using save_index_keeps(1,2) [OF D(8,9,10,2) sv] save_index_tracked [OF D(8,9,10) sv] dir by (simp add: tracked_def)
  next
    case False
    then have "p_world (drop_pqfs M st) = ?w" by (simp add: drop_pqfs_def flush_index_def ret_def)
    with False t D(2) dir show ?thesis by (simp add: tracked_def)
  qed
  then show "on_disk ?P ?C ?cr dir (p_world (drop_pqfs M st)) (entries ?s)" "fault_free (p_world (drop_pqfs M st))"
    "disk (p_world (drop_pqfs M st)) (data_path ?s i) = disk ?w (data_path ?s i)" by simp_all
qed

section \<open>Mounting an existing volume\<close>

lemma mount_opens:
  assumes w: "fault_free w" "settled bk (disk w)" "header_on_disk C bk (disk w) h" and bk: "ma_backend args = bk"
    and c: "presents (ma_credential args) u (disk w)" and op: "open_header P C h u = Inr cr"
  obtains w' where "quiet w w'"
    and "mount P C CI n args w = bindE (load P CI bk cr) (\<lambda>inner w'.
      (Inr (cr, pqfs_new n inner w', mount_options (ma_options args)), w')) w'"
proof -
  obtain i w1 where i: "identity_file (ma_credential args) w = (Inr i, w1)" "credential_unlock (ma_credential args) i = Inr u" "quiet w w1"
    using presents_identity [OF c w(1)] by blast
  note q = quietD [OF i(3)]
  have ul: "unlock P C bk u w1 = (Inr cr, tick w1)"
    using unlock_ok [of w1 bk C h P u] q w op by simp
  have ex: "fs_exists (bk @ [''pqfs.header'']) w" using w(3) by (auto simp: fs_exists_def header_on_disk_def HEADER_FILE_def split: option.splits)
  have "quiet w (tick w1)" using i(3) quiet_trans quiet_tick q by blast
  then show thesis
    by (rule that) (simp add: mount_def Let_def bk ex bindE_def i(1,2) ul)
qed

lemma load_current:
  assumes m: "mounted P C cr N dir s" and w: "fault_free w" "on_disk P C cr dir w (entries s)"
  obtains s' w' where "load P C dir cr w = (Inr s', w')" and "quiet w w'" and "s' = s\<lparr>dirty := False, next_ino := reload_next (entries s)\<rparr>"
proof -
  have "index_ok s" "backend s = dir" using m by (simp_all add: mounted_def fs_ok_def)
  with w that show thesis using reload_same [of s w _ P C cr] by (auto simp: on_disk_def)
qed

end
