(* ===== verification/Session.thy ===== *)
theory Session
  imports Persistence
begin

text \<open>
  The program as a whole (\<open>src/main.rs\<close>): the choice of the command, and what a user sees of a volume that is made,
  mounted, used, unmounted and mounted again.
\<close>

section \<open>The program\<close>

text \<open>
  \<open>serve_until_unmounted\<close> is \<open>fuser::mount2\<close>: it is given the file system, the mount point and the options and returns
  when the volume is unmounted.
\<close>

type_synonym fuse_session = "crypto \<Rightarrow> pqfs \<Rightarrow> path \<Rightarrow> mount_option list \<Rightarrow> unit io"

definition mount_and_serve :: "prims \<Rightarrow> volume_header codec \<Rightarrow> entry_map codec \<Rightarrow> nat \<Rightarrow> fuse_session \<Rightarrow> mount_args \<Rightarrow> unit io" where
  "mount_and_serve P C CI parallelism mount2 args =
     bindE (mount P C CI parallelism args) (\<lambda>(cr, st, options). mount2 cr st (ma_mountpoint args) options)"

definition pqfs_main ::
  "prims \<Rightarrow> volume_header codec \<Rightarrow> entry_map codec \<Rightarrow> public_identity codec \<Rightarrow> nat \<Rightarrow> fuse_session \<Rightarrow> command \<Rightarrow> unit io" where
  "pqfs_main P C CI CP parallelism mount2 cmd =
     (case cmd of
        Mount args \<Rightarrow>
          bindE (resolve (ma_credential args)) (\<lambda>c.
          mount_and_serve P C CI parallelism mount2 (args\<lparr>ma_credential := c\<rparr>))
      | Keygen args \<Rightarrow> keygen P CP args
      | Slots args \<Rightarrow> slots_command C args
      | Share args \<Rightarrow> share P C CP args
      | Revoke args \<Rightarrow> revoke P C args
      | Passwd args \<Rightarrow> passwd P C args
      | Rekey args \<Rightarrow> rekey P C CI args)"

lemma resolve_keeps: "preserves (\<lambda>w. disk w = d) (resolve c)"
  by (auto simp: preserves_def resolve_def prompt_password_def bindE_def ret_def throw_def split: list.splits option.splits)

lemma identity_file_keeps: "preserves (\<lambda>w. disk w = d) (identity_file c)"
  unfolding identity_file_def identity_load_def
  by (cases "ca_identity c") (simp_all add: preserves_intros preserves_read_only)

section \<open>From one mount to the next\<close>

lemma up_to_date_new:
  assumes m: "mounted (m_prims M) (m_codec M) (m_crypto M) N dir inner" and "fault_free w" and "contains_initially M inner w c"
    and "on_disk (m_prims M) (m_codec M) (m_crypto M) dir w (entries inner)"
  shows "up_to_date M N dir (pqfs_new n inner w) c"
  using consistent_new [OF assms(1-3)] assms(4) m by (simp add: up_to_date_def tracked_def pqfs_new_def mounted_def)

lemma presents_confined:
  assumes "presents c u d" and "confined dir d w" and "\<And>p. ca_identity c = Some p \<Longrightarrow> p \<notin> served_files dir"
  shows "presents c u (disk w)"
  using assms by (cases "ca_identity c") (auto simp: presents_def confined_def)

lemma served_files_header: "dir @ [HEADER_FILE] \<notin> served_files dir" "dir @ [REKEY_MARKER] \<notin> served_files dir"
  by (auto simp: served_files_def volume_files)

lemma confined_header:
  assumes "confined dir d w"
  shows "settled dir d \<Longrightarrow> settled dir (disk w)" and "header_on_disk C dir d h \<Longrightarrow> header_on_disk C dir (disk w) h"
  using assms served_files_header by (simp_all add: confined_def settled_def header_on_disk_def)

text \<open>
  C1: nothing is lost by unmounting.  Mount a volume, serve any requests in any interleaving until no job is left and
  none has been answered with an I/O error, unmount, and mount again with the same credential: the keys and all
  entries are the same, every name leads to the same inode, and reading a file returns the bytes that the writes and
  truncations done on it, in their order, made of its contents.
\<close>

theorem contents_survive_remount:
  assumes "mounted (m_prims M) (m_codec M) (m_crypto M) N dir inner" and "fault_free w" and "contains_initially M inner w c"
    and "on_disk (m_prims M) (m_codec M) (m_crypto M) dir w (entries inner)"
    and "run (good_step M N) (pqfs_new n inner w) evs st" and "\<not> outstanding st" and "no_io_error st"
    and "dirty (p_inner st) \<Longrightarrow> index_fits (m_codec M) (entries (p_inner st))"
    and "settled dir (disk w)" and "header_on_disk C dir (disk w) h" and "open_header (m_prims M) C h u = Inr (m_crypto M)"
    and "ma_backend args = dir" and "presents (ma_credential args) u (disk w)"
    and "\<And>p. ca_identity (ma_credential args) = Some p \<Longrightarrow> p \<notin> served_files dir"
  shows "\<exists>inner' w'. mount (m_prims M) C (m_codec M) n' args (p_world (drop_pqfs M st)) =
      (Inr (m_crypto M, pqfs_new n' inner' w', mount_options (ma_options args)), w') \<and>
    entries inner' = entries (p_inner st) \<and>
    ns_dir (ns_of (m_prims M) (m_crypto M) inner') = ns_dir (ns_of (m_prims M) (m_crypto M) (p_inner st)) \<and>
    (\<forall>ino e off len. bt_get ino (entries inner') = Some e \<longrightarrow> e_kind e = File \<longrightarrow>
      (\<exists>w''. do_read (m_prims M) (m_crypto M) e (data_path inner' ino) off len w' =
        (ReplyData (segment (foldl file_spec (c ino) (changes_of ino evs)) (unat (offset_or_zero off)) (unat len)), w'')))"
proof -
  let ?P = "m_prims M" and ?C = "m_codec M" and ?cr = "m_crypto M" and ?s = "p_inner st" and ?w = "p_world (drop_pqfs M st)"
  have u: "up_to_date M N dir st (foldl changed c evs)"
    by (rule index_tracking.run_sim [OF assms(5) up_to_date_new [OF assms(1-4)]])
  then have con: "consistent M N dir st (foldl changed c evs)" by (simp add: up_to_date_def)
  note dr = drop_saves [OF u assms(7,8)] and m = consistentD(1) [OF con]
  have "footprint dir (disk w) st"
    using footprint.run_inv [OF good_run_step [OF assms(5)] footprint_new] assms(1) by (simp add: mounted_def)
  from footprint_drop [OF this, of M] have cf: "confined dir (disk w) ?w" by (simp add: footprint_def)
  obtain w1 where w1: "quiet ?w w1" "mount ?P C ?C n' args ?w = bindE (load ?P ?C dir ?cr) (\<lambda>inner w'.
      (Inr (?cr, pqfs_new n' inner w', mount_options (ma_options args)), w')) w1"
    by (rule mount_opens [OF dr(2) confined_header(1) [OF cf assms(9)] confined_header(2) [OF cf assms(10)] assms(12)
        presents_confined [OF assms(13) cf assms(14)] assms(11)])
  note q1 = quietD [OF w1(1)]
  obtain s' w' where s': "load ?P ?C dir ?cr w1 = (Inr s', w')" "quiet w1 w'" "s' = ?s\<lparr>dirty := False, next_ino := reload_next (entries ?s)\<rparr>"
    using load_current [OF m, of w1] dr(1) q1 by (auto simp: on_disk_def)
  have fc: "find_child ?P ?cr s' p nm = find_child ?P ?cr ?s p nm" for p nm
    by (simp add: s'(3) find_child_def Let_def cong: option.case_cong)
  have rd: "\<exists>w''. do_read ?P ?cr e (data_path s' ino) off len w' =
      (ReplyData (segment (foldl file_spec (c ino) (changes_of ino evs)) (unat (offset_or_zero off)) (unat len)), w'')"
    if e: "bt_get ino (entries s') = Some e" "e_kind e = File" for ino e off len
  proof -
    have none: "holders True ino st = 0"
      using assms(6) by (auto simp: outstanding_def holders_def filter_empty_conv list_ex_iff holds_for_def split: option.splits dest: at_hand_held)
    have dp: "data_path s' = data_path ?s" by (rule data_path_frame) (simp add: s'(3))
    have e': "bt_get ino (entries ?s) = Some e" using e(1) by (simp add: s'(3))
    have "carries ?P ?cr w' (data_path ?s ino) (e_content_key e) (e_size e) (foldl file_spec (c ino) (changes_of ino evs))"
      by (rule carries_frame [OF no_writer_settled [OF con none e' e(2), unfolded foldl_changed]])
        (use dr(3) quietD [OF s'(2)] q1 in simp_all)
    from do_read_carries [OF this offset_plus_len] show ?thesis unfolding dp by metis
  qed
  have "mount ?P C ?C n' args ?w = (Inr (?cr, pqfs_new n' s' w', mount_options (ma_options args)), w')"
    using w1(2) s'(1) by (simp add: bindE_def)
  moreover have "ns_dir (ns_of ?P ?cr s') = ns_dir (ns_of ?P ?cr ?s)" unfolding ns_of_def fc by simp
  moreover have "entries s' = entries ?s" by (simp add: s'(3))
  ultimately show ?thesis using rd by blast
qed

definition sample_mount_args :: mount_args where
  "sample_mount_args = \<lparr>ma_backend = [''v''], ma_mountpoint = [''m''],
     ma_credential = \<lparr>ca_password = Some sample_password, ca_identity = None\<rparr>, ma_init = False, ma_options = []\<rparr>"

lemma sample_mount_args_sel:
  "ma_backend sample_mount_args = [''v'']" "presents (ma_credential sample_mount_args) (UnlockPassword sample_password) d"
  "ca_identity (ma_credential sample_mount_args) = None"
  by (simp_all add: sample_mount_args_def presents_def sample_password_def)

lemma sample_created_replies:
  "no_io_error sample_created" "ns_dir (ns_of sample_prims sample_crypto (p_inner sample_created)) = [(1, [97]) \<mapsto> 2]"
  "ns_kind (ns_of sample_prims sample_crypto (p_inner sample_created)) = [1 \<mapsto> Dir, 2 \<mapsto> File]"
proof -
  obtain a s' w' where c: "create sample_prims bincode_index sample_crypto 1 [97] 420 sample_fs sample_fs_world = (ReplyCreated TTL a 0 0 0, s', w')"
    using sample_create by blast
  then have st: "p_replies sample_created = [(0, ReplyCreated TTL a 0 0 0)]" "p_inner sample_created = s'"
    by (simp_all add: sample_created_def received_def write_inner_def pqfs_new_def send_reply_def)
  then show "no_io_error sample_created" by (simp add: no_io_error_def)
  have adm: "admissible sample_names (Create 1 [97] 420) (ns_of sample_prims sample_crypto sample_fs)"
    by (simp add: sample_mounted(2) may_add_def sample_names_def FUSE_ROOT_ID_def utf8_unit_def)
  have ok: "fs_ok sample_prims sample_crypto sample_names sample_fs" using sample_mounted(1) by (simp add: mounted_def)
  have "ns_of sample_prims sample_crypto s' = snd (specified (Create 1 [97] 420) (ns_of sample_prims sample_crypto sample_fs))"
    using serve_served [OF ok sample_name_space bincode_index_laws adm] c by (simp add: served_def)
  then show "ns_dir (ns_of sample_prims sample_crypto (p_inner sample_created)) = [(1, [97]) \<mapsto> 2]"
    "ns_kind (ns_of sample_prims sample_crypto (p_inner sample_created)) = [1 \<mapsto> Dir, 2 \<mapsto> File]"
    by (simp_all add: st(2) sample_mounted(2) spec_add_def utf8_unit_def FUSE_ROOT_ID_def)
qed

theorem contents_survive_remount_witness:
  "\<exists>inner w. mount sample_prims bincode_header bincode_index 2 sample_mount_args (p_world (drop_pqfs sample_mount sample_created)) =
      (Inr (sample_crypto, pqfs_new 2 inner w, [FSName ''pqfs'', Subtype ''pqfs'', NoAtime, RW]), w) \<and>
    ns_dir (ns_of sample_prims sample_crypto inner) = [(1, [97]) \<mapsto> 2]"
proof -
  obtain e where s: "run (good_step sample_mount sample_names) (pqfs_new 2 sample_fs sample_fs_world) [Internal] sample_created"
    "idle sample_created" "\<not> dirty (p_inner sample_created)" using sample_created by metis
  have out: "\<not> outstanding sample_created" using s(2) by (simp add: outstanding_def idle_def list_ex_iff)
  have m: "mounted (m_prims sample_mount) (m_codec sample_mount) (m_crypto sample_mount) sample_names [''v''] sample_fs"
    "on_disk (m_prims sample_mount) (m_codec sample_mount) (m_crypto sample_mount) [''v''] sample_fs_world (entries sample_fs)"
    "open_header (m_prims sample_mount) bincode_header sample_sealed (UnlockPassword sample_password) = Inr (m_crypto sample_mount)"
    using sample_mounted(1,3) sample_volume_header(3) by simp_all
  have o: "mount_options (ma_options sample_mount_args) = [FSName ''pqfs'', Subtype ''pqfs'', NoAtime, RW]"
    by (simp add: mount_options_def sample_mount_args_def)
  have d: "dirty (p_inner sample_created) \<Longrightarrow> index_fits (m_codec sample_mount) (entries (p_inner sample_created))" using s(3) by contradiction
  have i: "ca_identity (ma_credential sample_mount_args) = Some p \<Longrightarrow> p \<notin> served_files [''v'']" for p
    by (simp add: sample_mount_args_sel)
  from contents_survive_remount [OF m(1) sample_mounted(4) sample_initially m(2) s(1) out sample_created_replies(1) d
      sample_volume_header(1,2) m(3) sample_mount_args_sel(1,2) i, of 2]
  show ?thesis unfolding o sample_mount_sel sample_created_replies(2) by blast
qed

section \<open>What mounting and serving leave alone\<close>

text \<open>
  C15: serving touches only its own files.  Whatever is requested, however the dispatcher and the workers interleave and
  whichever file operations fail, a mounted volume changes no file but the index, its temporary file and the data
  files, until it is unmounted and while the workers then drain the queue; so every credential that opened the volume before opens it afterwards, with the same keys.
\<close>

theorem serving_touches_only_its_files:
  assumes "run (step M) (pqfs_new n inner w) evs st" and "run (step M) (drop_pqfs M st) evs' st'"
  shows "(\<forall>q. q \<notin> served_files (backend inner) \<longrightarrow> disk (p_world st') q = disk w q) \<and>
    (settled (backend inner) (disk w) \<and> header_on_disk C (backend inner) (disk w) h \<longrightarrow>
      fst (unlock P C (backend inner) cred ((p_world st')\<lparr>faults := []\<rparr>)) = open_header P C h cred)"
proof -
  let ?w = "(p_world st')\<lparr>faults := []\<rparr>"
  have "footprint (backend inner) (disk w) (drop_pqfs M st)"
    by (rule footprint_drop [OF footprint.run_inv [OF assms(1) footprint_new]])
  then have "footprint (backend inner) (disk w) st'" by (rule footprint.run_inv [OF assms(2)])
  then have cf: "confined (backend inner) (disk w) (p_world st')" by (simp add: footprint_def)
  have "confined (backend inner) (disk w) ?w" by (rule confined_same [OF _ cf]) simp
  from confined_header [OF this] unlock_ok [of ?w "backend inner" C h P cred] cf show ?thesis
    by (auto simp: confined_def fault_free_def)
qed

theorem serving_touches_only_its_files_witness:
  "disk (p_world (drop_pqfs sample_mount sample_created)) [''v'', HEADER_FILE] = disk sample_fs_world [''v'', HEADER_FILE] \<and>
   fst (unlock sample_prims bincode_header [''v''] (UnlockPassword sample_password)
     ((p_world (drop_pqfs sample_mount sample_created))\<lparr>faults := []\<rparr>)) = Inr sample_crypto"
proof -
  have r: "run (step sample_mount) (pqfs_new 2 sample_fs sample_fs_world) [Internal] sample_created"
    using sample_created good_run_step by metis
  have b: "backend sample_fs = [''v'']" using sample_mounted(1) by (simp add: mounted_def)
  from serving_touches_only_its_files [OF r run_nil, of bincode_header sample_sealed sample_prims "UnlockPassword sample_password"]
    sample_volume_header served_files_header(1) [of "[''v'']"]
  show ?thesis by (simp add: b)
qed

text \<open>
  Mounting creates nothing unless asked to.  Where there is no volume and \<open>--init\<close> is not given the program fails
  before the file system is started and no file has changed; with a credential at hand the error says that there is no volume.
\<close>

theorem mount_needs_init:
  assumes "disk w (ma_backend args @ [HEADER_FILE]) = None" and "\<not> ma_init args"
  shows "(\<exists>e w'. pqfs_main P C CI CP n mount2 (Mount args) w = (Inl e, w') \<and> disk w' = disk w) \<and>
    (fault_free w \<and> presents (ma_credential args) u (disk w) \<longrightarrow>
      fst (pqfs_main P C CI CP n mount2 (Mount args) w) = Inl NoVolume)"
proof -
  let ?bk = "ma_backend args"
  have mt: "\<exists>e w'. mount_and_serve P C CI n mount2 (args\<lparr>ma_credential := c\<rparr>) v = (Inl e, w') \<and> disk w' = disk w \<and>
      (\<forall>i. fst (identity_file c v) = Inr i \<longrightarrow> e = NoVolume)" if v: "disk v = disk w" for v c
  proof -
    obtain i w1 where i: "identity_file c v = (i, w1)" by fastforce
    have "disk w1 = disk w" using preservesD [OF identity_file_keeps v i] .
    moreover have "\<not> fs_exists (?bk @ [''pqfs.header'']) v" using assms(1) v by (simp add: fs_exists_def HEADER_FILE_def)
    ultimately show ?thesis
      using i assms(2) by (cases i) (simp_all add: mount_and_serve_def mount_def Let_def bindE_def throw_def)
  qed
  obtain r v where r: "resolve (ma_credential args) w = (r, v)" by fastforce
  have v: "disk v = disk w" by (rule preservesD [OF resolve_keeps _ r]) simp
  have 1: "\<exists>e w'. pqfs_main P C CI CP n mount2 (Mount args) w = (Inl e, w') \<and> disk w' = disk w"
  proof (cases r)
    case (Inl e)
    with r v show ?thesis by (simp add: pqfs_main_def bindE_def)
  next
    case (Inr c)
    with r mt [OF v, of c] show ?thesis by (auto simp: pqfs_main_def bindE_def)
  qed
  have 2: "fst (pqfs_main P C CI CP n mount2 (Mount args) w) = Inl NoVolume"
    if pr: "fault_free w" "presents (ma_credential args) u (disk w)"
  proof -
    obtain i where "fst (identity_file (ma_credential args) w) = Inr i" using presents_identity [OF pr(2,1)] by (metis fst_conv)
    with mt [OF refl, of "ma_credential args"] obtain w' where
      "mount_and_serve P C CI n mount2 (args\<lparr>ma_credential := ma_credential args\<rparr>) w = (Inl NoVolume, w')" by blast
    then show ?thesis using presents_resolve [OF pr(2)] by (simp add: pqfs_main_def)
  qed
  from 1 2 show ?thesis by blast
qed

theorem mount_needs_init_witness:
  "fst (pqfs_main sample_prims bincode_header bincode_index bincode_public 2 (\<lambda>_ _ _ _. ret ()) (Mount sample_mount_args) (sample_world Map.empty)) = Inl NoVolume"
proof -
  have a: "disk (sample_world Map.empty) (ma_backend sample_mount_args @ [HEADER_FILE]) = None" "\<not> ma_init sample_mount_args"
    by (simp_all add: sample_mount_args_def)
  have "fault_free (sample_world Map.empty) \<and>
      presents (ma_credential sample_mount_args) (UnlockPassword sample_password) (disk (sample_world Map.empty))"
    by (simp add: sample_mount_args_sel(2))
  from conjunct2 [OF mount_needs_init [OF a]] this show ?thesis by (rule mp)
qed

lemma name_space_root: "aead_laws P \<Longrightarrow> mac_laws P \<Longrightarrow> name_space P cr {[]}"
  by (simp add: name_space_def aead_max_def)

text \<open>
  C26: a volume made by \<open>mount --init\<close> is mounted with only the root directory in it, and mounting it again with the
  same password, with or without \<open>--init\<close>, opens the same keys and the same root: a volume that exists is never made anew.
\<close>

theorem created_volume_mounts_again:
  assumes "aead_laws P" and "kdf_laws P" and "mac_laws P" and "codec_laws header_wf C" and "header_sized C"
    and "fault_free w" and "settled bk (disk w)" and "disk w (bk @ [HEADER_FILE]) = None" and "disk w (bk @ [INDEX_FILE]) = None"
    and "ma_backend args = bk" and "ma_init args" and "ma_credential args = \<lparr>ca_password = Some pw, ca_identity = None\<rparr>"
    and "pw \<noteq> []" and "length pw < 2 ^ 32" and "argon2_params_ok P 131072 3 1 32"
  shows "\<exists>cr inner w1 inner' w2. let root = \<lparr>ns_dir = Map.empty, ns_kind = [FUSE_ROOT_ID \<mapsto> Dir], ns_fresh = 2\<rparr> in
    mount P C CI n args w = (Inr (cr, pqfs_new n inner w1, mount_options (ma_options args)), w1) \<and> ns_of P cr inner = root \<and>
    mount P C CI n (args\<lparr>ma_init := b\<rparr>) w1 = (Inr (cr, pqfs_new n inner' w2, mount_options (ma_options args)), w2) \<and>
    ns_of P cr inner' = root \<and> (\<forall>q. q \<noteq> bk @ [HEADER_FILE] \<longrightarrow> disk w2 q = disk w q)"
proof -
  let ?root = "\<lparr>ns_dir = Map.empty, ns_kind = [FUSE_ROOT_ID \<mapsto> Dir], ns_fresh = 2\<rparr>"
  have a: "argon2_params_ok P (m_cost kdf_default) (t_cost kdf_default) (p_cost kdf_default) KEY_LEN"
    using assms(15) by (simp add: kdf_default_def)
  obtain cr v where v: "init P C pw bk w = (Inr cr, v)" "header_on_disk C bk (disk v) (header cr)"
    "open_header P C (header cr) (UnlockPassword pw) = Inr cr" "fault_free v" "\<forall>q. q \<noteq> bk @ [HEADER_FILE] \<longrightarrow> disk v q = disk w q"
    unfolding init_def using init_with_params_ok [OF assms(1-6,8,14) a] by metis
  note N = name_space_root [OF assms(1,3), of cr]
  have ix: "disk v (bk @ [INDEX_FILE]) = None" and st: "settled bk (disk v)"
    using v(5) assms(7,9) by (simp_all add: settled_def volume_files)
  obtain s w1 where s: "load P CI bk cr v = (Inr s, w1)" "ns_of P cr s = ?root" "disk w1 = disk v" "fault_free w1"
    by (rule load_fresh [OF v(4) ix N, of CI]) simp_all
  have m1: "mount P C CI n args w = (Inr (cr, pqfs_new n s w1, mount_options (ma_options args)), w1)"
    using assms(8,10-13) v(1) s(1)
    by (simp add: mount_def Let_def fs_exists_def HEADER_FILE_def identity_file_def require_password_def bindE_def ret_def)
  have pr: "presents (ma_credential (args\<lparr>ma_init := b\<rparr>)) (UnlockPassword pw) (disk w1)"
    using assms(12,13) by (simp add: presents_def)
  have h: "settled bk (disk w1)" "header_on_disk C bk (disk w1) (header cr)" "ma_backend (args\<lparr>ma_init := b\<rparr>) = bk"
    using st v(2) s(3) assms(10) by simp_all
  obtain w2 where w2: "quiet w1 w2" "mount P C CI n (args\<lparr>ma_init := b\<rparr>) w1 = bindE (load P CI bk cr) (\<lambda>inner w'.
      (Inr (cr, pqfs_new n inner w', mount_options (ma_options (args\<lparr>ma_init := b\<rparr>))), w')) w2"
    by (rule mount_opens [OF s(4) h pr v(3)])
  note q = quietD [OF w2(1)]
  have ix2: "fault_free w2" "disk w2 (bk @ [INDEX_FILE]) = None" using q ix s(3) by simp_all
  obtain s' w3 where s': "load P CI bk cr w2 = (Inr s', w3)" "ns_of P cr s' = ?root" "disk w3 = disk w2"
    by (rule load_fresh [OF ix2 N, of CI]) simp_all
  have "mount P C CI n (args\<lparr>ma_init := b\<rparr>) w1 = (Inr (cr, pqfs_new n s' w3, mount_options (ma_options args)), w3)"
    using w2(2) s'(1) by (simp add: bindE_def)
  moreover have "\<forall>q. q \<noteq> bk @ [HEADER_FILE] \<longrightarrow> disk w3 q = disk w q" using v(5) s(3) s'(3) q by simp
  ultimately show ?thesis using m1 s(2) s'(2) unfolding Let_def by blast
qed

theorem created_volume_mounts_again_witness:
  "\<exists>cr inner w1 inner' w2.
    mount sample_prims bincode_header bincode_index 2 (sample_mount_args\<lparr>ma_init := True\<rparr>) (sample_world Map.empty) =
      (Inr (cr, pqfs_new 2 inner w1, mount_options []), w1) \<and>
    mount sample_prims bincode_header bincode_index 2 (sample_mount_args\<lparr>ma_init := False\<rparr>) w1 =
      (Inr (cr, pqfs_new 2 inner' w2, mount_options []), w2) \<and>
    ns_kind (ns_of sample_prims cr inner') = [FUSE_ROOT_ID \<mapsto> Dir]"
proof -
  have a: "settled [''v''] (disk (sample_world Map.empty))" "disk (sample_world Map.empty) ([''v''] @ [HEADER_FILE]) = None"
    "disk (sample_world Map.empty) ([''v''] @ [INDEX_FILE]) = None" "ma_backend (sample_mount_args\<lparr>ma_init := True\<rparr>) = [''v'']"
    "ma_init (sample_mount_args\<lparr>ma_init := True\<rparr>)"
    "ma_credential (sample_mount_args\<lparr>ma_init := True\<rparr>) = \<lparr>ca_password = Some sample_password, ca_identity = None\<rparr>"
    "sample_password \<noteq> []" "length sample_password < 2 ^ 32" "argon2_params_ok sample_prims 131072 3 1 32"
    by (simp_all add: settled_def sample_mount_args_def sample_password_def)
  have o: "ma_options (sample_mount_args\<lparr>ma_init := True\<rparr>) = []" "sample_mount_args\<lparr>ma_init := True, ma_init := False\<rparr> = sample_mount_args\<lparr>ma_init := False\<rparr>"
    by (simp_all add: sample_mount_args_def)
  from created_volume_mounts_again [OF aead_laws_sample kdf_laws_sample mac_laws_sample bincode_header_laws bincode_header_sized sample_world_sel(5) a, of bincode_index 2 False]
  show ?thesis unfolding o Let_def by (elim exE conjE) (intro exI conjI, assumption, assumption, simp only: ns.select_convs)
qed

section \<open>A failed save\<close>

lemma save_index_fault:
  assumes "faults w = Some k # fs"
  shows "\<exists>e w'. save_index P C cr s w = (Inl e, w') \<and> disk w' = disk w"
proof -
  have f: "faults (draw_nonce w) = Some k # fs" "disk (draw_nonce w) = disk w" using assms by simp_all
  show ?thesis
  proof (cases "ser C (entries s)")
    case None
    then show ?thesis by (simp add: save_index_def bincode_serialize_def throw_def)
  next
    case (Some b)
    obtain r w1 where r: "encrypt P cr b w = (r, w1)" by fastforce
    have w1: "w1 = draw_nonce w" using r random_nonce_run [of w] by (auto simp: encrypt_def bindE_def lift_def ret_def split: sum.splits prod.splits)
    show ?thesis
      using r f by (cases r) (simp_all add: save_index_eq replace_file_def bincode_serialize_def Some bindE_def w1 fs_create_def fs_op_def)
  qed
qed

text \<open>
  C36: a save that fails is not made up for.  When there is nothing to save before and the first file operation of the save
  fails, a create answers \<open>EIO\<close>, but the file is in the
  running file system, where a lookup finds it, and a sync answers that all is well without writing the index: the file is
  not in the index on disk, and nothing marks the index as out of date.
\<close>

theorem failed_create_is_visible_and_never_saved:
  assumes "mounted P C cr N dir s" and "\<not> dirty s" and "admissible N (Create p nm mode) (ns_of P cr s)"
    and "ns_dir (ns_of P cr s) (p, to_string_lossy nm) = None" and "faults w = Some k # fs"
  shows "\<exists>s' w' a. create P C cr p nm mode s w = (ReplyError EIO, s', w') \<and> lookup P cr s' p nm = ReplyEntry TTL a 0 \<and>
    flush_reply P C cr s' (w'\<lparr>faults := []\<rparr>) = (ReplyOk, s', w'\<lparr>faults := []\<rparr>) \<and> disk w' = disk w"
proof -
  have ok: "fs_ok P cr N s" "name_space P cr N" "codec_laws entries_wf C" using assms(1) by (simp_all add: mounted_def)
  have nm: "to_string_lossy nm \<in> N" using assms(3) by (simp add: may_add_def)
  have none: "find_child P cr s p nm = None" using assms(4) ns_of_lookup [of P cr s p nm] by simp
  obtain e w1 where c: "create P C cr p nm mode s w = save_then P C cr (ReplyCreated TTL (attr_for e) 0 0 0) (with_new e s) w1"
    "disk w1 = disk w" "faults w1 = faults w" by (rule create_run [OF ok(2) nm none])
  obtain x w2 where x: "save_index P C cr (with_new e s) w1 = (Inl x, w2)" "disk w2 = disk w1"
    using save_index_fault [of w1] c(3) assms(5) by metis
  have run: "create P C cr p nm mode s w = (ReplyError EIO, with_new e s, w2)" using c(1) x(1) by (simp add: save_then_def)
  have "dirty (with_new e s) = dirty s" by (simp add: with_new_def insert_entry_def link_def Let_def split: option.split)
  then have fl: "flush_reply P C cr (with_new e s) v = (ReplyOk, with_new e s, v)" for v
    using assms(2) by (simp add: flush_reply_def flush_index_def ret_def)
  have "ns_of P cr (with_new e s) = snd (specified (Create p nm mode) (ns_of P cr s))"
    using serve_served [OF ok assms(3), of w] run by (simp add: served_def)
  then have "ns_dir (ns_of P cr (with_new e s)) (p, to_string_lossy nm) \<noteq> None" using assms(3,4) by (auto simp: spec_add_def may_add_def)
  then obtain e' where "find_child P cr (with_new e s) p nm = Some e'" using ns_of_lookup [of P cr "with_new e s" p nm] by auto
  with run fl x(2) c(2) show ?thesis by (auto simp: lookup_def)
qed

lemma load_clean: "load P C bk cr w = (Inr s, w') \<Longrightarrow> \<not> dirty s"
  by (auto simp: load_def Let_def ret_def elim!: bindE_InrE split: prod.splits)

theorem failed_create_is_visible_and_never_saved_witness:
  "\<exists>s' w' a. create sample_prims bincode_index sample_crypto 1 [97] 420 sample_fs (sample_fs_world\<lparr>faults := [Some 0]\<rparr>) = (ReplyError EIO, s', w') \<and>
    lookup sample_prims sample_crypto s' 1 [97] = ReplyEntry TTL a 0 \<and>
    flush_reply sample_prims bincode_index sample_crypto s' (w'\<lparr>faults := []\<rparr>) = (ReplyOk, s', w'\<lparr>faults := []\<rparr>)"
proof -
  have adm: "admissible sample_names (Create 1 [97] 420) (ns_of sample_prims sample_crypto sample_fs)"
    "ns_dir (ns_of sample_prims sample_crypto sample_fs) (1, to_string_lossy [97]) = None"
    by (simp_all add: sample_mounted(2) may_add_def sample_names_def FUSE_ROOT_ID_def utf8_unit_def)
  obtain s w' where "load sample_prims bincode_index [''v''] sample_crypto sample_backend = (Inr s, w')"
    by (rule load_fresh [OF _ _ sample_name_space, of sample_backend "[''v'']" bincode_index]) (auto simp: sample_names_def)
  then have cl: "\<not> dirty sample_fs" using load_clean by (simp add: sample_fs_def)
  show ?thesis
    using failed_create_is_visible_and_never_saved [OF sample_mounted(1) cl adm, of "sample_fs_world\<lparr>faults := [Some 0]\<rparr>" 0 "[]"] by auto
qed

text \<open>
  C35: removing a file can fail and still destroy it.  The data file is removed before the index is saved.  When the removal
  works and the first file operation of the save fails, the request is answered \<open>EIO\<close>; after mounting again the name is there with its old entry,
  and every read of it succeeds and returns no bytes.
\<close>

theorem failed_unlink_empties_the_file:
  assumes m: "mounted P C cr N dir s" and idx: "on_disk P C cr dir w (entries s)"
    and e: "find_child P cr s p nm = Some e" "e_kind e = File"
    and d: "disk w (data_path s (e_ino e)) = Some b" and flt: "faults w = None # Some k # fs"
  shows "\<exists>s' w' s2 w2. unlink P C cr p nm s w = (ReplyError EIO, s', w') \<and>
    load P C dir cr (w'\<lparr>faults := []\<rparr>) = (Inr s2, w2) \<and> find_child P cr s2 p nm = Some e \<and>
    (\<forall>off len. do_read P cr e (data_path s2 (e_ino e)) off len w2 = (ReplyData [], w2))"
proof -
  let ?f = "data_path s (e_ino e)" and ?s1 = "snd (remove_entry (e_ino e) s)"
    and ?s2 = "s\<lparr>dirty := False, next_ino := reload_next (entries s)\<rparr>"
  have ok: "index_ok s" and dir: "backend s = dir" using m by (simp_all add: mounted_def fs_ok_def)
  have f1: "data_path ?s1 (e_ino e) = ?f" by (simp add: data_path_def)
  define w1 where "w1 = remove_data ?f w"
  have w1: "disk w1 = (disk w)(?f := None)" "faults w1 = Some k # fs"
    using d flt by (simp_all add: w1_def remove_data_def fs_exists_def fs_remove_file_def fs_op_def)
  obtain x w' where sv: "save_index P C cr ?s1 w1 = (Inl x, w')" "disk w' = disk w1"
    using save_index_fault [OF w1(2)] by blast
  have run: "unlink P C cr p nm s w = (ReplyError EIO, ?s1, w')"
    using e f1 sv(1) by (simp add: unlink_def Let_def save_then_def w1_def)
  let ?w = "w'\<lparr>faults := []\<rparr>"
  have "on_disk P C cr dir ?w (entries s)"
    using idx dir data_path_other(2) [of s INDEX_FILE "e_ino e"] by (simp add: on_disk_def sv(2) w1(1))
  then obtain blob where blob: "disk ?w (backend s @ [INDEX_FILE]) = Some blob" "stored P C cr blob (entries s)"
    using dir by (auto simp: on_disk_def)
  obtain w2 where w2: "load P C dir cr ?w = (Inr ?s2, w2)" "quiet ?w w2"
    using reload_same [OF ok _ blob] dir by (auto simp: fault_free_def)
  have fc: "find_child P cr ?s2 p nm = Some e"
    using e(1) by (simp add: find_child_def Let_def cong: option.case_cong)
  have "disk w2 (data_path ?s2 (e_ino e)) = None"
    using quietD [OF w2(2)] sv(2) w1(1) by (simp add: data_path_def)
  then have "do_read P cr e (data_path ?s2 (e_ino e)) off len w2 = (ReplyData [], w2)" for off len
    by (simp add: do_read_def fs_exists_def)
  with run w2(1) fc show ?thesis by blast
qed

theorem failed_unlink_empties_the_file_witness:
  "\<exists>e s' w' s2 w2. e_ino e = 2 \<and>
    unlink sample_prims bincode_index sample_crypto 1 [97] (p_inner sample_created)
      (p_world sample_created\<lparr>disk := (disk (p_world sample_created))(data_path (p_inner sample_created) 2 \<mapsto> [7]), faults := [None, Some 0]\<rparr>) =
      (ReplyError EIO, s', w') \<and>
    load sample_prims bincode_index [''v''] sample_crypto (w'\<lparr>faults := []\<rparr>) = (Inr s2, w2) \<and>
    (\<forall>off len. do_read sample_prims sample_crypto e (data_path s2 2) off len w2 = (ReplyData [], w2))"
proof -
  let ?s = "p_inner sample_created"
  let ?w = "p_world sample_created\<lparr>disk := (disk (p_world sample_created))(data_path ?s 2 \<mapsto> [7]), faults := [None, Some 0]\<rparr>"
  obtain e where c: "consistent sample_mount sample_names [''v''] sample_created (\<lambda>_. [])"
    and e: "bt_get 2 (entries ?s) = Some e" "e_kind e = File"
    and idx: "on_disk sample_prims bincode_index sample_crypto [''v''] (p_world sample_created) (entries ?s)"
    by (rule sample_created)
  have m: "mounted sample_prims bincode_index sample_crypto sample_names [''v''] ?s"
    using consistentD(1) [OF c] by simp
  have dir: "backend ?s = [''v'']" using m by (simp add: mounted_def)
  have idx': "on_disk sample_prims bincode_index sample_crypto [''v''] ?w (entries ?s)"
    using idx data_path_other(2) [of ?s INDEX_FILE 2] dir by (simp add: on_disk_def)
  have "Some 2 = map_option e_ino (find_child sample_prims sample_crypto ?s 1 [97])"
    using sample_created_replies(2) ns_of_lookup [of sample_prims sample_crypto ?s 1 "[97]"] by (simp add: utf8_unit_def)
  then obtain x where x: "find_child sample_prims sample_crypto ?s 1 [97] = Some x" "e_ino x = 2"
    by (cases "find_child sample_prims sample_crypto ?s 1 [97]") auto
  have "x = e" using x e(1) m find_child_iff [of ?s sample_prims sample_crypto sample_names] by (simp add: mounted_def fs_ok_def)
  with x e have fc: "find_child sample_prims sample_crypto ?s 1 [97] = Some e" "e_kind e = File" "e_ino e = 2" by simp_all
  have "disk ?w (data_path ?s (e_ino e)) = Some [7]" "faults ?w = None # Some 0 # []" by (simp_all add: fc)
  from failed_unlink_empties_the_file [OF m idx' fc(1,2) this] show ?thesis unfolding fc(3) using fc(3) by blast
qed

end
