(* ===== verification/Listing.thy ===== *)
theory Listing
  imports Session
begin

text \<open>
  The indexes of a running file system against a plain search through its entries, and what a client sees when it reads
  a directory request by request.
\<close>

section \<open>Reference definitions\<close>

text \<open>The children of a directory, found by going through all entries.\<close>

definition scan_children :: "entry_map \<Rightarrow> u64 \<Rightarrow> entry list" where
  "scan_children m par = filter (\<lambda>e. e_ino e \<noteq> FUSE_ROOT_ID \<and> e_parent e = par) (bt_values m)"

definition scan_child :: "prims \<Rightarrow> crypto \<Rightarrow> entry_map \<Rightarrow> u64 \<Rightarrow> bytes \<Rightarrow> entry option" where
  "scan_child P cr m par nm = List.find (\<lambda>e. decrypt_filename P cr (e_name_encrypted e) = Inr nm) (scan_children m par)"

text \<open>
  A directory read to its end: each request goes on at the offset of the last entry of the reply before, until a
  reply has none.
\<close>

fun read_directory :: "(i64 \<Rightarrow> reply) \<Rightarrow> nat \<Rightarrow> i64 \<Rightarrow> dirent list" where
  "read_directory rd 0 off = []"
| "read_directory rd (Suc requests) off =
     (case rd off of
        ReplyDirectory ds \<Rightarrow> if ds = [] then [] else ds @ read_directory rd requests (fst (snd (last ds)))
      | _ \<Rightarrow> [])"

section \<open>Indexes\<close>

lemma scan_children_set:
  assumes "fs_ok P cr N s"
  shows "e \<in> set (scan_children (entries s) p) \<longleftrightarrow>
    bt_get (e_ino e) (entries s) = Some e \<and> e_ino e \<noteq> FUSE_ROOT_ID \<and> e_parent e = p"
  using bt_values_iff [OF fs_okD(4) [OF assms]] fs_okD(5) [OF assms] by (auto simp: scan_children_def)

lemma find_child_scan:
  assumes ok: "fs_ok P cr N s"
  shows "find_child P cr s p os = scan_child P cr (entries s) p (to_string_lossy os)"
proof -
  note iff = find_child_iff [OF fs_okD(1,2) [OF ok], of p os]
  show ?thesis
  proof (cases "scan_child P cr (entries s) p (to_string_lossy os)")
    case None
    have "find_child P cr s p os \<noteq> Some e" for e
      using None scan_children_set [OF ok, of e p] unfolding iff scan_child_def find_None_iff by blast
    with None show ?thesis by (cases "find_child P cr s p os") auto
  next
    case (Some e)
    then have "e \<in> set (scan_children (entries s) p)" "decrypt_filename P cr (e_name_encrypted e) = Inr (to_string_lossy os)"
      by (auto simp: scan_child_def find_Some_iff)
    with scan_children_set [OF ok] Some show ?thesis unfolding Some iff by blast
  qed
qed

lemma strictly_sorted_inos:
  assumes "fs_ok P cr N s"
  shows "sorted_wrt (<) (map e_ino (scan_children (entries s) p))"
proof -
  have "e_ino (snd x) = fst x" if "x \<in> set (entries s)" for x
    using fs_okD(4,5) [OF assms] bt.pairs_get [of "entries s"] that by (cases x) fastforce
  then have "map e_ino (bt_values (entries s)) = map fst (entries s)" by (simp add: bt_values_def)
  then have "sorted_wrt (\<lambda>x y. e_ino x < e_ino y) (bt_values (entries s))"
    using fs_okD(4) [OF assms] by (metis bt_inv_def sorted_wrt_map)
  then show ?thesis by (simp add: scan_children_def sorted_wrt_map sorted_wrt_filter)
qed

lemma map_filter_inverse: "(\<And>x. x \<in> set xs \<Longrightarrow> f (g x) = Some x) \<Longrightarrow> List.map_filter f (map g xs) = xs"
  by (induction xs) (simp_all add: List.map_filter_def)

lemma child_inodes_scan:
  assumes ok: "fs_ok P cr N s"
  shows "child_inodes s p = scan_children (entries s) p"
proof -
  let ?c = "scan_children (entries s) p"
  have k: "sorted_wrt (<) (kids s p)" "set (kids s p) = {i. \<exists>h. (i, p, h) \<in> links s}"
    using fs_okD(1) [OF ok] by (simp_all add: index_ok_def indexes_def bs_inv_def)
  have "i \<in> set (map e_ino ?c) \<longleftrightarrow> (\<exists>e. bt_get i (entries s) = Some e \<and> i \<noteq> FUSE_ROOT_ID \<and> e_parent e = p)" for i
    using scan_children_set [OF ok, of _ p] fs_okD(5) [OF ok, of i] by (auto simp del: set_filter)
  then have "set (map e_ino ?c) = set (kids s p)" unfolding k(2) links_iff by blast
  then have kids: "kids s p = map e_ino ?c"
    by (intro strict_sorted_equal [OF strictly_sorted_inos [OF ok] k(1)]) simp
  have "child_inodes s p = List.map_filter (\<lambda>i. bt_get i (entries s)) (kids s p)"
    by (simp add: child_inodes_def kids_def)
  also have "\<dots> = ?c"
    unfolding kids by (rule map_filter_inverse) (simp add: scan_children_set [OF ok])
  finally show ?thesis .
qed

section \<open>Reading a directory\<close>

lemma add_dirents_prefix:
  "\<exists>k \<le> length ds. add_dirents full sent ds = sent @ take k ds \<and> (ds \<noteq> [] \<longrightarrow> \<not> full sent (hd ds) \<longrightarrow> 0 < k)"
proof (induction ds arbitrary: sent)
  case (Cons d ds)
  show ?case
  proof (cases "full sent d")
    case False
    obtain k where "k \<le> length ds" "add_dirents full (sent @ [d]) ds = (sent @ [d]) @ take k ds" using Cons by blast
    then show ?thesis using False by (intro exI [of _ "Suc k"]) simp
  qed (intro exI [of _ 0], simp)
qed simp

lemma numbered_length [simp]: "length (numbered l) = length l"
  by (simp add: numbered_def)

lemma numbered_offset: "i < length l \<Longrightarrow> fst (snd (numbered l ! i)) = of_nat (i + 1)"
  by (simp add: numbered_def nth_enumerate_eq case_prod_beta)

text \<open>Every reply takes at least one entry, so the requests run through the whole list.\<close>

lemma read_directory_all:
  assumes rd: "\<And>off. rd off = ReplyDirectory (add_dirents full [] (drop (unat off) (numbered l)))"
    and full: "\<And>d. \<not> full [] d" and len: "length l < 2 ^ 63"
  shows "n \<le> length l \<Longrightarrow> length l - n < requests \<Longrightarrow> read_directory rd requests (of_nat n) = drop n (numbered l)"
proof (induction requests arbitrary: n)
  case (Suc requests)
  let ?ds = "drop n (numbered l)"
  have un: "unat (of_nat m :: i64) = m" if "m \<le> length l" for m
  proof -
    have "m < 2 ^ 64" using that len by simp
    then show ?thesis by (simp add: unat_of_nat)
  qed
  obtain k where k: "k \<le> length ?ds" "add_dirents full [] ?ds = take k ?ds" "?ds \<noteq> [] \<longrightarrow> 0 < k"
    using add_dirents_prefix [of ?ds full "[]"] full by auto
  have r: "rd (of_nat n) = ReplyDirectory (take k ?ds)" using rd un [OF Suc.prems(1)] k(2) by simp
  show ?case
  proof (cases "?ds = []")
    case True
    then show ?thesis using r by simp
  next
    case False
    then have k0: "0 < k" "n + k \<le> length l" using k by auto
    have "last (take k ?ds) = numbered l ! (n + k - 1)"
      using k0 k(1) False by (simp add: last_conv_nth)
    then have o: "fst (snd (last (take k ?ds))) = of_nat (n + k)" using numbered_offset [of "n + k - 1" l] k0 by simp
    have "read_directory rd requests (of_nat (n + k)) = drop (n + k) (numbered l)"
      by (rule Suc.IH) (use k0 Suc.prems in linarith)+
    then have "read_directory rd (Suc requests) (of_nat n) = take k ?ds @ drop k ?ds"
      using r o k0 False k(1) by (simp add: add.commute)
    then show ?thesis by (simp only: append_take_drop_id)
  qed
qed simp

lemma child_names_all:
  assumes "\<And>e. e \<in> set es \<Longrightarrow> \<exists>nm. decrypt_filename P cr (e_name_encrypted e) = Inr nm"
  shows "\<exists>l. child_names P cr es = Some l \<and> map fst l = map e_ino es \<and>
    (\<forall>i k nm. (i, k, nm) \<in> set l \<longleftrightarrow> (\<exists>e \<in> set es. i = e_ino e \<and> k = file_type (e_kind e) \<and> decrypt_filename P cr (e_name_encrypted e) = Inr nm))"
  using assms
proof (induction es)
  case (Cons e es)
  obtain nm where nm: "decrypt_filename P cr (e_name_encrypted e) = Inr nm" using Cons.prems by (meson list.set_intros(1))
  obtain l where l: "child_names P cr es = Some l" "map fst l = map e_ino es"
    "\<And>i k nm. (i, k, nm) \<in> set l \<longleftrightarrow> (\<exists>e \<in> set es. i = e_ino e \<and> k = file_type (e_kind e) \<and> decrypt_filename P cr (e_name_encrypted e) = Inr nm)"
    using Cons by (meson list.set_intros(2))
  show ?case using nm l by (intro exI [of _ "(e_ino e, file_type (e_kind e), nm) # l"]) auto
qed simp

lemma listed_children:
  assumes ok: "fs_ok P cr N s"
  obtains l where "child_names P cr (child_inodes s p) = Some l" and "sorted_wrt (<) (map fst l)"
    and "\<forall>i k nm. (i, k, nm) \<in> set l \<longleftrightarrow> ns_dir (ns_of P cr s) (p, nm) = Some i \<and> map_option file_type (ns_kind (ns_of P cr s) i) = Some k"
    and "length l \<le> length (entries s)"
proof -
  let ?c = "scan_children (entries s) p"
  note set = scan_children_set [OF ok, of _ p]
  have "\<exists>nm. decrypt_filename P cr (e_name_encrypted e) = Inr nm" if "e \<in> set ?c" for e
    using that fs_okD(2) [OF ok] unfolding set names_ok_def by blast
  from child_names_all [OF this] obtain l where l: "child_names P cr ?c = Some l" "map fst l = map e_ino ?c"
    "\<And>i k nm. (i, k, nm) \<in> set l \<longleftrightarrow> (\<exists>e \<in> set ?c. i = e_ino e \<and> k = file_type (e_kind e) \<and> decrypt_filename P cr (e_name_encrypted e) = Inr nm)"
    by (metis (no_types))
  have "(i, k, nm) \<in> set l \<longleftrightarrow> ns_dir (ns_of P cr s) (p, nm) = Some i \<and> map_option file_type (ns_kind (ns_of P cr s) i) = Some k" for i k nm
    using fs_okD(5) [OF ok, of i] unfolding l(3) ns_of_dir_iff [OF fs_okD(1,2) [OF ok]] ns_of_sel named_def Bex_def set by auto
  moreover have "length l \<le> length (entries s)"
    using arg_cong [OF l(2), of length] length_filter_le [of _ "bt_values (entries s)"] by (simp add: scan_children_def bt_values_def)
  ultimately show thesis using that [of l] l(1,2) strictly_sorted_inos [OF ok, of p] child_inodes_scan [OF ok] by simp
qed

section \<open>Properties\<close>

text \<open>
  C19: the indexes are exact.  In every interleaving the hashed lookup of a name and the list of a directory's children are what
  a search through all entries gives, and building the indexes anew from the entries changes nothing.
\<close>

theorem indexes_equal_a_search:
  assumes "mounted (m_prims M) (m_codec M) (m_crypto M) N dir inner" and "fault_free w" and "contains_initially M inner w c"
    and "run (good_step M N) (pqfs_new n inner w) evs st"
  shows "find_child (m_prims M) (m_crypto M) (p_inner st) par name =
      scan_child (m_prims M) (m_crypto M) (entries (p_inner st)) par (to_string_lossy name) \<and>
    child_inodes (p_inner st) par = scan_children (entries (p_inner st)) par \<and>
    rebuild_indexes (p_inner st) = p_inner st"
proof -
  have ok: "fs_ok (m_prims M) (m_crypto M) N (p_inner st)"
    using consistentD(8) [OF contents.run_sim [OF assms(4) consistent_new [OF assms(1-3)]]] .
  have "rebuild_indexes (p_inner st) = p_inner st"
    using rebuild_indexes_id [OF fs_okD(1) [OF ok], of "p_inner st"] by (intro pqfs_inner.equality) simp_all
  with find_child_scan [OF ok] child_inodes_scan [OF ok] show ?thesis by simp
qed

theorem indexes_equal_a_search_witness:
  "\<exists>e. find_child sample_prims sample_crypto (p_inner sample_created) 1 [97] = Some e \<and>
     scan_child sample_prims sample_crypto (entries (p_inner sample_created)) 1 [97] = Some e \<and>
     rebuild_indexes (p_inner sample_created) = p_inner sample_created"
proof -
  have r: "run (good_step sample_mount sample_names) (pqfs_new 2 sample_fs sample_fs_world) [Internal] sample_created"
    using sample_created by metis
  have m: "mounted (m_prims sample_mount) (m_codec sample_mount) (m_crypto sample_mount) sample_names [''v''] sample_fs"
    using sample_mounted(1) by simp
  have t: "to_string_lossy [97] = [97]" by (simp add: utf8_unit_def)
  have "ns_dir (ns_of sample_prims sample_crypto (p_inner sample_created)) (1, to_string_lossy [97]) = Some 2"
    unfolding t by (simp add: sample_created_replies(2))
  then obtain e where "find_child sample_prims sample_crypto (p_inner sample_created) 1 [97] = Some e"
    unfolding ns_of_lookup by blast
  with indexes_equal_a_search [OF m sample_mounted(4) sample_initially r, of 1 "[97]", unfolded t sample_mount_sel] show ?thesis by metis
qed

text \<open>
  C20: listing a directory is complete.  Reading a directory piece by piece, however few entries fit a reply, ends and returns
  the entries \<open>.\<close> and \<open>..\<close> and then each child once: its inode, its kind and its name as the name space has them, in
  the order of the inodes, and with ascending offsets.
\<close>

theorem listing_is_complete:
  assumes "mounted P C cr N dir s" and "bt_get ino (entries s) = Some d" and "e_kind d = Dir" and "\<And>x. \<not> full [] x"
    and "length (entries s) + 2 < 2 ^ 63" and "length (entries s) + 2 < requests"
  shows "\<exists>cs. read_directory (readdir P cr full s ino) requests 0 =
      numbered ((ino, Directory, ascii ''.'') # (e_parent d, Directory, ascii ''..'') # cs) \<and>
    sorted_wrt (<) (map fst cs) \<and>
    (\<forall>i k nm. (i, k, nm) \<in> set cs \<longleftrightarrow>
      ns_dir (ns_of P cr s) (ino, nm) = Some i \<and> map_option file_type (ns_kind (ns_of P cr s) i) = Some k)"
proof -
  have ok: "fs_ok P cr N s" using assms(1) by (simp add: mounted_def)
  obtain l where l: "child_names P cr (child_inodes s ino) = Some l" "sorted_wrt (<) (map fst l)"
    "\<forall>i k nm. (i, k, nm) \<in> set l \<longleftrightarrow> ns_dir (ns_of P cr s) (ino, nm) = Some i \<and> map_option file_type (ns_kind (ns_of P cr s) i) = Some k"
    "length l \<le> length (entries s)" by (rule listed_children [OF ok, of ino])
  let ?l = "(ino, Directory, ascii ''.'') # (e_parent d, Directory, ascii ''..'') # l"
  have "readdir P cr full s ino off = ReplyDirectory (add_dirents full [] (drop (unat off) (numbered ?l)))" for off
    using assms(2,3) l(1) by (simp add: readdir_def Let_def)
  from read_directory_all [OF this assms(4), of 0 requests] assms(5,6) l(4)
  have "read_directory (readdir P cr full s ino) requests 0 = numbered ?l" by simp
  with l(2,3) show ?thesis by blast
qed

theorem listing_is_complete_witness:
  "\<exists>p. read_directory (readdir sample_prims sample_crypto (\<lambda>sent d. sent \<noteq> []) (p_inner sample_created) 1) 10 0 =
     [(1, 1, Directory, ascii ''.''), (p, 2, Directory, ascii ''..''), (2, 3, RegularFile, [97])]"
proof -
  let ?s = "p_inner sample_created" and ?ns = "ns_of sample_prims sample_crypto (p_inner sample_created)"
  obtain e where c: "consistent sample_mount sample_names [''v''] sample_created (\<lambda>_. [])"
    "bt_get 2 (entries ?s) = Some e" "e_kind e = File" using sample_created by metis
  have m: "mounted sample_prims bincode_index sample_crypto sample_names [''v''] ?s" using consistentD(1) [OF c(1)] by simp
  then have ok: "fs_ok sample_prims sample_crypto sample_names ?s" by (simp add: mounted_def)
  obtain root where root: "bt_get 1 (entries ?s) = Some root" "e_kind root = Dir"
    using tree_ok_root [OF fs_okD(3) [OF ok]] by (auto simp: FUSE_ROOT_ID_def)
  have "bt_get i (entries ?s) \<noteq> None \<longleftrightarrow> i \<in> {1, 2}" for i
    using arg_cong [OF sample_created_replies(3), of "\<lambda>f. f i"] by (auto split: if_splits)
  then have "fst ` set (entries ?s) = {1, 2}" by (auto simp: bt_get_def map_of_eq_None_iff)
  moreover have "distinct (map fst (entries ?s))" using fs_okD(4) [OF ok] by (metis bt_inv_def strict_sorted_iff)
  ultimately have two: "length (entries ?s) = 2" using distinct_card [of "map fst (entries ?s)"] by simp
  have kind: "map_option file_type (ns_kind ?ns 2) = Some RegularFile" using c(2,3) by (simp add: file_type_def)
  obtain cs where cs: "read_directory (readdir sample_prims sample_crypto (\<lambda>sent d. sent \<noteq> []) ?s 1) 10 0 =
      numbered ((1, Directory, ascii ''.'') # (e_parent root, Directory, ascii ''..'') # cs)" "sorted_wrt (<) (map fst cs)"
    "\<forall>i k nm. (i, k, nm) \<in> set cs \<longleftrightarrow> ns_dir ?ns (1, nm) = Some i \<and> map_option file_type (ns_kind ?ns i) = Some k"
    using listing_is_complete [OF m root, of "\<lambda>sent d. sent \<noteq> []" 10] two by auto
  have "set cs = {(2, RegularFile, [97])}" using cs(3) kind by (auto simp: sample_created_replies(2) split: if_splits)
  moreover have "distinct cs" using cs(2) by (metis distinct_map strict_sorted_iff)
  ultimately have "length cs = 1" using distinct_card [of cs] by simp
  with \<open>set cs = _\<close> have "cs = [(2, RegularFile, [97])]" by (auto simp: length_Suc_conv)
  then show ?thesis using cs(1) by (simp add: numbered_def)
qed

text \<open>
  C21: the metadata stays well formed.  In every interleaving the entries are sorted by inode, each is filed under its own inode,
  below the next one to be given out, its parent exists and is a directory, its name hash has 32 bytes and is the hash
  of the name that its encrypted name decrypts to; and a file no worker is changing has a representable size and, unless
  it is empty, a content key of 32 bytes.
\<close>

theorem metadata_stays_well_formed:
  assumes "mounted (m_prims M) (m_codec M) (m_crypto M) N dir inner" and "fault_free w" and "contains_initially M inner w c"
    and "run (good_step M N) (pqfs_new n inner w) evs st"
  shows "sorted_wrt (<) (map fst (entries (p_inner st))) \<and>
    (\<forall>i e. bt_get i (entries (p_inner st)) = Some e \<longrightarrow>
      e_ino e = i \<and> i < next_ino (p_inner st) \<and> length (e_name_hash e) = 32 \<and>
      (\<exists>d. bt_get (e_parent e) (entries (p_inner st)) = Some d \<and> e_kind d = Dir) \<and>
      (\<exists>nm \<in> N. decrypt_filename (m_prims M) (m_crypto M) (e_name_encrypted e) = Inr nm \<and>
        e_name_hash e = hash_filename (m_prims M) (m_crypto M) nm) \<and>
      (e_kind e = File \<and> holders True i st = 0 \<longrightarrow> unat (e_size e) \<le> max_size \<and>
        (e_size e \<noteq> 0 \<longrightarrow> (\<exists>k. decrypt_content_key (m_prims M) (m_crypto M) (e_content_key e) = Inr k \<and> length k = 32))))"
proof -
  have con: "consistent M N dir st (foldl changed c evs)"
    by (rule contents.run_sim [OF assms(4) consistent_new [OF assms(1-3)]])
  note ok = consistentD(8) [OF con]
  have P: "mac_laws (m_prims M)" using consistentD(9) [OF con] by (simp add: name_space_def)
  have rest: "unat (e_size e) \<le> max_size \<and>
      (e_size e \<noteq> 0 \<longrightarrow> (\<exists>k. decrypt_content_key (m_prims M) (m_crypto M) (e_content_key e) = Inr k \<and> length k = 32))"
    if e: "bt_get i (entries (p_inner st)) = Some e" "e_kind e = File" "holders True i st = 0" for i e
  proof -
    note car = no_writer_settled [OF con e(3,1,2)]
    have "unat (e_size e) = length (foldl changed c evs i)" "length (foldl changed c evs i) \<le> max_size"
      using car carriesD [OF car] by (simp_all add: carries_def)
    moreover have "\<exists>k. decrypt_content_key (m_prims M) (m_crypto M) (e_content_key e) = Inr k \<and> length k = 32" if "e_size e \<noteq> 0"
    proof -
      have "foldl changed c evs i \<noteq> []" using car that by (auto simp: carries_def unat_eq_zero)
      then obtain k where "decrypt_content_key (m_prims M) (m_crypto M) (e_content_key e) = Inr k"
        using car by (auto simp: carries_def split: if_splits)
      with decrypt_content_key_nonempty [OF this] show ?thesis by blast
    qed
    ultimately show ?thesis by simp
  qed
  show ?thesis
  proof (intro conjI allI impI)
    show "sorted_wrt (<) (map fst (entries (p_inner st)))" using fs_okD(4) [OF ok] by (simp add: bt_inv_def)
    fix i e assume e: "bt_get i (entries (p_inner st)) = Some e"
    show "e_ino e = i" "i < next_ino (p_inner st)" using fs_okD(5,6) [OF ok e] .
    show "\<exists>d. bt_get (e_parent e) (entries (p_inner st)) = Some d \<and> e_kind d = Dir" by (rule tree_ok_parent [OF fs_okD(3) [OF ok] e])
    show nm: "\<exists>nm \<in> N. decrypt_filename (m_prims M) (m_crypto M) (e_name_encrypted e) = Inr nm \<and> e_name_hash e = hash_filename (m_prims M) (m_crypto M) nm"
      using fs_okD(2) [OF ok] e by (auto simp: names_ok_def)
    from nm show "length (e_name_hash e) = 32" using length_hash_filename [OF P] by metis
  qed (use rest in blast)+
qed

theorem metadata_stays_well_formed_witness:
  "\<exists>e d. bt_get 2 (entries (p_inner sample_created)) = Some e \<and> e_ino e = 2 \<and> length (e_name_hash e) = 32 \<and>
     bt_get (e_parent e) (entries (p_inner sample_created)) = Some d \<and> e_kind d = Dir"
proof -
  obtain e where r: "run (good_step sample_mount sample_names) (pqfs_new 2 sample_fs sample_fs_world) [Internal] sample_created"
    "bt_get 2 (entries (p_inner sample_created)) = Some e" using sample_created by metis
  have m: "mounted (m_prims sample_mount) (m_codec sample_mount) (m_crypto sample_mount) sample_names [''v''] sample_fs"
    using sample_mounted(1) by simp
  from conjunct2 [OF metadata_stays_well_formed [OF m sample_mounted(4) sample_initially r(1)], THEN spec, THEN spec, THEN mp, OF r(2)] r(2)
  show ?thesis by blast
qed

end
