(* ===== verification/Interference.thy ===== *)
theory Interference
  imports Listing
begin

text \<open>
  Two processes on one backend directory: a command that rewrites the header (\<open>write_header\<close> in \<open>crypto/volume.rs\<close>) and a
  mount that saves its index (\<open>save_index\<close> in \<open>fs/inner.rs\<close>), their file operations interleaved by a schedule.  Nothing in
  the program keeps the two apart, and both write through \<open>pqfs.tmp\<close>.
\<close>

section \<open>File operations one by one\<close>

definition in_sequence :: "unit io list \<Rightarrow> unit io" where
  "in_sequence ms = foldr (\<lambda>m k. bindE m (\<lambda>_. k)) ms (ret ())"

text \<open>What \<open>write_header\<close> and \<open>save_index\<close> do to the files, once the new contents are made.\<close>

definition header_steps :: "path \<Rightarrow> bytes \<Rightarrow> unit io list" where
  "header_steps back data =
     (let p = back @ [HEADER_FILE]; tmp = with_extension p ''tmp'' in
      [fs_create tmp, fs_write_all_at tmp 0 data, fs_sync_all tmp, fs_rename tmp p, fs_sync_dir back])"

definition index_steps :: "path \<Rightarrow> bytes \<Rightarrow> unit io list" where
  "index_steps back ciphertext =
     (let index_path = back @ [INDEX_FILE]; tmp = with_extension index_path ''tmp'' in
      [fs_create tmp, fs_write_all_at tmp 0 ciphertext, fs_sync_all tmp, fs_rename tmp index_path, fs_sync_dir back])"

lemma write_header_steps:
  "write_header P C back h mk =
     bindE (lift (seal_header P C h mk)) (\<lambda>h'.
     bindE (lift (bincode_serialize C h')) (\<lambda>data.
     bindE (in_sequence (header_steps back data)) (\<lambda>_. ret h')))"
  by (simp add: write_header_def header_steps_def in_sequence_def Let_def bindE_assoc)

lemma save_index_steps:
  "save_index P C cr s =
     bindE (lift (bincode_serialize C (entries s))) (\<lambda>plaintext.
     bindE (encrypt P cr plaintext) (\<lambda>ciphertext.
     bindE (in_sequence (index_steps (backend s) ciphertext)) (\<lambda>_. ret (s\<lparr>dirty := False\<rparr>))))"
  by (simp add: save_index_def index_steps_def in_sequence_def Let_def bindE_assoc)

text \<open>
  Two processes on one backend.  A schedule says which one does its next file operation; a process whose operation
  fails stops there.  The result of each is \<open>None\<close> while it is under way.
\<close>

record process =
  todo :: "unit io list"
  failed :: bool

definition finished :: "process \<Rightarrow> bool" where
  "finished p \<longleftrightarrow> todo p = [] \<and> \<not> failed p"

definition advance_process :: "process \<Rightarrow> world \<Rightarrow> process \<times> world" where
  "advance_process p w =
     (case todo p of
        [] \<Rightarrow> (p, w)
      | m # ms \<Rightarrow> (case m w of
          (Inr _, w') \<Rightarrow> (p\<lparr>todo := ms\<rparr>, w')
        | (Inl _, w') \<Rightarrow> (p\<lparr>todo := [], failed := True\<rparr>, w')))"

fun two_processes :: "bool list \<Rightarrow> process \<Rightarrow> process \<Rightarrow> world \<Rightarrow> process \<times> process \<times> world" where
  "two_processes [] p q w = (p, q, w)"
| "two_processes (True # sched) p q w = (case advance_process p w of (p', w') \<Rightarrow> two_processes sched p' q w')"
| "two_processes (False # sched) p q w = (case advance_process q w of (q', w') \<Rightarrow> two_processes sched p q' w')"

text \<open>A process that is alone does what the code run in one piece does.\<close>

lemma alone:
  "two_processes (replicate (length ms) True) \<lparr>todo = ms, failed = False\<rparr> q w =
     (case in_sequence ms w of (r, w') \<Rightarrow> (\<lparr>todo = [], failed = (r \<noteq> Inr ())\<rparr>, q, w'))"
proof (induction ms arbitrary: w)
  case Nil
  then show ?case by (simp add: in_sequence_def ret_def)
next
  case (Cons m ms)
  have stop: "two_processes (replicate k True) \<lparr>todo = [], failed = b\<rparr> q v = (\<lparr>todo = [], failed = b\<rparr>, q, v)" for k b v
    by (induction k) (simp_all add: advance_process_def)
  show ?case
    by (cases "m w"; cases "fst (m w)") (use Cons in \<open>simp_all add: advance_process_def in_sequence_def bindE_def stop\<close>)
qed

lemma steps_tmp:
  "header_steps bk data = (let tmp = bk @ [''pqfs.tmp''] in
     [fs_create tmp, fs_write_all_at tmp 0 data, fs_sync_all tmp, fs_rename tmp (bk @ [HEADER_FILE]), fs_sync_dir bk])"
  "index_steps bk data = (let tmp = bk @ [''pqfs.tmp''] in
     [fs_create tmp, fs_write_all_at tmp 0 data, fs_sync_all tmp, fs_rename tmp (bk @ [INDEX_FILE]), fs_sync_dir bk])"
  by (simp_all add: header_steps_def index_steps_def with_extension_header Let_def)

lemma fs_rename_absent: "disk w a = None \<Longrightarrow> fs_rename a b w = (Inl IoError, tick w)"
  by (auto simp: fs_rename_def fs_op_def split: list.splits option.splits)

definition start :: "unit io list \<Rightarrow> process" where
  "start ms = \<lparr>todo = ms, failed = False\<rparr>"

lemma process_sel [simp]: "todo (start ms) = ms" "failed (start ms) = False"
  by (simp_all add: start_def)

text \<open>The header is written in full, then the index is, and then the header's process goes on.\<close>

definition collision :: "bool list" where
  "collision = replicate 3 True @ replicate 3 False @ replicate 2 True @ [False]"

text \<open>
  C33: an update of the header and a save of the index that overlap can destroy the header.  Both write \<open>pqfs.tmp\<close>: when
  the index is written between the header's write and its rename, the command that changes the slots reports success, the
  header file holds the encrypted index, the slots of the volume are gone and nobody can unlock it.
\<close>

theorem header_and_index_saves_collide:
  assumes w: "fault_free w" "settled bk (disk w)"
    and ct: "\<And>h. bincode_deserialize C ct = Inr h \<Longrightarrow> version h \<noteq> HEADER_VERSION"
  shows "\<exists>p q w'. two_processes collision (start (header_steps bk data)) (start (index_steps bk ct)) w = (p, q, w') \<and>
    finished p \<and> failed q \<and>
    disk w' = (disk w)(bk @ [''pqfs.tmp''] := None, bk @ [HEADER_FILE] \<mapsto> ct) \<and>
    (\<forall>credential. \<exists>e. fst (unlock P C bk credential w') = Inl e)"
proof -
  let ?tmp = "bk @ [''pqfs.tmp'']" and ?hd = "bk @ [HEADER_FILE]"
  define d where "d = (disk w)(?tmp := None, ?hd \<mapsto> ct)"
  have ne: "?hd \<noteq> ?tmp" by (simp add: HEADER_FILE_def)
  obtain p q w' where run: "two_processes collision (start (header_steps bk data)) (start (index_steps bk ct)) w = (p, q, w')"
    by (metis prod_cases3)
  have eff: "finished p \<and> failed q \<and> disk w' = d \<and> fault_free w'"
    using run w(1) ne
    unfolding steps_tmp Let_def
    by (auto simp: collision_def numeral_eq_Suc advance_process_def fs_ok fs_ok_present fs_rename_absent finished_def d_def)
  have "settled bk d" using w(2) by (simp add: d_def settled_def volume_files)
  then have rc: "recover bk w' = (Inr (), w')" using eff by simp
  have rd: "\<exists>e. fst (read_header C bk w') = Inl e"
    using eff ct rc by (cases "bincode_deserialize C ct")
      (auto simp: read_header_def bindE_def fs_ok_present d_def throw_def)
  then have "\<exists>e. fst (unlock P C bk credential w') = Inl e" for credential
    by (auto simp: unlock_def bindE_def split: prod.splits sum.splits)
  with run eff show ?thesis by (auto simp: d_def)
qed

theorem header_and_index_saves_collide_witness:
  "\<exists>p q w'. two_processes collision (start (header_steps [''v''] (put_header sample_sealed))) (start (index_steps [''v''] [1, 2, 3]))
      sample_backend = (p, q, w') \<and>
    finished p \<and> failed q \<and>
    disk w' = (disk sample_backend)([''v''] @ [''pqfs.tmp''] := None, [''v''] @ [HEADER_FILE] \<mapsto> [1, 2, 3]) \<and>
    (\<forall>credential. \<exists>e. fst (unlock sample_prims bincode_header [''v''] credential w') = Inl e)"
proof (rule header_and_index_saves_collide)
  show "fault_free sample_backend" "settled [''v''] (disk sample_backend)"
    by (simp_all add: sample_backend_def settled_def volume_files)
  have "bincode_deserialize bincode_header [1, 2, 3] = Inl DeserializeFailed" by code_simp
  then show "bincode_deserialize bincode_header [1, 2, 3] = Inr h \<Longrightarrow> version h \<noteq> HEADER_VERSION" for h by simp
qed

end
