(* ===== verification/Acknowledgement.thy ===== *)
theory Acknowledgement
  imports Coherence
begin

text \<open>
  What the answer to a write promises.  One request is followed from its arrival to its answer, whatever else happens and
  whichever file operations fail; what its file operation did to the data file is then read off the block layer.
\<close>

section \<open>Success is independent of the faults that did not happen\<close>

text \<open>
  An operation is strict when it succeeds only if none of its file operations failed: it then does the same without any
  faults planned.
\<close>

definition calm :: "world \<Rightarrow> world" where
  "calm w = w\<lparr>faults := []\<rparr>"

definition strict :: "(world \<Rightarrow> ('e + 'a) \<times> world) \<Rightarrow> bool" where
  "strict m \<longleftrightarrow> (\<forall>w x w'. m w = (Inr x, w') \<longrightarrow> m (calm w) = (Inr x, calm w'))"

named_theorems strict_intros

lemma calm_sel [simp]:
  "disk (calm w) = disk w" "tape (calm w) = tape w" "faults (calm w) = []" "calm (tick w) = calm w" "tick (calm w) = calm w"
  "calm (w\<lparr>disk := d\<rparr>) = calm w\<lparr>disk := d\<rparr>" "calm (w\<lparr>tape := t\<rparr>) = calm w\<lparr>tape := t\<rparr>" "fault_free (calm w)"
  by (simp_all add: calm_def tick_def fault_free_def)

lemma strict_pure [strict_intros]: "strict (ret x)" "strict (lift r)" "strict (fill_bytes n)" "strict random_nonce"
  by (simp_all add: strict_def ret_def lift_def fill_bytes_def random_nonce_def)

lemma strict_bindE [strict_intros]: "strict m \<Longrightarrow> (\<And>x. strict (f x)) \<Longrightarrow> strict (bindE m f)"
  unfolding strict_def by (auto simp: bindE_def split: prod.splits sum.splits)

lemma strict_if [strict_intros]: "strict m \<Longrightarrow> strict m' \<Longrightarrow> strict (if b then m else m')"
  by simp

lemma strict_let [strict_intros]: "strict (f x) \<Longrightarrow> strict (Let x f)"
  by simp

lemma strict_fs_op [strict_intros]:
  assumes "\<And>k w x w'. f (Some k) w \<noteq> (Inr x, w')" and "strict (f None)"
  shows "strict (fs_op f)"
  unfolding strict_def
proof (intro allI impI)
  fix w x w' assume run: "fs_op f w = (Inr x, w')"
  then have "f None (tick w) = (Inr x, w')"
    using assms(1) by (cases "case faults w of [] \<Rightarrow> None | x # _ \<Rightarrow> x") (auto simp: fs_op_def)
  with assms(2) have "f None (calm (tick w)) = (Inr x, calm w')" unfolding strict_def by blast
  then show "fs_op f (calm w) = (Inr x, calm w')" by (simp add: fs_op_def)
qed

lemma strict_file_ops [strict_intros]:
  "strict (fs_open_rw p)" "strict (fs_read_exact_at p off n)" "strict (fs_write_all_at p off ys)" "strict (fs_set_len p sz)"
  unfolding fs_open_rw_def fs_read_exact_at_def fs_write_all_at_def fs_set_len_def
  by (intro strict_fs_op; auto simp: strict_def split: option.splits if_splits)+

lemma strict_blocks [strict_intros]:
  "strict (read_block P key f sz i)" "strict (write_block P key f i b)"
  unfolding read_block_def write_block_def encrypt_block_def by (intro strict_intros)+

lemma strict_write_blocks [strict_intros]: "strict (write_blocks P key f sz new_size old_blocks off data ixs)"
  by (induction ixs) (auto intro!: strict_intros)

lemma strict_write_range: "strict (write_range P key f sz off data)"
  unfolding write_range_def by (intro strict_intros)

lemma strict_ensure_content_key: "strict (ensure_content_key P cr e)"
proof -
  have "strict (bindE random_key (encrypt P cr))" unfolding random_key_def encrypt_def by (intro strict_intros)
  then show ?thesis by (auto simp: strict_def ensure_content_key_def split: prod.splits sum.splits)
qed

lemma strict_do_write_data: "strict (do_write_data P cr e f off data)"
  using strict_ensure_content_key [of P cr e] strict_write_range [of P _ f "e_size e" "offset_or_zero off" data]
  unfolding strict_def do_write_data_def by (fastforce split: prod.splits sum.splits)

text \<open>A write that reports success has written the bytes, whatever was bound to fail later.\<close>

lemma successful_write_carries:
  assumes run: "do_write_data P cr e f off data w = (Inr r, w')"
    and c: "carries P cr (calm w) f (e_content_key e) (e_size e) bs"
    and fits: "length bs \<le> max_size" "unat (offset_or_zero off) + length data \<le> max_size"
  shows "carries P cr (calm w') f (fst r) (snd r) (overwrite (unat (offset_or_zero off)) data bs)"
proof -
  have "do_write_data P cr e f off data (calm w) = (Inr r, calm w')" using strict_do_write_data run unfolding strict_def by blast
  moreover obtain ck sz v where "do_write_data P cr e f off data (calm w) = (Inr (ck, sz), v)"
    "carries P cr v f ck sz (overwrite (unat (offset_or_zero off)) data bs)"
    by (rule do_write_data_carries [OF c]) (use fits in simp_all)
  ultimately show ?thesis by (auto simp: prod_eq_iff)
qed

section \<open>A write request from arrival to answer\<close>

text \<open>
  The write has been done: at one step of the run the code's file operation for this request was carried out and
  returned success, and the run went on from there.
\<close>

definition write_done :: "mount_env \<Rightarrow> pqfs \<Rightarrow> task \<Rightarrow> path \<Rightarrow> i64 \<Rightarrow> bytes \<Rightarrow> event list \<Rightarrow> pqfs \<Rightarrow> bool" where
  "write_done M st0 t0 f off data evs st \<longleftrightarrow> (\<exists>evs1 evs2 s1 s2 k e r.
     evs = evs1 @ Changed (t_id t0) (t_ino t0) (WriteAt (offset_or_zero off) data) # evs2 \<and>
     run (step M) st0 evs1 s1 \<and> run (step M) s2 evs2 st \<and>
     k < length (p_workers s1) \<and> p_workers s1 ! k = Fetched t0 e \<and>
     do_write_data (m_prims M) (m_crypto M) e f off data (p_world s1) = (Inr r, p_world s2))"

lemma run_snoc: "run stp s es s' \<Longrightarrow> stp s' e s'' \<Longrightarrow> run stp s (es @ [e]) s''"
  by (rule run_append [OF _ run_cons [OF _ run_nil]])

lemma write_done_later:
  assumes "write_done M st0 t0 f off data evs st" and "step M st ev st'"
  shows "write_done M st0 t0 f off data (evs @ [ev]) st'"
proof -
  from assms(1) obtain evs1 evs2 s1 s2 k e r where
    "evs = evs1 @ Changed (t_id t0) (t_ino t0) (WriteAt (offset_or_zero off) data) # evs2"
    "run (step M) st0 evs1 s1" "run (step M) s2 evs2 st" "k < length (p_workers s1)" "p_workers s1 ! k = Fetched t0 e"
    "do_write_data (m_prims M) (m_crypto M) e f off data (p_world s1) = (Inr r, p_world s2)"
    unfolding write_done_def by blast
  with run_snoc [OF this(3) assms(2)] show ?thesis
    unfolding write_done_def by (intro exI [of _ evs1] exI [of _ "evs2 @ [ev]"] exI [of _ s1] exI [of _ s2] exI [of _ k] exI [of _ e] exI [of _ r]) simp
qed

text \<open>
  What is known of the request: its task is the one the request made, and when its file operation is over, or the
  request is acknowledged, the write has been done.
\<close>

definition write_tracked :: "mount_env \<Rightarrow> pqfs \<Rightarrow> task \<Rightarrow> path \<Rightarrow> i64 \<Rightarrow> bytes \<Rightarrow> pqfs \<Rightarrow> event list \<Rightarrow> bool" where
  "write_tracked M st0 t0 f off data st evs \<longleftrightarrow> run (step M) st0 evs st \<and>
     t_id t0 < p_next st \<and> t_job t0 = WriteJob f off data \<and>
     (\<forall>t \<in> tasks st. t_id t = t_id t0 \<longrightarrow> t = t0) \<and>
     (\<forall>k < length (p_workers st). \<forall>t r. p_workers st ! k = Transferred t r \<longrightarrow> t_id t = t_id t0 \<longrightarrow>
        write_done M st0 t0 f off data evs st) \<and>
     (\<forall>rep. (t_id t0, rep) \<in> set (p_replies st) \<longrightarrow> (\<exists>code. rep = ReplyError code) \<or>
        rep = ReplyWritten (of_nat (length data)) \<and> write_done M st0 t0 f off data evs st)"

lemma write_tracked_dispatch:
  assumes w: "write_tracked M st0 t0 f off data st evs" and s: "step M st ev st'"
    and d: "dispatched (p_next st) (st\<lparr>p_next := p_next st + 1\<rparr>) st'"
  shows "write_tracked M st0 t0 f off data st' (evs @ [ev])"
proof -
  note W = w [unfolded write_tracked_def]
  have n: "t_id t0 \<noteq> p_next st" using W by simp
  have ts: "t \<in> tasks st" if "t \<in> tasks st'" "t_id t = t_id t0" for t
    using d that n by (auto simp: dispatched_def tasks_def)
  have f: "p_workers st' = p_workers st" "p_next st' = p_next st + 1"
    "(t_id t0, rep) \<in> set (p_replies st') \<Longrightarrow> (t_id t0, rep) \<in> set (p_replies st)" for rep
    using d n by (auto simp: dispatched_def)
  have "run (step M) st0 (evs @ [ev]) st'" by (rule run_snoc [of "step M" st0 evs st]) (use W s in simp_all)
  moreover have "t_id t0 < p_next st'" using W f(2) by simp
  ultimately show ?thesis
    unfolding write_tracked_def using W ts f(1,3) write_done_later [OF _ s] by (metis (no_types, lifting))
qed

lemma write_tracked_step:
  assumes w: "write_tracked M st0 t0 f off data st evs" and s: "step M st ev st'" and k: "k < length (p_workers st)"
    and ph: "p_workers st' = (p_workers st)[k := ph]" and ts: "tasks st' \<subseteq> tasks st" and nx: "p_next st' = p_next st"
    and tr: "\<And>t r. ph = Transferred t r \<Longrightarrow> t_id t = t_id t0 \<Longrightarrow> write_done M st0 t0 f off data (evs @ [ev]) st'"
    and rs: "\<And>rep. (t_id t0, rep) \<in> set (p_replies st') \<Longrightarrow> (t_id t0, rep) \<in> set (p_replies st) \<or> (\<exists>code. rep = ReplyError code) \<or>
      rep = ReplyWritten (of_nat (length data)) \<and> write_done M st0 t0 f off data evs st"
  shows "write_tracked M st0 t0 f off data st' (evs @ [ev])"
proof -
  note W = w [unfolded write_tracked_def] and later = write_done_later [OF _ s]
  have 1: "run (step M) st0 (evs @ [ev]) st'" by (rule run_snoc [of "step M" st0 evs st]) (use W s in simp_all)
  have 3: "t_id t = t_id t0 \<longrightarrow> t = t0" if "t \<in> tasks st'" for t using W ts that by blast
  have 4: "write_done M st0 t0 f off data (evs @ [ev]) st'"
    if l: "l < length (p_workers st')" "p_workers st' ! l = Transferred t r" "t_id t = t_id t0" for l t r
  proof (cases "l = k")
    case True
    then have "ph = Transferred t r" using l(2) k by (simp add: ph)
    then show ?thesis using tr [OF _ l(3)] by simp
  next
    case False
    then have "write_done M st0 t0 f off data evs st" using W l by (simp add: ph)
    then show ?thesis by (rule later)
  qed
  have 5: "(\<exists>code. rep = ReplyError code) \<or> rep = ReplyWritten (of_nat (length data)) \<and> write_done M st0 t0 f off data (evs @ [ev]) st'"
    if "(t_id t0, rep) \<in> set (p_replies st')" for rep
    using rs [OF that] W later by blast
  show ?thesis unfolding write_tracked_def nx using W 1 3 4 5 by blast
qed

lemma write_tracked_advance:
  assumes w: "write_tracked M st0 t0 f off data st evs" and adv: "advance M k st = Some (ev, st')"
  shows "write_tracked M st0 t0 f off data st' (evs @ [ev])"
proof -
  let ?n = "t_id t0" and ?did = "write_done M st0 t0 f off data"
  note k = advance_index [OF adv] and W = w [unfolded write_tracked_def]
  have s: "step M st ev st'" by (rule step.worker [OF adv])
  have f: "t_job t0 = WriteJob f off data" using W by blast
  have is0: "t = t0" if "at_hand (p_workers st ! k) = Some t" "t_id t = ?n" for t
    using W that k unfolding tasks_def by blast
  have old: "?did evs st" if "p_workers st ! k = Transferred t r" "t_id t = ?n" for t r
    using W that k by blast
  note keep = write_tracked_step [OF w s k _ advance_tasks [OF adv]]
  from adv show ?thesis
  proof (cases rule: advance_cases)
    case (Take t q)
    then show ?thesis by (intro keep [of "Blocked t"]) auto
  next
    case Leave
    then show ?thesis by (intro keep [of Exited]) auto
  next
    case (Lock t)
    then show ?thesis by (intro keep [of "Locked t"]) auto
  next
    case (Read t e g off' sz rep w)
    have "t_id t \<noteq> ?n" using is0 [of t] Read(1,2) f by auto
    with Read show ?thesis by (intro keep [of Idle]) (auto simp: finish_def)
  next
    case (Gone t)
    then show ?thesis by (intro keep [of Idle]) (auto simp: finish_def)
  next
    case (Fetch t e)
    then show ?thesis by (intro keep [of "Fetched t e"]) auto
  next
    case (Fail t e code w)
    then show ?thesis by (intro keep [of Idle]) (auto simp: finish_def)
  next
    case (Transfer t e r w)
    have "?did (evs @ [ev]) st'" if "t_id t = ?n"
    proof -
      have t: "t = t0" using is0 [of t] that Transfer(1) by simp
      then have "do_write_data (m_prims M) (m_crypto M) e f off data (p_world st) = (Inr r, p_world st')"
        using Transfer(2,4) f by (simp add: job_io_def)
      moreover have "ev = Changed ?n (t_ino t0) (WriteAt (offset_or_zero off) data)" using Transfer(3) f t by (simp add: job_op_def)
      ultimately show ?thesis using W k Transfer(1) t run_nil [of "step M" st'] unfolding write_done_def by blast
    qed
    with Transfer show ?thesis by (intro keep [of "Transferred t r"]) auto
  next
    case (Commit t r rep s w)
    have "rep = ReplyWritten (of_nat (length data)) \<and> ?did evs st \<or> (\<exists>code. rep = ReplyError code)" if "t_id t = ?n"
      using is0 [of t] that Commit(1,2) f old by (auto simp: record_result_def commit_write_def split: option.splits prod.splits)
    with Commit show ?thesis by (intro keep [of Idle]) (auto simp: finish_def)
  qed
qed

interpretation write_tracking: simulation "step M" "write_tracked M st0 t0 f off data" "\<lambda>evs ev. evs @ [ev]" for M st0 t0 f off data
proof
  fix st evs ev st' assume w: "write_tracked M st0 t0 f off data st evs" and s: "step M st ev st'"
  from s show "write_tracked M st0 t0 f off data st' (evs @ [ev])"
  proof cases
    case (dispatcher req)
    with write_tracked_dispatch [OF w s] dispatch_effect [of "st\<lparr>p_next := p_next st + 1\<rparr>" "p_next st" M req] show ?thesis by simp
  next
    case (worker k)
    then show ?thesis by (rule write_tracked_advance [OF w])
  qed
qed

lemma foldl_snoc: "foldl (\<lambda>xs x. xs @ [x]) a xs = a @ xs"
  by (induction xs arbitrary: a) simp_all

lemma unused_id:
  assumes "accounted st"
  shows "t \<in> tasks st \<Longrightarrow> t_id t \<noteq> p_next st" and "(p_next st, rep) \<notin> set (p_replies st)"
proof -
  have "occurrences (p_next st) st = 0" using assms by (simp add: accounted_def)
  then have 0: "filter (\<lambda>r. fst r = p_next st) (p_replies st) = []" "filter (\<lambda>t. t_id t = p_next st) (p_queue st) = []"
    "filter (works_on (p_next st)) (p_workers st) = []" by (simp_all add: occurrences_def)
  show "(p_next st, rep) \<notin> set (p_replies st)" using 0(1) by (force simp: filter_empty_conv)
  show "t_id t \<noteq> p_next st" if "t \<in> tasks st"
    using that 0(2,3) by (fastforce simp: tasks_def filter_empty_conv works_on_def dest: nth_mem)
qed

lemma received_write_tracked:
  assumes st: "accounted st" "p_open st"
    and t0_def: "t0 = \<lparr>t_id = p_next st, t_ino = ino, t_job = WriteJob (data_path (p_inner st) ino) off data\<rparr>"
  shows "write_tracked M (received M (WriteRequest ino off data) st) t0 (data_path (p_inner st) ino) off data
    (received M (WriteRequest ino off data) st) []"
proof -
  let ?st = "inode_lock ino (st\<lparr>p_next := p_next st + 1\<rparr>)" and ?r = "received M (WriteRequest ino off data) st"
  have cases: "(\<exists>code. ?r = send_reply (p_next st) (ReplyError code) ?st) \<or> ?r = ?st\<lparr>p_queue := p_queue st @ [t0]\<rparr>"
    using st(2) by (auto simp: received_def pqfs_write_def Let_def spawn_job_def t0_def split: option.split entry_kind.split)
  note un = unused_id [OF st(1)]
  have nt: "t_id t \<noteq> p_next st" if "k < length (p_workers st)" "p_workers st ! k = Transferred t r" for k t r
    using un(1) [of t] that by (force simp: tasks_def)
  have ts: "tasks (?st\<lparr>p_queue := p_queue st @ [t0]\<rparr>) = insert t0 (tasks st)" "tasks ?st = tasks st"
    by (auto simp: tasks_def)
  have F: "p_workers ?r = p_workers st" "p_next ?r = p_next st + 1" "tasks ?r \<subseteq> insert t0 (tasks st)"
    "(p_next st, rep) \<in> set (p_replies ?r) \<Longrightarrow> \<exists>code. rep = ReplyError code" for rep
    using cases ts un(2) by auto
  have id: "t_id t0 = p_next st" by (simp add: t0_def)
  show ?thesis
    unfolding write_tracked_def id F(1,2)
    using F(3,4) un(1) nt run_nil by (auto simp: t0_def)
qed

section \<open>Properties\<close>

lemma changes_of_Cons: "changes_of i (xs @ Changed n i op # ys) = changes_of i xs @ op # changes_of i ys"
  by (simp add: changes_of_append)

text \<open>
  C9: an acknowledged write is in the file.  Say a write request is answered with anything but an error, whatever the
  dispatcher and the workers do meanwhile and whichever file operations fail.  Then the answer is the number of bytes given,
  and at one step of the run the worker that has the request did its file operation with success: if the data file held the bytes
  \<open>bs\<close> before that step, it holds \<open>bs\<close> overwritten at the offset after it.  And when no operation failed, a read
  of that range returns the bytes written, once the workers are done with the file and as long as no later
  write or truncation of it was done.
\<close>

theorem acknowledged_write_took_effect:
  assumes "run (step M) (pqfs_new n inner w) evs0 st" and "p_open st"
    and "run (step M) (received M (WriteRequest ino off data) st) evs st'"
    and "(p_next st, rep) \<in> set (p_replies st')" and "succeeded rep"
    and "unat (offset_or_zero off) + length data \<le> max_size"
  shows "rep = ReplyWritten (of_nat (length data)) \<and>
    (\<exists>evs1 evs2 s1 s2 k t e r. evs = evs1 @ Changed (p_next st) ino (WriteAt (offset_or_zero off) data) # evs2 \<and>
       run (step M) (received M (WriteRequest ino off data) st) evs1 s1 \<and> run (step M) s2 evs2 st' \<and>
       k < length (p_workers s1) \<and> p_workers s1 ! k = Fetched t e \<and> t_id t = p_next st \<and>
       do_write_data (m_prims M) (m_crypto M) e (data_path (p_inner st) ino) off data (p_world s1) = (Inr r, p_world s2) \<and>
       (\<forall>bs. length bs \<le> max_size \<longrightarrow>
          carries (m_prims M) (m_crypto M) (calm (p_world s1)) (data_path (p_inner st) ino) (e_content_key e) (e_size e) bs \<longrightarrow>
          carries (m_prims M) (m_crypto M) (calm (p_world s2)) (data_path (p_inner st) ino) (fst r) (snd r)
            (overwrite (unat (offset_or_zero off)) data bs)) \<and>
       (\<forall>N dir c x len. mounted (m_prims M) (m_codec M) (m_crypto M) N dir inner \<longrightarrow> fault_free w \<longrightarrow>
          contains_initially M inner w c \<longrightarrow> run (good_step M N) (pqfs_new n inner w) (evs0 @ Internal # evs) st' \<longrightarrow>
          holders True ino st' = 0 \<longrightarrow> changes_of ino evs2 = [] \<longrightarrow>
          bt_get ino (entries (p_inner st')) = Some x \<longrightarrow> e_kind x = File \<longrightarrow> unat len = length data \<longrightarrow>
          (\<exists>w'. do_read (m_prims M) (m_crypto M) x (data_path (p_inner st') ino) off len (p_world st') = (ReplyData data, w'))))"
proof -
  let ?f = "data_path (p_inner st) ino" and ?a = "unat (offset_or_zero off)"
  define t0 :: task where "t0 = \<lparr>t_id = p_next st, t_ino = ino, t_job = WriteJob ?f off data\<rparr>"
  have t0: "t_id t0 = p_next st" "t_ino t0 = ino" by (simp_all add: t0_def)
  have acc: "accounted st" by (rule replies.run_inv [OF assms(1) accounted_new])
  have tracked: "write_tracked M (received M (WriteRequest ino off data) st) t0 ?f off data st' evs"
    using write_tracking.run_sim [OF assms(3) received_write_tracked [OF acc assms(2) t0_def]] by (simp add: foldl_snoc)
  then have ack: "rep = ReplyWritten (of_nat (length data))" "write_done M (received M (WriteRequest ino off data) st) t0 ?f off data evs st'"
    using assms(4,5) by (auto simp: write_tracked_def t0 succeeded_iff)
  obtain evs1 evs2 s1 s2 k e r where did: "evs = evs1 @ Changed (p_next st) ino (WriteAt (offset_or_zero off) data) # evs2"
    "run (step M) (received M (WriteRequest ino off data) st) evs1 s1" "run (step M) s2 evs2 st'"
    "k < length (p_workers s1)" "p_workers s1 ! k = Fetched t0 e"
    "do_write_data (m_prims M) (m_crypto M) e ?f off data (p_world s1) = (Inr r, p_world s2)"
    using ack(2) unfolding write_done_def t0 by blast
  have bytes: "carries (m_prims M) (m_crypto M) (calm (p_world s2)) ?f (fst r) (snd r) (overwrite ?a data bs)"
    if "length bs \<le> max_size" "carries (m_prims M) (m_crypto M) (calm (p_world s1)) ?f (e_content_key e) (e_size e) bs" for bs
    by (rule successful_write_carries [OF did(6) that(2,1) assms(6)])
  have again: "\<exists>w'. do_read (m_prims M) (m_crypto M) x (data_path (p_inner st') ino) off len (p_world st') = (ReplyData data, w')"
    if g: "mounted (m_prims M) (m_codec M) (m_crypto M) N dir inner" "fault_free w" "contains_initially M inner w c"
      "run (good_step M N) (pqfs_new n inner w) (evs0 @ Internal # evs) st'" "holders True ino st' = 0" "changes_of ino evs2 = []"
      "bt_get ino (entries (p_inner st')) = Some x" "e_kind x = File" "unat len = length data" for N dir c x len
  proof -
    let ?old = "foldl file_spec (c ino) (changes_of ino (evs0 @ Internal # evs1))"
    have "changes_of ino (evs0 @ Internal # evs) = changes_of ino (evs0 @ Internal # evs1) @ [WriteAt (offset_or_zero off) data]"
      using g(6) by (simp add: did(1) changes_of_append)
    with contents_at_rest [OF g(1-4,7,8,5)]
    have "carries (m_prims M) (m_crypto M) (p_world st') (data_path (p_inner st') ino) (e_content_key x) (e_size x) (overwrite ?a data ?old)"
      by simp
    from do_read_carries [OF this offset_plus_len, of off len] show ?thesis
      by (metis g(9) segment_overwrite_same)
  qed
  from ack(1) did t0(1) bytes again show ?thesis by blast
qed

theorem acknowledged_write_took_effect_witness:
  "\<exists>evs st (s1 :: pqfs) (s2 :: pqfs) e r x w'. run (step sample_mount) (received sample_mount (WriteRequest 2 0 [7, 8]) sample_created) evs st \<and>
     (1, ReplyWritten 2) \<in> set (p_replies st) \<and> Changed 1 2 (WriteAt 0 [7, 8]) \<in> set evs \<and>
     do_write_data sample_prims sample_crypto e (data_path (p_inner sample_created) 2) 0 [7, 8] (p_world s1) = (Inr r, p_world s2) \<and>
     bt_get 2 (entries (p_inner st)) = Some x \<and>
     do_read sample_prims sample_crypto x (data_path (p_inner st) 2) 0 2 (p_world st) = (ReplyData [7, 8], w')"
proof -
  let ?evs = "[Internal, Internal, Internal, Changed 1 2 (WriteAt 0 [7, 8]), Internal]"
  obtain st x where w: "run (good_step sample_mount sample_names) (pqfs_new 2 sample_fs sample_fs_world) [Internal] sample_created"
    "good_step sample_mount sample_names sample_created Internal (received sample_mount (WriteRequest 2 0 [7, 8]) sample_created)"
    "run (good_step sample_mount sample_names) (received sample_mount (WriteRequest 2 0 [7, 8]) sample_created) ?evs st"
    "idle sample_created" "idle st" "bt_get 2 (entries (p_inner st)) = Some x" "e_kind x = File"
    "p_replies st = p_replies sample_created @ [(1, ReplyWritten 2)]" "p_next sample_created = 1"
    by (rule sample_write)
  have o: "p_open sample_created" "offset_or_zero 0 = 0" using w(4) by (simp_all add: idle_def offset_or_zero_def)
  have a: "(p_next sample_created, ReplyWritten 2) \<in> set (p_replies st)" "succeeded (ReplyWritten 2)"
    "unat (offset_or_zero 0) + length [7, 8 :: 8 word] \<le> max_size"
    using w(8,9) by (simp_all add: succeeded_def o max_size_def)
  have h: "holders True 2 st = 0" using w(5) by (simp add: holders_def holds_for_def idle_def filter_empty_conv)
  have m: "mounted (m_prims sample_mount) (m_codec sample_mount) (m_crypto sample_mount) sample_names [''v''] sample_fs"
    using sample_mounted(1) by simp
  have all: "run (good_step sample_mount sample_names) (pqfs_new 2 sample_fs sample_fs_world) ([Internal] @ Internal # ?evs) st"
    by (rule run_append [OF w(1) good_run [OF w(2,3)]])
  have len: "unat (2 :: u32) = length [7, 8 :: 8 word]" by simp
  note ack = conjunct2 [OF acknowledged_write_took_effect [OF good_run_step [OF w(1)] o(1) good_run_step [OF w(3)] a]]
  have "\<exists>evs1 evs2 (s1 :: pqfs) (s2 :: pqfs) e r. ?evs = evs1 @ Changed 1 2 (WriteAt 0 [7, 8]) # evs2 \<and>
      do_write_data sample_prims sample_crypto e (data_path (p_inner sample_created) 2) 0 [7, 8] (p_world s1) = (Inr r, p_world s2) \<and>
      (changes_of 2 evs2 = [] \<longrightarrow>
        (\<exists>w'. do_read sample_prims sample_crypto x (data_path (p_inner st) 2) 0 2 (p_world st) = (ReplyData [7, 8], w')))"
    using ack [unfolded w(9) o(2) sample_mount_sel]
  proof (elim exE conjE)
    fix evs1 evs2 e r and s1 s2 :: pqfs
    assume d: "?evs = evs1 @ Changed 1 2 (WriteAt 0 [7, 8]) # evs2"
      "do_write_data sample_prims sample_crypto e (data_path (p_inner sample_created) 2) 0 [7, 8] (p_world s1) = (Inr r, p_world s2)"
    assume g: "\<forall>N dir c x len. mounted sample_prims bincode_index sample_crypto N dir sample_fs \<longrightarrow> fault_free sample_fs_world \<longrightarrow>
        contains_initially sample_mount sample_fs sample_fs_world c \<longrightarrow>
        run (good_step sample_mount N) (pqfs_new 2 sample_fs sample_fs_world) ([Internal] @ Internal # ?evs) st \<longrightarrow>
        holders True 2 st = 0 \<longrightarrow> changes_of 2 evs2 = [] \<longrightarrow> bt_get 2 (entries (p_inner st)) = Some x \<longrightarrow> e_kind x = File \<longrightarrow>
        unat len = length [7, 8 :: 8 word] \<longrightarrow>
        (\<exists>w'. do_read sample_prims sample_crypto x (data_path (p_inner st) 2) 0 len (p_world st) = (ReplyData [7, 8], w'))"
    show ?thesis
      by (intro exI conjI, rule d(1), rule d(2))
        (intro impI, rule g [rule_format, OF m [unfolded sample_mount_sel] sample_mounted(4) sample_initially all h _ w(6,7) len])
  qed
  then obtain evs1 evs2 e r and s1 s2 :: pqfs where d: "?evs = evs1 @ Changed 1 2 (WriteAt 0 [7, 8]) # evs2"
    "do_write_data sample_prims sample_crypto e (data_path (p_inner sample_created) 2) 0 [7, 8] (p_world s1) = (Inr r, p_world s2)"
    and g: "changes_of 2 evs2 = [] \<Longrightarrow>
      \<exists>w'. do_read sample_prims sample_crypto x (data_path (p_inner st) 2) 0 2 (p_world st) = (ReplyData [7, 8], w')"
    by blast
  have "changes_of 2 evs1 @ WriteAt 0 [7, 8] # changes_of 2 evs2 = [WriteAt 0 [7, 8]]"
    using arg_cong [OF d(1), of "changes_of 2"] by (simp add: changes_of_append)
  then have "changes_of 2 evs2 = []" by (auto simp: append_eq_Cons_conv)
  from g [OF this] obtain w' where "do_read sample_prims sample_crypto x (data_path (p_inner st) 2) 0 2 (p_world st) = (ReplyData [7, 8], w')" by blast
  moreover have "Changed 1 2 (WriteAt 0 [7, 8]) \<in> set ?evs" by simp
  ultimately show ?thesis using good_run_step [OF w(3)] a(1) [unfolded w(9)] d(2) w(6) by blast
qed

end
