(* ===== verification/Spec2Isabelle.thy ===== *)
theory Spec2Isabelle
  imports Listing Interference Acknowledgement
begin

text \<open>
  \<^bold>\<open>pqfs: an encrypted file system with post-quantum key slots.\<close>

  pqfs keeps a directory tree in a backend directory: one encrypted index (\<open>pqfs.index\<close>), one data file per regular
  file (\<open>data/<inode>\<close>, a sequence of separately encrypted blocks) and a header (\<open>pqfs.header\<close>) with one slot per
  credential, each holding the master key wrapped for a password or for an ML-KEM identity.  \<open>pqfs mount\<close> serves the
  tree through FUSE; the other commands make identities and change the slots or the master key.  This development models
  the Rust sources under \<open>src/src\<close> and proves what a user relies on: names and contents are kept, also under
  concurrency, crashes and I/O errors; credentials open what they should; and where the code falls short, that it does.

  \<^bold>\<open>How the parts fit.\<close>  \<open>main\<close> picks a command.  A mount resolves the credential, opens or makes the header
  (\<open>crypto/volume.rs\<close>), loads the index (\<open>fs/inner.rs\<close>) and hands the file system to the fuse library.  Requests arrive
  one at a time at the dispatcher (\<open>fs/wrapper.rs\<close>), which answers metadata requests itself (\<open>fs/ops.rs\<close>) and queues
  reads, writes and truncations as jobs; worker threads run the jobs under one read-write lock per inode and use the
  block layer (\<open>fs/blocks.rs\<close>).  Metadata changes rewrite the whole index through a temporary file.

  \<^bold>\<open>Conventions.\<close>  Code with effects is a function on an explicit \<open>world\<close> (\<open>World\<close>): the files, the random tape,
  the clock, the terminal, and a list of outcomes for the coming file operations, so that every I/O error at every
  point is a world and effects made before an error stay made.  A crash is a run in which the next operation fails.
  Fallible code returns \<open>error + 'a\<close>; request handlers return the reply, the new metadata and the new world.
  Integers keep their width (\<open>64 word\<close> and so on) with the wrap-around of a release build; \<open>usize\<close> has 64 bits.
  Files are maps from paths to bytes; directories are not tracked.

  \<^bold>\<open>Theories, in the order of the code.\<close>

  \<^item> \<open>Pqfs_Prelude\<close>, \<open>World\<close>, \<open>Utf8\<close>, \<open>Ordered_Map\<close>, \<open>Disk_Wp\<close>: byte and word lemmas, the world and its file operations,
    \<open>String::from_utf8\<close> and \<open>to_string_lossy\<close>, \<open>BTreeMap\<close>/\<open>BTreeSet\<close> (locale \<open>ordered_map\<close>), and a weakest precondition
    calculus over the files that also covers failure.
  \<^item> \<open>Header\<close>, \<open>Crypto\<close>, \<open>Identity\<close>, \<open>Volume\<close> (\<open>crypto/*.rs\<close>): header and slots, key derivation and wrapping, bulk, block
    and file-name encryption, identities, and the life of a volume: \<open>init\<close>, \<open>unlock\<close>, \<open>write_header\<close>, \<open>commit_rekey\<close>,
    \<open>recover\<close>.  The primitives of other crates are the record \<open>prims\<close>; what is relied on is stated as \<open>aead_laws\<close>,
    \<open>mac_laws\<close>, \<open>kdf_laws\<close> and \<open>kem_laws\<close>.
  \<^item> \<open>Sample\<close>, \<open>Bincode\<close>, \<open>Header_Format\<close>: a computable instance of the primitives, and the bincode formats of the index, the
    header and public identities with their round trips (locale \<open>format\<close>); they show that the laws can hold together
    and carry the witnesses.  In the properties the serialisation is a parameter with the contract \<open>codec_laws\<close>.
  \<^item> \<open>Entry\<close>, \<open>Blocks\<close>, \<open>Inner\<close>, \<open>Ops\<close> (\<open>fs/entry.rs\<close>, \<open>blocks.rs\<close>, \<open>inner.rs\<close>, \<open>ops.rs\<close>): entries and timestamps, the block
    layer, the metadata with its two child indexes, loading and saving the index, rekeying it, and every request handler.
  \<^item> \<open>Wrapper\<close> (\<open>fs/wrapper.rs\<close>): dispatcher, job queue, workers and inode locks as the step relation \<open>step\<close>, whose runs
    are all interleavings; \<open>mount\<close> up to the fuse session, and \<open>drop_pqfs\<close>.
  \<^item> \<open>Cli\<close>, \<open>Commands\<close> (\<open>cli.rs\<close>, \<open>commands.rs\<close>): arguments, credentials, and the six slot commands.  \<open>Session\<close> holds
    \<open>pqfs_main\<close> (\<open>main.rs\<close>).

  \<^bold>\<open>Specifications and what is shown.\<close>

  \<^item> \<open>Blocks\<close>: a data file refines a byte array (locale \<open>byte_store\<close>, interpretation \<open>blocks\<close>); a failed write leaves the records
    before it alone; a block moved to another position is rejected.
  \<^item> \<open>Namespace\<close>, \<open>Requests\<close>, \<open>Durability\<close>: the name space \<open>ns\<close> (directories as maps from names to inodes) is the
    specification; create, mkdir, symlink, unlink, rmdir and rename implement it or are refused as specified, for any I/O errors (locales \<open>service\<close> and
    \<open>durable_service\<close>); remounting after a crash gives the name space after a prefix of the requests, and after an
    acknowledged request that of all of them; the tree stays rooted and acyclic.
  \<^item> \<open>Scheduling\<close>: runs of a transition system with the locales \<open>simulation\<close>, \<open>invariant\<close> and \<open>decreasing\<close>; locks exclude,
    every request is answered exactly once, nothing deadlocks, and unmounting drains the queue in a bounded number of steps.
  \<^item> \<open>Contents\<close>, \<open>Concurrency\<close>, \<open>Coherence\<close>: in every interleaving the contents of a file are what the writes and truncations
    done on it make of it; a read returns current bytes if its entry is current.
  \<^item> \<open>Acknowledgement\<close>: the bytes of an acknowledged write are in the data file, whatever fails, and a later read returns them.
  \<^item> \<open>Footprint\<close>, \<open>Persistence\<close>, \<open>Session\<close>: serving touches the index and data files only; the index on disk is current or
    marked as stale; hence unmounting and mounting again returns every name and every byte.
  \<^item> \<open>Volume_Safety\<close>, \<open>Sharing\<close>, \<open>Rekeying\<close>: who can open a volume after each command; header updates are atomic (locale
    \<open>atomic_file\<close>, interpreted for the header and for the index); a rekey keeps the tree and is all or nothing outside its final swap.
  \<^item> \<open>Listing\<close>: the indexes equal a plain search, directory listings are complete, metadata stays well formed.
  \<^item> \<open>Interference\<close>: a command and a mount on the same backend, their file operations interleaved by a schedule.

  \<^bold>\<open>Where the code falls short\<close> (each is a theorem): a rekey interrupted in its final swap is refused for ever; a header can
  grow too large to be read; \<open>share\<close> seals a tampered header; rekeying an unused volume loses the root; unmounting can lose a
  queued write; a read can fail because a truncation it races with empties the file; a change whose save failed stays visible and is never
  saved by a sync; a removal whose save failed leaves the name without its contents; a command that changes the slots of a
  mounted volume can replace the header by the index.

  \<^bold>\<open>Bounds.\<close>  Contents are followed up to \<open>max_size\<close> = \<open>2^63\<close> bytes, what a signed offset can address.  Names are taken from a
  set \<open>N\<close> on which the keyed hash is injective, the only form in which collision resistance is used.  \<open>is_descendant_of\<close>
  counts its hops as the code does, one more than there are entries, and that many are shown to be enough.  A directory is read to its
  end with any number of requests above its size.  No other definition needs fuel: loops are structural over lists or ranges.

  \<^bold>\<open>Not modelled.\<close>  The choice of the ML-KEM parameter set by build features (\<open>crypto/kem.rs\<close>; a parameter here); parsing of the
  command line by clap and the fuse session (the model starts from parsed arguments and decoded requests); logging; test
  modules.  Access modes of files, directories of the backend and the page cache below \<open>sync_all\<close> are not part of the world; other
  processes appear in \<open>Interference\<close> only.  A phase of a job (taking the lock, reading the entry, the file operation, recording the result) is one step, and the
  metadata lock, held within a phase only, is therefore not part of the state.  Poisoned locks do not arise, as no modelled
  handler panics; secrecy is not stated.  Requests the dispatcher answers itself take no inode lock and are interleaved with the
  phases of the jobs.  The locks do not prefer writers, as \<open>std::sync::RwLock\<close> may; that only adds runs.  The label \<open>Changed\<close> of a
  step records for the proofs which file operation was done in it; the program has no such events.
\<close>

end
